(* ===== verification/Prelude.thy ===== *)
theory Prelude
  imports Complex_Main "HOL-Library.AList" "HOL-Library.Log_Nat"
begin

text \<open>
  The vocabulary every component shares: the result type of fallible operations, Python
  dictionaries with their insertion order, decimal text, and IEEE binary64 rounding.

  \<^item> A Python \<open>dict\<close> is an association list: \<^const>\<open>AList.update\<close> keeps the place of an
    existing key and appends a new one, as item assignment does; \<^const>\<open>map_of\<close> is \<open>get\<close>.
  \<^item> A Python \<open>float\<close> is the rational number it denotes; \<open>fl\<close> is the rounding of an exact
    result to 53 significant bits, ties to even. Overflow, subnormals, infinities and NaN
    are outside the range the modelled code computes in.
  \<^item> \<open>show_int\<close> is \<open>str\<close> of an \<open>int\<close>, \<open>zfill\<close> the padding of a \<open>:06d\<close> format and
    \<open>parse_nat\<close> is \<open>int\<close> of a string of ASCII digits.
\<close>

named_theorems model_defs \<open>unfolding rules of the small definitions of the model\<close>
named_theorems dict_simps \<open>rewriting of dictionary operations\<close>

section \<open>Lists\<close>

lemma sum_list_map_nonneg: "(\<And>x. x \<in> set xs \<Longrightarrow> 0 \<le> f x) \<Longrightarrow> 0 \<le> sum_list (map f xs :: int list)"
  by (rule sum_list_nonneg) auto

lemma sum_list_map_le_member:
  fixes f :: "'a \<Rightarrow> int"
  assumes "x \<in> set xs" and "\<And>y. y \<in> set xs \<Longrightarrow> 0 \<le> f y"
  shows "f x \<le> sum_list (map f xs)"
  using assms by (intro member_le_sum_list) auto

lemma filter_mono_sum_list:
  fixes f :: "'a \<Rightarrow> int"
  assumes "\<And>x. x \<in> set xs \<Longrightarrow> 0 \<le> f x"
  shows "sum_list (map f (filter P xs)) \<le> sum_list (map f xs)"
  using assms by (induction xs) (auto intro: add_increasing)

lemma length_filter_mono: "(\<And>x. x \<in> set xs \<Longrightarrow> P x \<Longrightarrow> Q x) \<Longrightarrow> length (filter P xs) \<le> length (filter Q xs)"
  by (induction xs) auto

section \<open>Dictionaries\<close>

type_synonym ('k, 'v) dict = "('k \<times> 'v) list"

abbreviation dict_keys :: "('k, 'v) dict \<Rightarrow> 'k list" where
  "dict_keys d \<equiv> map fst d"

abbreviation dict_values :: "('k, 'v) dict \<Rightarrow> 'v list" where
  "dict_values d \<equiv> map snd d"

abbreviation wf_dict :: "('k, 'v) dict \<Rightarrow> bool" where
  "wf_dict d \<equiv> distinct (dict_keys d)"

lemma map_of_update [simp, dict_simps]: "map_of (AList.update k v d) x = (if x = k then Some v else map_of d x)"
  by (simp add: update_conv')

lemma map_of_delete [simp, dict_simps]: "map_of (AList.delete k d) x = (if x = k then None else map_of d x)"
  by (simp add: delete_conv')

lemma wf_dict_update [simp, intro]: "wf_dict d \<Longrightarrow> wf_dict (AList.update k v d)"
  by (rule distinct_update)

lemma wf_dict_delete [simp, intro]: "wf_dict d \<Longrightarrow> wf_dict (AList.delete k d)"
  by (rule distinct_delete)

lemma update_append_new: "map_of d k = None \<Longrightarrow> AList.update k v d = d @ [(k, v)]"
  by (induction d) (auto split: if_splits)

lemma update_keys_at: "map_of d k = Some u \<Longrightarrow> dict_keys (AList.update k v d) = dict_keys d"
  by (induction d) (auto split: if_splits)

lemma update_keys_set: "k' \<in> set (dict_keys (AList.update k v d)) \<longleftrightarrow> k' = k \<or> k' \<in> set (dict_keys d)"
  by (simp add: dom_update)

lemma map_of_key: "map_of d k = Some v \<Longrightarrow> k \<in> set (dict_keys d)"
  by (force dest: map_of_SomeD)

lemma dict_keys_empty: "(\<And>k. map_of d k = None) \<Longrightarrow> d = []"
proof (cases d)
  case (Cons p d')
  assume "\<And>k. map_of d k = None"
  from this [of "fst p"] Cons show ?thesis by (cases p) simp
qed simp

lemma update_in_place:
  "wf_dict d \<Longrightarrow> map_of d k = Some u \<Longrightarrow>
   AList.update k v d = map (\<lambda>(x, w). (x, if x = k then v else w)) d"
proof (induction d)
  case Nil
  then show ?case by simp
next
  case (Cons p d)
  then show ?case
    by (cases p) (force split: if_splits intro!: map_idI [symmetric] simp: weak_map_of_SomeI)
qed

text \<open>A sum over the values of a dictionary changes by the difference at the updated key.\<close>

definition dict_sum :: "('v \<Rightarrow> int) \<Rightarrow> ('k, 'v) dict \<Rightarrow> int" where
  "dict_sum f d = (\<Sum>p\<leftarrow>d. f (snd p))"

lemma dict_sum_simps [simp]: "dict_sum f [] = 0" "dict_sum f (p # d) = f (snd p) + dict_sum f d"
  by (simp_all add: dict_sum_def)

lemma dict_sum_append [simp]: "dict_sum f (d @ e) = dict_sum f d + dict_sum f e"
  by (simp add: dict_sum_def)

lemma dict_sum_nonneg: "(\<And>v. v \<in> set (dict_values d) \<Longrightarrow> 0 \<le> f v) \<Longrightarrow> 0 \<le> dict_sum f d"
  by (induction d) auto

lemma dict_sum_update:
  "wf_dict d \<Longrightarrow> dict_sum f (AList.update k v d)
     = dict_sum f d - (case map_of d k of None \<Rightarrow> 0 | Some u \<Rightarrow> f u) + f v"
  by (induction d) (auto split: option.splits dest: map_of_SomeD image_eqI)

lemma dict_sum_delete:
  "wf_dict d \<Longrightarrow> dict_sum f (AList.delete k d) = dict_sum f d - (case map_of d k of None \<Rightarrow> 0 | Some u \<Rightarrow> f u)"
proof (induction d)
  case Nil
  then show ?case by simp
next
  case (Cons p d)
  show ?case
  proof (cases "fst p = k")
    case True
    with Cons.prems have "AList.delete k d = d"
      by (intro delete_id) (auto simp: image_iff)
    with True show ?thesis by (cases p) simp
  next
    case False
    with Cons show ?thesis by (cases p) auto
  qed
qed

text \<open>Every value of a dictionary has a property.\<close>

definition dict_all :: "('v \<Rightarrow> bool) \<Rightarrow> ('k, 'v) dict \<Rightarrow> bool" where
  "dict_all P d = list_all (\<lambda>p. P (snd p)) d"

lemma dict_all_simps [simp]: "dict_all P []" "dict_all P (p # d) \<longleftrightarrow> P (snd p) \<and> dict_all P d"
  by (simp_all add: dict_all_def)

lemma dict_all_append [simp]: "dict_all P (d @ e) \<longleftrightarrow> dict_all P d \<and> dict_all P e"
  by (simp add: dict_all_def)

lemma dict_all_update [intro]: "dict_all P d \<Longrightarrow> P v \<Longrightarrow> dict_all P (AList.update k v d)"
  by (induction d) auto

lemma dict_all_delete [intro]: "dict_all P d \<Longrightarrow> dict_all P (AList.delete k d)"
  by (induction d) auto

lemma dict_all_lookup: "dict_all P d \<Longrightarrow> map_of d k = Some v \<Longrightarrow> P v"
  by (induction d) (auto split: if_splits)

lemma dict_all_iff: "dict_all P d \<longleftrightarrow> (\<forall>v \<in> set (dict_values d). P v)"
  by (induction d) auto

lemma dict_all_mono: "dict_all P d \<Longrightarrow> (\<And>v. P v \<Longrightarrow> Q v) \<Longrightarrow> dict_all Q d"
  by (auto simp: dict_all_iff)

section \<open>Decimal text\<close>

definition digit_char :: "nat \<Rightarrow> char" where
  "digit_char d = char_of (48 + d)"

definition is_digit :: "char \<Rightarrow> bool" where
  "is_digit c \<longleftrightarrow> 48 \<le> (of_char c :: nat) \<and> (of_char c :: nat) \<le> 57"

definition digit_val :: "char \<Rightarrow> nat" where
  "digit_val c = of_char c - 48"

fun show_nat :: "nat \<Rightarrow> string" where
  "show_nat n = (if n < 10 then [digit_char n] else show_nat (n div 10) @ [digit_char (n mod 10)])"

declare show_nat.simps [simp del]

definition show_int :: "int \<Rightarrow> string" where
  "show_int i = (if i < 0 then ''-'' @ show_nat (nat (- i)) else show_nat (nat i))"

definition zfill :: "nat \<Rightarrow> string \<Rightarrow> string" where
  "zfill w s = replicate (w - length s) (CHR ''0'') @ s"

definition parse_nat :: "string \<Rightarrow> nat" where
  "parse_nat s = foldl (\<lambda>a c. a * 10 + digit_val c) 0 s"

lemma digit_val_char [simp]: "d < 10 \<Longrightarrow> digit_val (digit_char d) = d"
  by (simp add: digit_val_def digit_char_def)

lemma is_digit_char [simp]: "d < 10 \<Longrightarrow> is_digit (digit_char d)"
  by (simp add: is_digit_def digit_char_def)

lemma is_digit_zero [simp]: "is_digit (CHR ''0'')" and digit_val_zero [simp]: "digit_val (CHR ''0'') = 0"
  by (simp_all add: is_digit_def digit_val_def)

lemma not_is_digit_minus [simp]: "\<not> is_digit (CHR ''-'')"
  by (simp add: is_digit_def)

lemma show_nat_digits: "list_all is_digit (show_nat n)"
proof (induction n rule: show_nat.induct)
  case (1 n)
  then show ?case by (cases "n < 10") (auto simp: show_nat.simps [of n])
qed

lemma show_nat_not_Nil [simp]: "show_nat n \<noteq> []"
  by (simp add: show_nat.simps [of n])

lemma parse_nat_append: "parse_nat (s @ [c]) = parse_nat s * 10 + digit_val c"
  by (simp add: parse_nat_def)

lemma parse_nat_show [simp]: "parse_nat (show_nat n) = n"
proof (induction n rule: show_nat.induct)
  case (1 n)
  show ?case
  proof (cases "n < 10")
    case True
    then show ?thesis by (simp add: show_nat.simps [of n] parse_nat_def)
  next
    case False
    with 1 show ?thesis by (simp add: show_nat.simps [of n] parse_nat_append)
  qed
qed

lemma foldl_zeros: "foldl (\<lambda>a c. a * 10 + digit_val c) 0 (replicate k (CHR ''0'') @ s)
    = foldl (\<lambda>a c. a * 10 + digit_val c) 0 s"
  by (induction k) auto

lemma parse_nat_zfill [simp]: "parse_nat (zfill w s) = parse_nat s"
  by (simp only: parse_nat_def zfill_def foldl_zeros)

lemma zfill_digits: "list_all is_digit s \<Longrightarrow> list_all is_digit (zfill w s)"
  by (auto simp: zfill_def list_all_iff)

lemma zfill_not_Nil [simp]: "s \<noteq> [] \<Longrightarrow> zfill w s \<noteq> []"
  by (simp add: zfill_def)

lemma show_nat_inject: "show_nat m = show_nat n \<longleftrightarrow> m = n"
  by (metis parse_nat_show)

text \<open>Evaluation of decimal text by rewriting.\<close>

lemma digit_chars: "digit_char 0 = CHR ''0''" "digit_char (Suc 0) = CHR ''1''" "digit_char 1 = CHR ''1''" "digit_char 2 = CHR ''2''"
  "digit_char 3 = CHR ''3''" "digit_char 4 = CHR ''4''" "digit_char 5 = CHR ''5''" "digit_char 6 = CHR ''6''" "digit_char 7 = CHR ''7''"
  "digit_char 8 = CHR ''8''" "digit_char 9 = CHR ''9''"
  by (simp_all add: digit_char_def char_of_def bit_0)

lemmas show_eval = show_nat.simps digit_chars show_int_def

section \<open>IEEE binary64 rounding\<close>

definition rne :: "rat \<Rightarrow> int" where
  "rne q = (let f = \<lfloor>q\<rfloor>; r = q - of_int f in
     if r < 1 / 2 then f else if 1 / 2 < r then f + 1 else if even f then f else f + 1)"

definition ilog2 :: "rat \<Rightarrow> int" where
  "ilog2 x = (let (n, d) = quotient_of x; k = bitlen n - bitlen d in if 2 powi k \<le> x then k else k - 1)"

definition fl :: "rat \<Rightarrow> rat" where
  "fl x = (if x = 0 then 0 else let e = ilog2 \<bar>x\<bar> - 52 in of_int (rne (x / 2 powi e)) * 2 powi e)"

lemma rne_of_int [simp]: "rne (of_int i) = i"
  by (simp add: rne_def)

lemma rne_nonneg: "0 \<le> q \<Longrightarrow> 0 \<le> rne q"
  by (simp add: rne_def Let_def)

lemma fl_zero [simp]: "fl 0 = 0"
  by (simp add: fl_def)

lemma fl_nonneg: "0 \<le> x \<Longrightarrow> 0 \<le> fl x"
  by (simp add: fl_def Let_def rne_nonneg)

end
