(* ===== verification/Errors.thy ===== *)
theory Errors
  imports Prelude
begin

text \<open>
  The exceptions of \<open>src/core/errors.py\<close> and \<open>src/execution/contracts.py\<close>, with the
  built-in ones the sources raise. An operation that may raise returns \<open>exn + 'a\<close>.
\<close>

datatype reject_code =
    KILL_SWITCH | UNKNOWN_PENDING | SYMBOL_NOT_ALLOWED | QTY_INVALID | PRICE_INVALID
  | TRADING_HALTED | TICK_TABLE_MISMATCH | PRICE_OFF_TICK | PRICE_OUT_OF_BAND
  | ORDER_RATE_LIMIT | DAILY_LOSS_LIMIT | NOTIONAL_LIMIT | POSITION_LIMIT
  | INSUFFICIENT_CASH | INSUFFICIENT_POSITION | ACCOUNT_MISMATCH

fun reject_code_value :: "reject_code \<Rightarrow> string" where
  "reject_code_value KILL_SWITCH = ''kill_switch''"
| "reject_code_value UNKNOWN_PENDING = ''unknown_pending''"
| "reject_code_value SYMBOL_NOT_ALLOWED = ''symbol_not_allowed''"
| "reject_code_value QTY_INVALID = ''qty_invalid''"
| "reject_code_value PRICE_INVALID = ''price_invalid''"
| "reject_code_value TRADING_HALTED = ''trading_halted''"
| "reject_code_value TICK_TABLE_MISMATCH = ''tick_table_mismatch''"
| "reject_code_value PRICE_OFF_TICK = ''price_off_tick''"
| "reject_code_value PRICE_OUT_OF_BAND = ''price_out_of_band''"
| "reject_code_value ORDER_RATE_LIMIT = ''order_rate_limit''"
| "reject_code_value DAILY_LOSS_LIMIT = ''daily_loss_limit''"
| "reject_code_value NOTIONAL_LIMIT = ''notional_limit''"
| "reject_code_value POSITION_LIMIT = ''position_limit''"
| "reject_code_value INSUFFICIENT_CASH = ''insufficient_cash''"
| "reject_code_value INSUFFICIENT_POSITION = ''insufficient_position''"
| "reject_code_value ACCOUNT_MISMATCH = ''account_mismatch''"

datatype exn =
    RiskRejectedError reject_code string
  | IllegalTransitionError string
  | BrokerIntegrityError string
  | KisApiError string string
  | AccountCheckError string
  | SessionLockError string
  | ExecutionError string
  | KrxAlphaError string
  | SlotBudgetExceededError string
  | MissingCredentialsError string
  | ScheduleOrderError string
  | SessionAnchorError string
  | ValueError string
  | KeyError string
  | RequestsError string
  | AttributeError string
  | TypeError string
  | IndexError string

type_synonym 'a result = "exn + 'a"

text \<open>\<open>is_execution_error\<close> is \<open>isinstance(exc, ExecutionError)\<close>: the class and its subclasses.\<close>

fun is_execution_error :: "exn \<Rightarrow> bool" where
  "is_execution_error (RiskRejectedError _ _) = True"
| "is_execution_error (IllegalTransitionError _) = True"
| "is_execution_error (BrokerIntegrityError _) = True"
| "is_execution_error (KisApiError _ _) = True"
| "is_execution_error (AccountCheckError _) = True"
| "is_execution_error (SessionLockError _) = True"
| "is_execution_error (ExecutionError _) = True"
| "is_execution_error _ = False"

text \<open>The error branch of a call is propagated, its value goes on: Python's sequencing.\<close>

fun rbind :: "'a result \<Rightarrow> ('a \<Rightarrow> 'b result) \<Rightarrow> 'b result" where
  "rbind (Inl e) f = Inl e"
| "rbind (Inr x) f = f x"

lemma rbind_Inr_iff: "rbind m f = Inr y \<longleftrightarrow> (\<exists>x. m = Inr x \<and> f x = Inr y)"
  by (cases m) auto

lemma rbind_Inl_iff: "rbind m f = Inl e \<longleftrightarrow> m = Inl e \<or> (\<exists>x. m = Inr x \<and> f x = Inl e)"
  by (cases m) auto

fun rmap :: "('a \<Rightarrow> 'b result) \<Rightarrow> 'a list \<Rightarrow> 'b list result" where
  "rmap f [] = Inr []"
| "rmap f (x # xs) = rbind (f x) (\<lambda>y. rbind (rmap f xs) (\<lambda>ys. Inr (y # ys)))"

lemma rmap_Inr_iff: "rmap f xs = Inr ys \<longleftrightarrow> list_all2 (\<lambda>x y. f x = Inr y) xs ys"
proof (induction xs arbitrary: ys)
  case Nil
  then show ?case by auto
next
  case (Cons x xs)
  then show ?case by (cases ys) (auto simp: rbind_Inr_iff)
qed

lemma rmap_map_Inr: "(\<And>x. x \<in> set xs \<Longrightarrow> f (g x) = Inr (h x)) \<Longrightarrow> rmap f (map g xs) = Inr (map h xs)"
  by (induction xs) auto

text \<open>A loop that accumulates in local variables and may raise.\<close>

fun rfold :: "('a \<Rightarrow> 's \<Rightarrow> 's result) \<Rightarrow> 'a list \<Rightarrow> 's \<Rightarrow> 's result" where
  "rfold f [] s = Inr s"
| "rfold f (x # xs) s = rbind (f x s) (rfold f xs)"

lemma rfold_append: "rfold f (xs @ ys) s = rbind (rfold f xs s) (rfold f ys)"
proof (induction xs arbitrary: s)
  case Nil
  then show ?case by simp
next
  case (Cons x xs)
  then show ?case by (cases "f x s") simp_all
qed

section \<open>Loops with an early exit\<close>

text \<open>A \<open>for\<close> loop whose body works on a state and may raise: the state at the raise is kept.\<close>

fun for_each :: "('k \<Rightarrow> 's \<Rightarrow> unit result \<times> 's) \<Rightarrow> 'k list \<Rightarrow> 's \<Rightarrow> unit result \<times> 's" where
  "for_each f [] s = (Inr (), s)"
| "for_each f (k # ks) s = (case f k s of (Inl e, s') \<Rightarrow> (Inl e, s') | (Inr _, s') \<Rightarrow> for_each f ks s')"

lemma for_each_inv:
  assumes "P s" and "\<And>k s. k \<in> set ks \<Longrightarrow> P s \<Longrightarrow> P (snd (f k s))"
  shows "P (snd (for_each f ks s))"
  using assms
proof (induction ks arbitrary: s)
  case Nil
  then show ?case by simp
next
  case (Cons k ks)
  obtain r s' where fk: "f k s = (r, s')" by (cases "f k s")
  then have "P s'" using Cons.prems(1) Cons.prems(2) [of k s] by simp
  with Cons fk show ?case by (cases r) auto
qed

lemma for_each_no_error:
  assumes "P s" and "\<And>k s. k \<in> set ks \<Longrightarrow> P s \<Longrightarrow> fst (f k s) = Inr () \<and> P (snd (f k s))"
  shows "fst (for_each f ks s) = Inr ()"
  using assms
proof (induction ks arbitrary: s)
  case Nil
  then show ?case by simp
next
  case (Cons k ks)
  obtain r s' where fk: "f k s = (r, s')" by (cases "f k s")
  then have "r = Inr ()" "P s'" using Cons.prems(1) Cons.prems(2) [of k s] by auto
  with Cons fk show ?case by auto
qed

end
