(* ===== verification/PyTime.thy ===== *)
theory PyTime
  imports Prelude
begin

text \<open>
  The part of Python's \<open>datetime\<close> the sources use. A \<open>datetime\<close> holds its calendar fields
  and its UTC offset, as the Python object does; order and differences are those of the
  instant (\<open>utc_us\<close>, microseconds from the proleptic day 0), and rendering reads the fields.
  A \<open>timedelta\<close> is an \<open>int\<close> of microseconds, a \<open>time\<close> is the microsecond of the day.
\<close>

record date =
  d_year :: nat
  d_month :: nat
  d_day :: nat

record datetime =
  dt_date :: date
  dt_tod :: nat
  dt_off :: int

type_synonym timedelta = int
type_synonym time = nat

abbreviation us_per_s :: int where "us_per_s \<equiv> 1000000"
abbreviation us_per_day :: int where "us_per_day \<equiv> 86400000000"

definition seconds :: "int \<Rightarrow> timedelta" where
  "seconds n = n * us_per_s"

definition mk_time :: "nat \<Rightarrow> nat \<Rightarrow> nat \<Rightarrow> time" where
  "mk_time h m s = (h * 3600 + m * 60 + s) * 1000000"

definition is_leap :: "nat \<Rightarrow> bool" where
  "is_leap y \<longleftrightarrow> y mod 4 = 0 \<and> (y mod 100 \<noteq> 0 \<or> y mod 400 = 0)"

definition days_in_month :: "nat \<Rightarrow> nat \<Rightarrow> nat" where
  "days_in_month y m = (if m = 2 then (if is_leap y then 29 else 28)
     else if m \<in> {4, 6, 9, 11} then 30 else 31)"

definition valid_date :: "date \<Rightarrow> bool" where
  "valid_date d \<longleftrightarrow> 1 \<le> d_year d \<and> d_year d \<le> 9999 \<and> 1 \<le> d_month d \<and> d_month d \<le> 12
     \<and> 1 \<le> d_day d \<and> d_day d \<le> days_in_month (d_year d) (d_month d)"

definition days_before_month :: "nat \<Rightarrow> nat \<Rightarrow> nat" where
  "days_before_month y m = sum_list (map (days_in_month y) [1..<m])"

definition toordinal :: "date \<Rightarrow> int" where
  "toordinal d = (let p = d_year d - 1 in
     int (p * 365 + p div 4 - p div 100 + p div 400 + days_before_month (d_year d) (d_month d) + d_day d))"

definition weekday :: "date \<Rightarrow> int" where
  "weekday d = (toordinal d + 6) mod 7"

definition local_us :: "datetime \<Rightarrow> int" where
  "local_us t = toordinal (dt_date t) * us_per_day + int (dt_tod t)"

definition utc_us :: "datetime \<Rightarrow> int" where
  "utc_us t = local_us t - dt_off t"

definition kst_off :: int where
  "kst_off = 9 * 3600 * us_per_s"

text \<open>The microsecond of the KST day of an instant.\<close>

definition kst_tod :: "int \<Rightarrow> nat" where
  "kst_tod u = nat ((u + kst_off) mod us_per_day)"

definition tod_hour :: "time \<Rightarrow> nat" where "tod_hour t = t div 3600000000"
definition tod_minute :: "time \<Rightarrow> nat" where "tod_minute t = t div 60000000 mod 60"
definition tod_second :: "time \<Rightarrow> nat" where "tod_second t = t div 1000000 mod 60"
definition tod_us :: "time \<Rightarrow> nat" where "tod_us t = t mod 1000000"

definition show2 :: "nat \<Rightarrow> string" where "show2 n = zfill 2 (show_nat n)"
definition show4 :: "nat \<Rightarrow> string" where "show4 n = zfill 4 (show_nat n)"
definition show6 :: "nat \<Rightarrow> string" where "show6 n = zfill 6 (show_nat n)"

definition strftime_Ymd :: "date \<Rightarrow> string" where
  "strftime_Ymd d = show_nat (d_year d) @ show2 (d_month d) @ show2 (d_day d)"

definition strftime_HMS :: "time \<Rightarrow> string" where
  "strftime_HMS t = show2 (tod_hour t) @ show2 (tod_minute t) @ show2 (tod_second t)"

definition date_isoformat :: "date \<Rightarrow> string" where
  "date_isoformat d = show4 (d_year d) @ ''-'' @ show2 (d_month d) @ ''-'' @ show2 (d_day d)"

lemma utc_us_diff: "utc_us s - utc_us t = local_us s - local_us t - (dt_off s - dt_off t)"
  by (simp add: utc_us_def)

lemma kst_tod_less: "kst_tod u < 86400000000"
proof -
  have "(u + kst_off) mod us_per_day < us_per_day" by simp
  then show ?thesis by (simp add: kst_tod_def nat_less_iff)
qed

lemma weekday_range: "0 \<le> weekday d \<and> weekday d \<le> 6"
proof -
  have "0 \<le> (toordinal d + 6) mod 7 \<and> (toordinal d + 6) mod 7 < 7" by simp
  then show ?thesis unfolding weekday_def by linarith
qed

end
