(* ===== verification/Contracts.thy ===== *)
theory Contracts
  imports Errors PyTime
begin

text \<open>
  The domain types of \<open>src/execution/contracts.py\<close>: enumerations with their wire values, the
  frozen data classes as records, the order state machine (\<open>ALLOWED_TRANSITIONS\<close>,
  \<open>transition\<close>) and the mapping of a broker row to an order status (\<open>derive_status\<close>).
\<close>

datatype side = BUY | SELL
datatype order_type = LIMIT | MARKET
datatype order_status =
    PENDING_SUBMIT | ACCEPTED | PARTIALLY_FILLED | FILLED | CANCELLED | REJECTED | UNKNOWN
datatype outcome_kind = OUT_ACCEPTED | OUT_REJECTED | OUT_UNKNOWN
datatype execution_mode = PAPER | MOCK | LIVE

fun side_value :: "side \<Rightarrow> string" where
  "side_value BUY = ''buy''"
| "side_value SELL = ''sell''"

fun order_type_value :: "order_type \<Rightarrow> string" where
  "order_type_value LIMIT = ''limit''"
| "order_type_value MARKET = ''market''"

fun order_status_value :: "order_status \<Rightarrow> string" where
  "order_status_value PENDING_SUBMIT = ''pending_submit''"
| "order_status_value ACCEPTED = ''accepted''"
| "order_status_value PARTIALLY_FILLED = ''partially_filled''"
| "order_status_value FILLED = ''filled''"
| "order_status_value CANCELLED = ''cancelled''"
| "order_status_value REJECTED = ''rejected''"
| "order_status_value UNKNOWN = ''unknown''"

fun outcome_kind_value :: "outcome_kind \<Rightarrow> string" where
  "outcome_kind_value OUT_ACCEPTED = ''accepted''"
| "outcome_kind_value OUT_REJECTED = ''rejected''"
| "outcome_kind_value OUT_UNKNOWN = ''unknown''"

fun mode_value :: "execution_mode \<Rightarrow> string" where
  "mode_value PAPER = ''paper''"
| "mode_value MOCK = ''mock''"
| "mode_value LIVE = ''live''"

record order_intent =
  i_symbol :: string
  i_side :: side
  i_qty :: int
  i_order_type :: order_type
  i_limit_price :: "int option"
  i_tag :: string

record quote =
  q_symbol :: string
  q_last :: int
  q_upper_limit :: int
  q_lower_limit :: int
  q_tick :: int
  q_halted :: bool
  q_asks :: "(int \<times> int) list"
  q_bids :: "(int \<times> int) list"

record order =
  o_client_id :: string
  o_intent :: order_intent
  o_status :: order_status
  o_created_at :: datetime
  o_broker_order_no :: "string option"
  o_broker_org_no :: "string option"
  o_broker_order_time :: "string option"
  o_filled_qty :: int
  o_filled_amount_krw :: int
  o_reject_code :: "string option"
  o_reject_message :: "string option"

definition remaining_qty :: "order \<Rightarrow> int" where
  "remaining_qty ord = i_qty (o_intent ord) - o_filled_qty ord"

record broker_order_status =
  s_broker_order_no :: string
  s_original_order_no :: string
  s_org_no :: string
  s_symbol :: string
  s_side :: side
  s_ordered_qty :: int
  s_price :: int
  s_filled_qty :: int
  s_filled_amount_krw :: int
  s_remaining_qty :: int
  s_rejected_qty :: int
  s_cancelled :: bool
  s_order_time :: string

record broker_outcome =
  out_kind :: outcome_kind
  out_broker_order_no :: "string option"
  out_broker_org_no :: "string option"
  out_order_time :: "string option"
  out_code :: string
  out_message :: string

record holding =
  h_symbol :: string
  h_qty :: int
  h_cost_krw :: int

definition TERMINAL_STATUSES :: "order_status set" where
  "TERMINAL_STATUSES = {FILLED, CANCELLED, REJECTED}"

fun ALLOWED_TRANSITIONS :: "order_status \<Rightarrow> order_status set" where
  "ALLOWED_TRANSITIONS PENDING_SUBMIT = {ACCEPTED, REJECTED, UNKNOWN}"
| "ALLOWED_TRANSITIONS UNKNOWN = {ACCEPTED, PARTIALLY_FILLED, FILLED, CANCELLED, REJECTED}"
| "ALLOWED_TRANSITIONS ACCEPTED = {PARTIALLY_FILLED, FILLED, CANCELLED, REJECTED}"
| "ALLOWED_TRANSITIONS PARTIALLY_FILLED = {FILLED, CANCELLED}"
| "ALLOWED_TRANSITIONS FILLED = {}"
| "ALLOWED_TRANSITIONS CANCELLED = {}"
| "ALLOWED_TRANSITIONS REJECTED = {}"

definition transition :: "order_status \<Rightarrow> order_status \<Rightarrow> order_status result" where
  "transition current new =
     (if new = current then Inr current
      else if new \<in> ALLOWED_TRANSITIONS current then Inr new
      else Inl (IllegalTransitionError (order_status_value current @ ''->'' @ order_status_value new)))"

definition derive_status :: "broker_order_status \<Rightarrow> bool \<Rightarrow> order_status result" where
  "derive_status st has_cancel_child =
     (if s_filled_qty st < 0 \<or> s_filled_qty st > s_ordered_qty st
      then Inl (BrokerIntegrityError (''invalid cumulative fill: '' @ show_int (s_filled_qty st) @ ''/'' @ show_int (s_ordered_qty st)))
      else if s_filled_qty st = s_ordered_qty st then Inr FILLED
      else let cancel_evidence = s_cancelled st \<or> has_cancel_child in
        if cancel_evidence \<or> s_rejected_qty st > 0 \<or> s_remaining_qty st = 0
        then (if s_filled_qty st = 0 \<and> s_rejected_qty st > 0 \<and> \<not> cancel_evidence
              then Inr REJECTED else Inr CANCELLED)
        else if s_filled_qty st > 0 then Inr PARTIALLY_FILLED
        else Inr ACCEPTED)"

section \<open>The state machine\<close>

text \<open>
  One status change of an order, as \<open>transition\<close> performs it, and the statuses an order can
  go through.
\<close>

inductive status_step :: "order_status \<Rightarrow> order_status \<Rightarrow> bool" where
  "transition a b = Inr b \<Longrightarrow> a \<noteq> b \<Longrightarrow> status_step a b"

inductive_simps status_step_simps: "status_step a b"

lemma status_step_iff: "status_step a b \<longleftrightarrow> b \<in> ALLOWED_TRANSITIONS a"
  by (cases a) (auto simp: status_step_simps transition_def)

lemma transition_Inr_iff: "transition a b = Inr c \<longleftrightarrow> c = b \<and> (b = a \<or> b \<in> ALLOWED_TRANSITIONS a)"
  by (auto simp: transition_def)

lemma transition_self [simp]: "transition a a = Inr a"
  by (simp add: transition_def)

lemma terminal_stuck: "a \<in> TERMINAL_STATUSES \<Longrightarrow> ALLOWED_TRANSITIONS a = {}"
  by (auto simp: TERMINAL_STATUSES_def)

lemma terminal_transition: "a \<in> TERMINAL_STATUSES \<Longrightarrow> transition a b = Inr c \<Longrightarrow> c = a"
  by (auto simp: transition_Inr_iff terminal_stuck)

lemma non_terminal_has_step: "a \<notin> TERMINAL_STATUSES \<Longrightarrow> \<exists>b. status_step a b"
  by (cases a) (auto simp: status_step_iff TERMINAL_STATUSES_def)

text \<open>Every change climbs a finite ladder, so an order changes status at most four times.\<close>

fun status_rank :: "order_status \<Rightarrow> nat" where
  "status_rank PENDING_SUBMIT = 0"
| "status_rank UNKNOWN = 1"
| "status_rank ACCEPTED = 2"
| "status_rank PARTIALLY_FILLED = 3"
| "status_rank FILLED = 4"
| "status_rank CANCELLED = 4"
| "status_rank REJECTED = 4"

lemma status_step_rank: "status_step a b \<Longrightarrow> status_rank a < status_rank b"
  by (cases a) (auto simp: status_step_iff)

lemma status_rank_le: "status_rank a \<le> 4"
  by (cases a) auto

fun status_path :: "order_status \<Rightarrow> order_status list \<Rightarrow> bool" where
  "status_path a [] = True"
| "status_path a (b # bs) = (status_step a b \<and> status_path b bs)"

lemma status_path_length: "status_path a bs \<Longrightarrow> status_rank a + length bs \<le> 4"
proof (induction bs arbitrary: a)
  case Nil
  then show ?case using status_rank_le by simp
next
  case (Cons b bs)
  then have "status_rank b + length bs \<le> 4" and "status_rank a < status_rank b"
    by (auto dest: status_step_rank)
  then show ?case by simp
qed

section \<open>Reading a broker row\<close>

lemma derive_status_cases:
  assumes "derive_status st child = Inr new"
  shows "0 \<le> s_filled_qty st \<and> s_filled_qty st \<le> s_ordered_qty st \<and> new \<noteq> PENDING_SUBMIT \<and> new \<noteq> UNKNOWN"
  using assms by (auto simp: derive_status_def Let_def split: if_splits)

lemma derive_status_filled_iff:
  "derive_status st child = Inr FILLED \<longleftrightarrow> 0 \<le> s_filled_qty st \<and> s_filled_qty st = s_ordered_qty st"
  by (auto simp: derive_status_def Let_def)

lemma derive_status_rejected_imp: "derive_status st child = Inr REJECTED \<Longrightarrow> s_filled_qty st = 0"
  by (auto simp: derive_status_def Let_def split: if_splits)

lemma derive_status_open_imp:
  "derive_status st child = Inr new \<Longrightarrow> new \<in> {ACCEPTED, PARTIALLY_FILLED} \<Longrightarrow>
     s_filled_qty st < s_ordered_qty st \<and> s_remaining_qty st \<noteq> 0 \<and> \<not> s_cancelled st \<and> \<not> child"
  by (auto simp: derive_status_def Let_def split: if_splits)

section \<open>The life of an order\<close>

text \<open>
  An order changes its status at most four times, and not at all once it is filled, cancelled or
  rejected: every sequence of changes \<open>transition\<close> allows is that short.
\<close>

theorem status_changes_bounded:
  assumes "status_path a bs"
  shows "length bs \<le> 4 \<and> (a \<in> TERMINAL_STATUSES \<longrightarrow> bs = [])"
proof -
  have "a \<in> TERMINAL_STATUSES \<longrightarrow> status_rank a = 4" by (auto simp: TERMINAL_STATUSES_def)
  with status_path_length [OF assms] show ?thesis by auto
qed

theorem status_changes_bounded_witness:
  "status_path PENDING_SUBMIT [UNKNOWN, ACCEPTED, PARTIALLY_FILLED, FILLED] \<and> length [UNKNOWN, ACCEPTED, PARTIALLY_FILLED, FILLED] \<le> 4"
proof -
  have p: "status_path PENDING_SUBMIT [UNKNOWN, ACCEPTED, PARTIALLY_FILLED, FILLED]" by (simp add: status_step_iff)
  from status_changes_bounded [OF p] p show ?thesis by blast
qed

end
