(* ===== verification/Json.thy ===== *)
theory Json
  imports Prelude
begin

text \<open>
  JSON documents as \<open>json.loads\<close> returns them: objects keep the order of their keys. A
  journal line, a REST body and a persisted record are values of this type; a missing key
  of \<open>dict.get\<close> reads as \<open>JNull\<close>, which is Python's \<open>None\<close>.
\<close>

datatype json =
    JNull
  | JBool bool
  | JInt int
  | JFloat rat
  | JStr string
  | JList "json list"
  | JObj "(string \<times> json) list"

type_synonym jobj = "(string \<times> json) list"

definition jget :: "jobj \<Rightarrow> string \<Rightarrow> json" where
  "jget ob k = (case map_of ob k of None \<Rightarrow> JNull | Some v \<Rightarrow> v)"

definition has_key :: "jobj \<Rightarrow> string \<Rightarrow> bool" where
  "has_key ob k \<longleftrightarrow> map_of ob k \<noteq> None"

definition jopt_str :: "string option \<Rightarrow> json" where
  "jopt_str x = (case x of None \<Rightarrow> JNull | Some s \<Rightarrow> JStr s)"

definition jopt_int :: "int option \<Rightarrow> json" where
  "jopt_int x = (case x of None \<Rightarrow> JNull | Some i \<Rightarrow> JInt i)"

section \<open>Reading JSON values the way Python does\<close>

text \<open>
  \<open>str\<close> of a value. The sources apply it to scalars; the text of a float or of a container is
  compared with code words only, which it never equals, and is not rendered here.
\<close>

fun py_str :: "json \<Rightarrow> string" where
  "py_str (JStr s) = s"
| "py_str (JInt i) = show_int i"
| "py_str JNull = ''None''"
| "py_str (JBool b) = (if b then ''True'' else ''False'')"
| "py_str (JFloat _) = ''<float>''"
| "py_str (JList _) = ''<list>''"
| "py_str (JObj _) = ''<dict>''"

fun truthy :: "json \<Rightarrow> bool" where
  "truthy JNull = False"
| "truthy (JBool b) = b"
| "truthy (JInt i) = (i \<noteq> 0)"
| "truthy (JFloat x) = (x \<noteq> 0)"
| "truthy (JStr s) = (s \<noteq> [])"
| "truthy (JList vs) = (vs \<noteq> [])"
| "truthy (JObj kvs) = (kvs \<noteq> [])"

text \<open>\<open>d.get(k, default)\<close> followed by \<open>str\<close>.\<close>

definition str_get :: "jobj \<Rightarrow> string \<Rightarrow> string \<Rightarrow> string" where
  "str_get ob k dflt = (case map_of ob k of None \<Rightarrow> dflt | Some v \<Rightarrow> py_str v)"

definition is_space :: "char \<Rightarrow> bool" where
  "is_space c \<longleftrightarrow> (of_char c :: nat) \<in> {9, 10, 11, 12, 13, 28, 29, 30, 31, 32}"

definition strip :: "string \<Rightarrow> string" where
  "strip s = rev (dropWhile is_space (rev (dropWhile is_space s)))"

text \<open>
  \<open>Decimal(text)\<close> for finite numerals: sign, digits with an optional point, optional exponent.
  Anything else (also \<open>NaN\<close> and \<open>Infinity\<close>, which the callers reject) is \<open>None\<close>.
\<close>

definition split_sign :: "string \<Rightarrow> bool \<times> string" where
  "split_sign s = (case s of [] \<Rightarrow> (False, []) | c # r \<Rightarrow>
     if c = CHR ''-'' then (True, r) else if c = CHR ''+'' then (False, r) else (False, s))"

definition digits_of :: "string \<Rightarrow> string \<times> string" where
  "digits_of s = (takeWhile is_digit s, dropWhile is_digit s)"

definition parse_exp :: "string \<Rightarrow> int option" where
  "parse_exp s = (case s of [] \<Rightarrow> Some 0 | c # r \<Rightarrow>
     if c = CHR ''e'' \<or> c = CHR ''E'' then
       (let (neg, t) = split_sign r; (ds, rest) = digits_of t in
        if ds = [] \<or> rest \<noteq> [] then None else Some (if neg then - int (parse_nat ds) else int (parse_nat ds)))
     else None)"

definition parse_decimal :: "string \<Rightarrow> rat option" where
  "parse_decimal s =
     (let (neg, t) = split_sign s;
          (ip, r) = digits_of t;
          (fp, r') = (case r of c # r1 \<Rightarrow> if c = CHR ''.'' then digits_of r1 else ([], r) | [] \<Rightarrow> ([], []))
      in if ip @ fp = [] then None
         else case parse_exp r' of None \<Rightarrow> None
           | Some e \<Rightarrow> let v = of_nat (parse_nat (ip @ fp)) * 10 powi (e - int (length fp))
                       in Some (if neg then - v else v))"

definition rat_to_int :: "rat \<Rightarrow> int option" where
  "rat_to_int x = (if of_int \<lfloor>x\<rfloor> = x then Some \<lfloor>x\<rfloor> else None)"

lemma jget_Nil [simp]: "jget [] k = JNull"
  by (simp add: jget_def)

lemma jget_Cons [simp]: "jget ((k', v) # ob) k = (if k = k' then v else jget ob k)"
  by (simp add: jget_def)

lemma has_key_Nil [simp]: "\<not> has_key [] k"
  by (simp add: has_key_def)

lemma has_key_Cons [simp]: "has_key ((k', v) # ob) k \<longleftrightarrow> k = k' \<or> has_key ob k"
  by (simp add: has_key_def)

lemma takeWhile_digits: "list_all is_digit s \<Longrightarrow> takeWhile is_digit s = s"
  and dropWhile_digits: "list_all is_digit s \<Longrightarrow> dropWhile is_digit s = []"
  by (auto simp: list_all_iff takeWhile_eq_all_conv dropWhile_eq_Nil_conv)

lemma split_sign_show_nat: "split_sign (show_nat n) = (False, show_nat n)"
proof -
  obtain c r where s: "show_nat n = c # r" by (cases "show_nat n") auto
  with show_nat_digits [of n] have "is_digit c" by simp
  then have "c \<noteq> CHR ''-''" "c \<noteq> CHR ''+''" by (auto simp: is_digit_def)
  with s show ?thesis by (simp add: split_sign_def)
qed

lemma parse_decimal_show_int: "parse_decimal (show_int i) = Some (of_int i)"
proof -
  have d: "digits_of (show_nat n) = (show_nat n, [])" for n
    by (simp add: digits_of_def takeWhile_digits dropWhile_digits show_nat_digits)
  show ?thesis
    by (auto simp: parse_decimal_def show_int_def split_sign_show_nat d parse_exp_def)
      (simp add: split_sign_def d parse_exp_def)
qed

lemma rat_to_int_of_int [simp]: "rat_to_int (of_int i) = Some i"
  by (simp add: rat_to_int_def)

lemma rat_to_int_Some: "rat_to_int x = Some i \<longleftrightarrow> x = of_int i"
  by (auto simp: rat_to_int_def)

lemma strip_digits: "list_all is_digit s \<Longrightarrow> strip s = s"
proof -
  assume "list_all is_digit s"
  then have "list_all (\<lambda>c. \<not> is_space c) s"
    by (auto simp: list_all_iff is_digit_def is_space_def)
  moreover have dw: "list_all (\<lambda>c. \<not> P c) t \<Longrightarrow> dropWhile P t = t" for P :: "char \<Rightarrow> bool" and t
    by (cases t) auto
  ultimately show ?thesis by (simp add: strip_def)
qed

lemma strip_show_int [simp]: "strip (show_int i) = show_int i"
proof -
  have dw: "list_all (\<lambda>c. \<not> P c) t \<Longrightarrow> dropWhile P t = t" for P :: "char \<Rightarrow> bool" and t
    by (cases t) auto
  have "list_all (\<lambda>c. \<not> is_space c) (show_int i)"
    using show_nat_digits [of "nat \<bar>i\<bar>"]
    by (auto simp: show_int_def list_all_iff is_digit_def is_space_def abs_if split: if_splits)
  then show ?thesis by (simp add: strip_def dw)
qed

end
