(* ===== verification/Kis_Http.thy ===== *)
theory Kis_Http
  imports Contracts Json
begin

text \<open>
  The safe GET transport of \<open>src/brokers/kis/http.py\<close>. The network and the token provider are
  parameters: what the \<open>n\<close>-th request of a call meets is a field of \<open>get_env\<close>, read at \<open>n\<close>.
  Pacing (\<open>limiter.acquire\<close>) and back-off only delay a request.
\<close>

datatype kis_retry_decision = RETRY_RATE_LIMITED | RETRY_AFTER_TOKEN_REFRESH | FINAL

definition RATE_LIMIT_CODES :: "string set" where
  "RATE_LIMIT_CODES = {''EGW00201'', ''EGW00215''}"

definition EXPIRED_TOKEN_CODES :: "string set" where
  "EXPIRED_TOKEN_CODES = {''EGW00121'', ''EGW00123''}"

definition MAX_SAFE_RETRIES :: nat where "MAX_SAFE_RETRIES = 2"
definition MAX_TRANSPORT_RETRIES :: nat where "MAX_TRANSPORT_RETRIES = 2"
definition MAX_PAGES :: nat where "MAX_PAGES = 100"

definition classify_kis_retry :: "string \<Rightarrow> nat \<Rightarrow> bool \<Rightarrow> kis_retry_decision" where
  "classify_kis_retry msg_cd retries refreshed =
     (if msg_cd \<in> RATE_LIMIT_CODES \<and> retries < MAX_SAFE_RETRIES then RETRY_RATE_LIMITED
      else if msg_cd \<in> EXPIRED_TOKEN_CODES \<and> \<not> refreshed then RETRY_AFTER_TOKEN_REFRESH
      else FINAL)"

text \<open>
  What one GET meets: a connection error or timeout, another request error or a body that is
  not JSON (both by exception name), a JSON body that is no object, or an object with its
  \<open>tr_cont\<close> header. Signing the headers
  may fail in the token provider (a request error or \<open>ValueError\<close> by name, or any other
  exception of its own).
\<close>

datatype get_reply = GetRetryable string | GetFailed string | GetNotObject | GetBody jobj string
datatype auth_reply = AuthOk | AuthWrapped string | AuthRaised exn

record get_env =
  ge_auth :: "nat \<Rightarrow> auth_reply"
  ge_reply :: "nat \<Rightarrow> get_reply"
  ge_refresh :: "nat \<Rightarrow> unit result"

function get_loop :: "get_env \<Rightarrow> nat \<Rightarrow> bool \<Rightarrow> nat \<Rightarrow> nat \<Rightarrow> (jobj \<times> string) result \<times> nat" where
  "get_loop env n refreshed retries transport_retries =
     (case ge_auth env n of
        AuthRaised e \<Rightarrow> (Inl e, n)
      | AuthWrapped name \<Rightarrow> (Inl (KisApiError ''TRANSPORT'' name), n)
      | AuthOk \<Rightarrow>
        (case ge_reply env n of
           GetRetryable name \<Rightarrow>
             if transport_retries < MAX_TRANSPORT_RETRIES
             then get_loop env (Suc n) refreshed retries (Suc transport_retries)
             else (Inl (KisApiError ''TRANSPORT'' name), Suc n)
         | GetFailed name \<Rightarrow> (Inl (KisApiError ''TRANSPORT'' name), Suc n)
         | GetNotObject \<Rightarrow> (Inl (AttributeError ''body.get''), Suc n)
         | GetBody body cont \<Rightarrow>
             (let msg_cd = str_get body ''msg_cd'' [] in
              case classify_kis_retry msg_cd retries refreshed of
                RETRY_RATE_LIMITED \<Rightarrow> get_loop env (Suc n) refreshed (Suc retries) transport_retries
              | RETRY_AFTER_TOKEN_REFRESH \<Rightarrow>
                  (case ge_refresh env n of
                     Inl e \<Rightarrow> (Inl e, Suc n)
                   | Inr _ \<Rightarrow> get_loop env (Suc n) True retries transport_retries)
              | FINAL \<Rightarrow>
                  if jget body ''rt_cd'' \<noteq> JStr ''0''
                  then (Inl (KisApiError msg_cd (strip (str_get body ''msg1'' []))), Suc n)
                  else (Inr (body, cont), Suc n))))"
  by pat_completeness auto
termination
proof (relation "measure (\<lambda>(env, n, refreshed, retries, tr).
    (MAX_SAFE_RETRIES - retries) + (MAX_TRANSPORT_RETRIES - tr) + (if refreshed then 0 else 1))", goal_cases)
  case 1
  then show ?case by simp
qed (auto simp: classify_kis_retry_def split: if_splits)

declare get_loop.simps [simp del]

definition kis_get :: "get_env \<Rightarrow> (jobj \<times> string) result \<times> nat" where
  "kis_get env = get_loop env 0 False 0 0"

text \<open>
  \<open>get_paged\<close>: one \<open>get_env\<close> per page; a page asks for the next one by its \<open>tr_cont\<close> header.
\<close>

text \<open>\<open>rows.extend(body.get(list_key) or [])\<close>: extending by a text or an object adds its characters or keys.\<close>

definition page_rows :: "jobj \<Rightarrow> json list result" where
  "page_rows body = (case jget body ''output1'' of
       JList vs \<Rightarrow> Inr vs
     | JObj kvs \<Rightarrow> Inr (map (\<lambda>(k, v). JStr k) kvs)
     | JStr s \<Rightarrow> Inr (map (\<lambda>c. JStr [c]) s)
     | v \<Rightarrow> if truthy v then Inl (TypeError ''object is not iterable'') else Inr [])"

fun get_pages :: "(nat \<Rightarrow> get_env) \<Rightarrow> nat \<Rightarrow> nat \<Rightarrow> json list \<Rightarrow> json list result" where
  "get_pages env page 0 rows =
     Inl (KisApiError ''PAGINATION'' (''exceeded '' @ show_nat MAX_PAGES @ '' pages''))"
| "get_pages env page (Suc left) rows =
     rbind (fst (kis_get (env page))) (\<lambda>(body, cont).
     rbind (page_rows body) (\<lambda>more.
       if cont \<noteq> ''M'' \<and> cont \<noteq> ''F'' then Inr (rows @ more)
       else get_pages env (Suc page) left (rows @ more)))"

definition get_paged :: "(nat \<Rightarrow> get_env) \<Rightarrow> json list result" where
  "get_paged env = get_pages env 0 MAX_PAGES []"

section \<open>Bounded retries\<close>

lemma get_loop_requests:
  "snd (get_loop env n refreshed retries tr)
     \<le> n + 1 + (MAX_SAFE_RETRIES - retries) + (MAX_TRANSPORT_RETRIES - tr) + (if refreshed then 0 else 1)"
proof (induction env n refreshed retries tr rule: get_loop.induct)
  case (1 env n refreshed retries tr)
  show ?case
  proof (cases "ge_auth env n")
    case AuthOk
    note IH = "1.IH"(1) [OF AuthOk] "1.IH"(2) [OF AuthOk _ refl] "1.IH"(3) [OF AuthOk _ refl]
    show ?thesis
    proof (cases "ge_reply env n")
      case (GetRetryable x1)
      with AuthOk IH(1) [OF GetRetryable] show ?thesis
        by (auto simp: get_loop.simps [of env n refreshed retries tr])
    next
      case (GetFailed x2)
      with AuthOk show ?thesis by (simp add: get_loop.simps [of env n refreshed retries tr])
    next
      case GetNotObject
      with AuthOk show ?thesis by (simp add: get_loop.simps [of env n refreshed retries tr])
    next
      case (GetBody body cont)
      with AuthOk IH(2) [OF GetBody] IH(3) [OF GetBody] show ?thesis
        by (auto simp: get_loop.simps [of env n refreshed retries tr] Let_def classify_kis_retry_def
            split: sum.splits if_splits)
    qed
  qed (simp_all add: get_loop.simps [of env n refreshed retries tr])
qed

lemma kis_get_requests: "snd (kis_get env) \<le> 6"
  using get_loop_requests [of env 0 False 0 0]
  by (simp add: kis_get_def MAX_SAFE_RETRIES_def MAX_TRANSPORT_RETRIES_def)

lemma get_pages_success_rows:
  assumes "\<And>k. k < m \<Longrightarrow> \<exists>body. fst (kis_get (env (page + k))) = Inr (body, ''M'') \<and> page_rows body = Inr (pages k)"
    and "\<exists>body. fst (kis_get (env (page + m))) = Inr (body, []) \<and> page_rows body = Inr (pages m)"
    and "m < left"
  shows "get_pages env page left rows = Inr (rows @ concat (map pages [0..<Suc m]))"
  using assms
proof (induction m arbitrary: page left rows pages)
  case 0
  then show ?case by (cases left) auto
next
  case (Suc m)
  then obtain l where l: "left = Suc l" "m < l" by (cases left) auto
  obtain body where b: "fst (kis_get (env page)) = Inr (body, ''M'')" "page_rows body = Inr (pages 0)"
    using Suc.prems(1) [of 0] by auto
  have "get_pages env (Suc page) l (rows @ pages 0) = Inr ((rows @ pages 0) @ concat (map (\<lambda>k. pages (Suc k)) [0..<Suc m]))"
    using Suc.prems(1) [of "Suc _"] Suc.prems(2) l(2)
    by (intro Suc.IH) auto
  moreover have "concat (map pages [0..<Suc (Suc m)]) = pages 0 @ concat (map (\<lambda>k. pages (Suc k)) [0..<Suc m])"
    by (simp add: upt_conv_Cons map_Suc_upt [symmetric] comp_def del: upt_Suc)
  ultimately show ?case using b l by simp
qed

text \<open>
  A read request to the broker makes at most six HTTP requests, whatever answers come back.
\<close>

theorem get_requests_bounded: "snd (kis_get env) \<le> 6"
  by (rule kis_get_requests)

end
