(* ===== verification/Kis_Trading.thy ===== *)
theory Kis_Trading
  imports Kis_Http
begin

text \<open>
  The account and order endpoints of \<open>src/brokers/kis/trading.py\<close>: request bodies, the reading
  of broker rows, and the submission loop \<open>post_order\<close>. What the \<open>n\<close>-th POST meets is read from
  \<open>post_env\<close> at \<open>n\<close>; a body that is not a JSON object is outside the model.
\<close>

datatype kis_venue = VENUE_LIVE | VENUE_MOCK

record kis_credentials =
  kis_account_no :: string
  kis_account_product_code :: string

definition KIS_LIVE_BASE_URL :: string where
  "KIS_LIVE_BASE_URL = ''https://openapi.koreainvestment.com:9443''"
definition KIS_MOCK_BASE_URL :: string where
  "KIS_MOCK_BASE_URL = ''https://openapivts.koreainvestment.com:29443''"

definition TR_BUY :: string where "TR_BUY = ''TTTC0012U''"
definition TR_SELL :: string where "TR_SELL = ''TTTC0011U''"
definition TR_CANCEL :: string where "TR_CANCEL = ''TTTC0013U''"

definition venue_base_url :: "kis_venue \<Rightarrow> string" where
  "venue_base_url v = (if v = VENUE_MOCK then KIS_MOCK_BASE_URL else KIS_LIVE_BASE_URL)"

definition wire_tr_id :: "kis_venue \<Rightarrow> string \<Rightarrow> string result" where
  "wire_tr_id venue canonical_tr_id =
     (if venue = VENUE_LIVE then Inr canonical_tr_id
      else if canonical_tr_id = [] \<or> take 4 canonical_tr_id \<noteq> ''TTTC''
      then Inl (ValueError (''unmappable TR id for mock venue: '' @ canonical_tr_id))
      else Inr (''V'' @ drop 1 canonical_tr_id))"

fun ORD_DVSN :: "order_type \<Rightarrow> string" where
  "ORD_DVSN LIMIT = ''00''"
| "ORD_DVSN MARKET = ''01''"

definition order_tr_id :: "side \<Rightarrow> string" where
  "order_tr_id sd = (if sd = BUY then TR_BUY else TR_SELL)"

definition show_opt_int :: "int option \<Rightarrow> string" where
  "show_opt_int x = (case x of None \<Rightarrow> ''None'' | Some i \<Rightarrow> show_int i)"

definition build_order_body :: "kis_credentials \<Rightarrow> order \<Rightarrow> (string, string) dict" where
  "build_order_body creds ord = (let intent = o_intent ord in
     [(''CANO'', kis_account_no creds),
      (''ACNT_PRDT_CD'', kis_account_product_code creds),
      (''PDNO'', i_symbol intent),
      (''ORD_DVSN'', ORD_DVSN (i_order_type intent)),
      (''ORD_QTY'', show_int (i_qty intent)),
      (''ORD_UNPR'', if i_order_type intent = LIMIT then show_opt_int (i_limit_price intent) else ''0''),
      (''EXCG_ID_DVSN_CD'', ''KRX''),
      (''SLL_TYPE'', if i_side intent = SELL then ''01'' else []),
      (''CNDT_PRIC'', [])])"

definition build_cancel_body :: "kis_credentials \<Rightarrow> order \<Rightarrow> (string, string) dict result" where
  "build_cancel_body creds ord =
     (case (o_broker_order_no ord, o_broker_org_no ord) of
        (Some no, Some org) \<Rightarrow> Inr
          [(''CANO'', kis_account_no creds),
           (''ACNT_PRDT_CD'', kis_account_product_code creds),
           (''KRX_FWDG_ORD_ORGNO'', org),
           (''ORGN_ODNO'', no),
           (''ORD_DVSN'', ORD_DVSN (i_order_type (o_intent ord))),
           (''RVSE_CNCL_DVSN_CD'', ''02''),
           (''ORD_QTY'', ''0''),
           (''ORD_UNPR'', ''0''),
           (''QTY_ALL_ORD_YN'', ''Y''),
           (''EXCG_ID_DVSN_CD'', ''KRX'')]
      | _ \<Rightarrow> Inl (ExecutionError ''cancel requires broker order and org numbers''))"

section \<open>Reading broker rows\<close>

definition schema_error :: "string \<Rightarrow> string \<Rightarrow> exn" where
  "schema_error endpoint field = KisApiError ''SCHEMA'' (endpoint @ '' missing/invalid '' @ field)"

fun decimal_of :: "json \<Rightarrow> rat option" where
  "decimal_of (JStr s) = parse_decimal (strip s)"
| "decimal_of (JInt i) = Some (of_int i)"
| "decimal_of (JFloat x) = Some x"
| "decimal_of _ = None"

fun blank_text :: "json \<Rightarrow> bool" where
  "blank_text (JStr s) = (strip s = [])"
| "blank_text _ = False"

definition strict_int :: "jobj \<Rightarrow> string \<Rightarrow> string \<Rightarrow> int result" where
  "strict_int row field endpoint =
     (case jget row field of
        JNull \<Rightarrow> Inl (schema_error endpoint field)
      | raw \<Rightarrow>
          if blank_text raw then Inr 0
          else case decimal_of raw of
                 None \<Rightarrow> Inl (schema_error endpoint field)
               | Some v \<Rightarrow> (case rat_to_int v of None \<Rightarrow> Inl (schema_error endpoint field) | Some i \<Rightarrow> Inr i))"

definition original_order_no :: "jobj \<Rightarrow> string" where
  "original_order_no row = (let raw = strip (str_get row ''orgn_odno'' []) in
     if list_all (\<lambda>c. c = CHR ''0'') raw then [] else raw)"

text \<open>The first field of the list a row lacks, as the guard of each endpoint reports it.\<close>

definition first_missing :: "jobj \<Rightarrow> string list \<Rightarrow> string option" where
  "first_missing row fs = find (\<lambda>f. jget row f = JNull) fs"

definition parse_holding_row :: "json \<Rightarrow> holding option result" where
  "parse_holding_row row = (case row of
       JObj r \<Rightarrow>
         (case first_missing r [''pdno'', ''hldg_qty'', ''pchs_amt''] of
            Some f \<Rightarrow> Inl (schema_error ''inquire-balance'' f)
          | None \<Rightarrow>
              rbind (strict_int r ''hldg_qty'' ''inquire-balance'') (\<lambda>qty.
              rbind (strict_int r ''pchs_amt'' ''inquire-balance'') (\<lambda>cost.
                Inr (if qty > 0 then Some \<lparr>h_symbol = str_get r ''pdno'' [], h_qty = qty, h_cost_krw = cost\<rparr> else None))))
     | _ \<Rightarrow> Inl (schema_error ''inquire-balance'' ''pdno''))"

definition get_holdings :: "(nat \<Rightarrow> get_env) \<Rightarrow> holding list result" where
  "get_holdings env = rbind (get_paged env) (\<lambda>rows.
     rbind (rmap parse_holding_row rows) (\<lambda>hs. Inr (List.map_filter id hs)))"

definition get_orderable_cash :: "get_env \<Rightarrow> int result" where
  "get_orderable_cash env = rbind (fst (kis_get env)) (\<lambda>(body, _).
     case jget body ''output'' of
       JObj output \<Rightarrow>
         (if jget output ''nrcvb_buy_amt'' = JNull then Inl (schema_error ''inquire-psbl-order'' ''nrcvb_buy_amt'')
          else strict_int output ''nrcvb_buy_amt'' ''inquire-psbl-order'')
     | _ \<Rightarrow> Inl (schema_error ''inquire-psbl-order'' ''nrcvb_buy_amt''))"

definition DAILY_FIELDS :: "string list" where
  "DAILY_FIELDS = [''odno'', ''orgn_odno'', ''ord_gno_brno'', ''pdno'', ''sll_buy_dvsn_cd'', ''ord_qty'', ''ord_unpr'',
     ''tot_ccld_qty'', ''tot_ccld_amt'', ''rmn_qty'', ''rjct_qty'', ''cncl_yn'', ''ord_tmd'']"

definition parse_status_row :: "json \<Rightarrow> broker_order_status result" where
  "parse_status_row row = (case row of
       JObj r \<Rightarrow>
         (let ep = ''inquire-daily-ccld''; dvsn = str_get r ''sll_buy_dvsn_cd'' [] in
          case first_missing r DAILY_FIELDS of
            Some f \<Rightarrow> Inl (schema_error ep f)
          | None \<Rightarrow>
              if strip (str_get r ''odno'' []) = [] then Inl (schema_error ep ''odno'')
              else if dvsn \<noteq> ''01'' \<and> dvsn \<noteq> ''02'' then Inl (schema_error ep ''sll_buy_dvsn_cd'')
              else rbind (strict_int r ''ord_qty'' ep) (\<lambda>ordered.
                   rbind (strict_int r ''ord_unpr'' ep) (\<lambda>price.
                   rbind (strict_int r ''tot_ccld_qty'' ep) (\<lambda>filled.
                   rbind (strict_int r ''tot_ccld_amt'' ep) (\<lambda>amount.
                   rbind (strict_int r ''rmn_qty'' ep) (\<lambda>rmn.
                   rbind (strict_int r ''rjct_qty'' ep) (\<lambda>rjct.
                     Inr \<lparr>s_broker_order_no = str_get r ''odno'' [],
                          s_original_order_no = original_order_no r,
                          s_org_no = str_get r ''ord_gno_brno'' [],
                          s_symbol = str_get r ''pdno'' [],
                          s_side = (if dvsn = ''01'' then SELL else BUY),
                          s_ordered_qty = ordered, s_price = price, s_filled_qty = filled,
                          s_filled_amount_krw = amount, s_remaining_qty = rmn, s_rejected_qty = rjct,
                          s_cancelled = (str_get r ''cncl_yn'' ''N'' = ''Y''),
                          s_order_time = str_get r ''ord_tmd'' []\<rparr>)))))))
     | _ \<Rightarrow> Inl (schema_error ''inquire-daily-ccld'' ''odno''))"

definition get_daily_orders :: "(nat \<Rightarrow> get_env) \<Rightarrow> broker_order_status list result" where
  "get_daily_orders env = rbind (get_paged env) (rmap parse_status_row)"

section \<open>Submitting an order\<close>

datatype post_reply = ConnectTimeout | RequestException string | NonJson nat | PostNotObject | PostBody jobj

record post_env =
  pe_auth :: "nat \<Rightarrow> unit result"
  pe_reply :: "nat \<Rightarrow> post_reply"
  pe_refresh :: "nat \<Rightarrow> unit result"

definition outcome :: "outcome_kind \<Rightarrow> string \<Rightarrow> string \<Rightarrow> broker_outcome" where
  "outcome k c m = \<lparr>out_kind = k, out_broker_order_no = None, out_broker_org_no = None,
     out_order_time = None, out_code = c, out_message = m\<rparr>"

text \<open>The reading of a final response.\<close>

definition read_order_response :: "jobj \<Rightarrow> broker_outcome result" where
  "read_order_response data =
     (let msg_cd = str_get data ''msg_cd'' []; message = strip (str_get data ''msg1'' []) in
      if jget data ''rt_cd'' \<noteq> JStr ''0'' then Inr (outcome OUT_REJECTED msg_cd message)
      else let out = jget data ''output'' in
        if \<not> truthy out then Inr (outcome OUT_UNKNOWN ''no_odno'' message)
        else case out of
          JObj output \<Rightarrow>
            if \<not> truthy (jget output ''ODNO'') then Inr (outcome OUT_UNKNOWN ''no_odno'' message)
            else Inr \<lparr>out_kind = OUT_ACCEPTED,
                   out_broker_order_no = Some (py_str (jget output ''ODNO'')),
                   out_broker_org_no = Some (str_get output ''KRX_FWDG_ORD_ORGNO'' []),
                   out_order_time = Some (str_get output ''ORD_TMD'' []),
                   out_code = msg_cd, out_message = message\<rparr>
        | _ \<Rightarrow> Inl (AttributeError ''output.get''))"

function post_loop :: "post_env \<Rightarrow> nat \<Rightarrow> bool \<Rightarrow> nat \<Rightarrow> broker_outcome result \<times> nat" where
  "post_loop env n refreshed retries =
     (case pe_auth env n of
        Inl e \<Rightarrow> (Inl e, n)
      | Inr _ \<Rightarrow>
        (case pe_reply env n of
           ConnectTimeout \<Rightarrow>
             if retries < MAX_SAFE_RETRIES then post_loop env (Suc n) refreshed (Suc retries)
             else (Inr (outcome OUT_REJECTED ''connect_timeout'' ''not sent: connect timeout retries exhausted''), Suc n)
         | RequestException name \<Rightarrow> (Inr (outcome OUT_UNKNOWN ''transport'' name), Suc n)
         | NonJson status \<Rightarrow> (Inr (outcome OUT_UNKNOWN (''http_'' @ show_nat status) ''non_json_response''), Suc n)
         | PostNotObject \<Rightarrow> (Inl (AttributeError ''data.get''), Suc n)
         | PostBody data \<Rightarrow>
             (case classify_kis_retry (str_get data ''msg_cd'' []) retries refreshed of
                RETRY_RATE_LIMITED \<Rightarrow> post_loop env (Suc n) refreshed (Suc retries)
              | RETRY_AFTER_TOKEN_REFRESH \<Rightarrow>
                  (case pe_refresh env n of
                     Inl e \<Rightarrow> (Inl e, Suc n)
                   | Inr _ \<Rightarrow> post_loop env (Suc n) True retries)
              | FINAL \<Rightarrow> (read_order_response data, Suc n))))"
  by pat_completeness auto
termination
  by (relation "measure (\<lambda>(env, n, refreshed, retries). (MAX_SAFE_RETRIES - retries) + (if refreshed then 0 else 1))")
    (auto simp: classify_kis_retry_def split: if_splits)

declare post_loop.simps [simp del]

definition post_order :: "kis_venue \<Rightarrow> post_env \<Rightarrow> string \<Rightarrow> broker_outcome result \<times> nat" where
  "post_order venue env tr_id = (case wire_tr_id venue tr_id of
       Inl e \<Rightarrow> (Inl e, 0)
     | Inr _ \<Rightarrow> post_loop env 0 False 0)"

section \<open>What a submission guarantees\<close>

text \<open>
  Replies after which the broker provably has not executed the request: the connection was
  never made, the gateway refused it for its rate, or the token had expired.
\<close>

fun not_executed :: "post_reply \<Rightarrow> bool" where
  "not_executed ConnectTimeout = True"
| "not_executed (PostBody data) = (str_get data ''msg_cd'' [] \<in> RATE_LIMIT_CODES \<union> EXPIRED_TOKEN_CODES)"
| "not_executed _ = False"

lemma post_loop_posts: "snd (post_loop env n refreshed retries)
    \<le> n + 1 + (MAX_SAFE_RETRIES - retries) + (if refreshed then 0 else 1)"
proof (induction env n refreshed retries rule: post_loop.induct)
  case (1 env n refreshed retries)
  note unf = post_loop.simps [of env n refreshed retries]
  show ?case
  proof (cases "pe_auth env n")
    case (Inl e)
    then show ?thesis by (simp add: unf)
  next
    case (Inr u)
    show ?thesis
    proof (cases "pe_reply env n")
      case ConnectTimeout
      with Inr "1.IH"(1) [OF Inr ConnectTimeout] show ?thesis by (auto simp: unf)
    next
      case (PostBody data)
      with Inr "1.IH"(2) [OF Inr PostBody] "1.IH"(3) [OF Inr PostBody] show ?thesis
        by (auto simp: unf classify_kis_retry_def split: sum.splits if_splits)
    qed (use Inr in \<open>simp_all add: unf\<close>)
  qed
qed

lemma post_loop_ge: "n \<le> snd (post_loop env n refreshed retries)"
proof (induction env n refreshed retries rule: post_loop.induct)
  case (1 env n refreshed retries)
  note unf = post_loop.simps [of env n refreshed retries]
  show ?case
  proof (cases "pe_auth env n")
    case (Inl e)
    then show ?thesis by (simp add: unf)
  next
    case (Inr u)
    show ?thesis
    proof (cases "pe_reply env n")
      case ConnectTimeout
      with Inr "1.IH"(1) [OF Inr ConnectTimeout] show ?thesis by (auto simp: unf)
    next
      case (PostBody data)
      with Inr "1.IH"(2) [OF Inr PostBody] "1.IH"(3) [OF Inr PostBody] show ?thesis
        by (auto simp: unf split: sum.splits kis_retry_decision.splits)
    qed (use Inr in \<open>simp_all add: unf\<close>)
  qed
qed

lemma classify_retry_safe:
  "classify_kis_retry (str_get data ''msg_cd'' []) r b \<noteq> FINAL \<Longrightarrow> not_executed (PostBody data)"
  by (auto simp: classify_kis_retry_def split: if_splits)

lemma post_loop_retries_safe:
  "n \<le> k \<Longrightarrow> Suc k < snd (post_loop env n refreshed retries) \<Longrightarrow> not_executed (pe_reply env k)"
proof (induction env n refreshed retries rule: post_loop.induct)
  case (1 env n refreshed retries)
  note unf = post_loop.simps [of env n refreshed retries]
  show ?case
  proof (cases "pe_auth env n")
    case (Inl e)
    with "1.prems" show ?thesis by (simp add: unf)
  next
    case (Inr u)
    show ?thesis
    proof (cases "pe_reply env n")
      case ConnectTimeout
      with Inr "1.prems" "1.IH"(1) [OF Inr ConnectTimeout] show ?thesis
        by (cases "k = n") (auto simp: unf split: if_splits)
    next
      case (PostBody data)
      show ?thesis
      proof (cases "k = n")
        case True
        with PostBody Inr "1.prems" show ?thesis
          by (auto simp: unf classify_kis_retry_def split: if_splits sum.splits)
      next
        case False
        with PostBody Inr "1.prems" "1.IH"(2) [OF Inr PostBody] "1.IH"(3) [OF Inr PostBody] show ?thesis
          by (auto simp: unf split: sum.splits kis_retry_decision.splits)
      qed
    qed (use Inr "1.prems" in \<open>simp_all add: unf\<close>)
  qed
qed

text \<open>How the last reply determines the outcome.\<close>

definition unnumbered :: "broker_outcome \<Rightarrow> bool" where
  "unnumbered oc \<longleftrightarrow> out_broker_order_no oc = None \<and> out_broker_org_no oc = None \<and> out_order_time oc = None"

definition last_reply_explains :: "post_reply \<Rightarrow> broker_outcome \<Rightarrow> bool" where
  "last_reply_explains reply oc \<longleftrightarrow> (case out_kind oc of
       OUT_ACCEPTED \<Rightarrow> (\<exists>data. reply = PostBody data \<and> jget data ''rt_cd'' = JStr ''0'') \<and> out_broker_order_no oc \<noteq> None
     | OUT_REJECTED \<Rightarrow> (reply = ConnectTimeout \<or> (\<exists>data. reply = PostBody data \<and> jget data ''rt_cd'' \<noteq> JStr ''0''))
                      \<and> unnumbered oc
     | OUT_UNKNOWN \<Rightarrow> reply \<noteq> ConnectTimeout \<and> unnumbered oc)"

lemma read_order_response_explains:
  "read_order_response data = Inr oc \<Longrightarrow> last_reply_explains (PostBody data) oc"
  by (auto simp: read_order_response_def last_reply_explains_def unnumbered_def Let_def outcome_def split: if_splits json.splits)

lemma post_loop_outcome:
  "fst (post_loop env n refreshed retries) = Inr oc \<Longrightarrow>
     n < snd (post_loop env n refreshed retries)
     \<and> last_reply_explains (pe_reply env (snd (post_loop env n refreshed retries) - 1)) oc"
proof (induction env n refreshed retries rule: post_loop.induct)
  case (1 env n refreshed retries)
  note unf = post_loop.simps [of env n refreshed retries]
  show ?case
  proof (cases "pe_auth env n")
    case (Inl e)
    with "1.prems" show ?thesis by (simp add: unf)
  next
    case (Inr u)
    show ?thesis
    proof (cases "pe_reply env n")
      case ConnectTimeout
      with Inr "1.prems" "1.IH"(1) [OF Inr ConnectTimeout] show ?thesis
        by (auto simp: unf last_reply_explains_def unnumbered_def outcome_def split: if_splits)
    next
      case (PostBody data)
      with Inr "1.prems" "1.IH"(2) [OF Inr PostBody] "1.IH"(3) [OF Inr PostBody] show ?thesis
        by (auto simp: unf split: sum.splits kis_retry_decision.splits dest: read_order_response_explains)
    qed (use Inr "1.prems" in \<open>auto simp: unf last_reply_explains_def unnumbered_def outcome_def\<close>)
  qed
qed

section \<open>Round trips of broker rows\<close>

lemma strict_int_text: "jget row f = JStr (show_int i) \<Longrightarrow> strict_int row f ep = Inr i"
proof -
  assume r: "jget row f = JStr (show_int i)"
  have "show_int i \<noteq> []" by (simp add: show_int_def)
  with r show ?thesis by (simp add: strict_int_def parse_decimal_show_int)
qed

lemma strict_int_never_guesses:
  "strict_int row f ep = Inr i \<Longrightarrow> jget row f \<noteq> JNull \<and> (blank_text (jget row f) \<and> i = 0 \<or> decimal_of (jget row f) = Some (of_int i))"
  by (auto simp: strict_int_def rat_to_int_Some split: json.splits if_splits option.splits)

definition status_row :: "broker_order_status \<Rightarrow> jobj" where
  "status_row st =
     [(''odno'', JStr (s_broker_order_no st)), (''orgn_odno'', JStr (s_original_order_no st)),
      (''ord_gno_brno'', JStr (s_org_no st)), (''pdno'', JStr (s_symbol st)),
      (''sll_buy_dvsn_cd'', JStr (if s_side st = SELL then ''01'' else ''02'')),
      (''ord_qty'', JStr (show_int (s_ordered_qty st))), (''ord_unpr'', JStr (show_int (s_price st))),
      (''tot_ccld_qty'', JStr (show_int (s_filled_qty st))), (''tot_ccld_amt'', JStr (show_int (s_filled_amount_krw st))),
      (''rmn_qty'', JStr (show_int (s_remaining_qty st))), (''rjct_qty'', JStr (show_int (s_rejected_qty st))),
      (''cncl_yn'', JStr (if s_cancelled st then ''Y'' else ''N'')), (''ord_tmd'', JStr (s_order_time st))]"

lemma parse_status_row_roundtrip:
  assumes "strip (s_broker_order_no st) \<noteq> []"
    and "strip (s_original_order_no st) = s_original_order_no st"
    and "s_original_order_no st = [] \<or> \<not> list_all (\<lambda>c. c = CHR ''0'') (s_original_order_no st)"
  shows "parse_status_row (JObj (status_row st)) = Inr st"
  using assms
  by (cases st, cases "s_side st")
    (auto simp: parse_status_row_def status_row_def first_missing_def DAILY_FIELDS_def str_get_def
      strict_int_text original_order_no_def Let_def)

section \<open>Posting orders\<close>

text \<open>
  C5. An order is posted at most four times, and posted again only after an answer that shows the
  previous attempt was not executed (no connection, rate limit or expired token), so that no
  retry can duplicate an order.
\<close>

theorem post_order_never_duplicates:
  "snd (post_order venue env tr) \<le> 4 \<and> (\<forall>k. Suc k < snd (post_order venue env tr) \<longrightarrow> not_executed (pe_reply env k))"
  using post_loop_posts [of env 0 False 0] post_loop_retries_safe [of 0 _ env False 0]
  by (auto simp: post_order_def MAX_SAFE_RETRIES_def split: sum.splits)

theorem post_order_never_duplicates_witness:
  "let env = \<lparr>pe_auth = (\<lambda>_. Inr ()), pe_reply = (\<lambda>k. if k = 0 then ConnectTimeout else RequestException ''ReadTimeout''), pe_refresh = (\<lambda>_. Inr ())\<rparr>
   in snd (post_order VENUE_LIVE env TR_BUY) = 2 \<and> not_executed (pe_reply env 0)"
proof -
  let ?env = "\<lparr>pe_auth = (\<lambda>_. Inr ()), pe_reply = (\<lambda>k. if k = 0 then ConnectTimeout else RequestException ''ReadTimeout''), pe_refresh = (\<lambda>_. Inr ())\<rparr>"
  have two: "snd (post_order VENUE_LIVE ?env TR_BUY) = 2"
    by (simp add: post_order_def wire_tr_id_def post_loop.simps MAX_SAFE_RETRIES_def)
  from post_order_never_duplicates [of VENUE_LIVE ?env TR_BUY] two have "not_executed (pe_reply ?env 0)" by (auto simp only:)
  with two show ?thesis by (simp add: Let_def)
qed

text \<open>
  C11. The outcome of a post is explained by the last answer: accepted only for a success answer, with an
  order number; rejected only when the broker refused or no connection was ever made; anything else is
  unknown, and an order that was not accepted carries no broker number.
\<close>

theorem post_order_outcome:
  assumes "fst (post_order venue env tr) = Inr oc"
  shows "0 < snd (post_order venue env tr) \<and> last_reply_explains (pe_reply env (snd (post_order venue env tr) - 1)) oc"
  using assms post_loop_outcome [of env 0 False 0 oc] by (auto simp: post_order_def split: sum.splits)

theorem post_order_outcome_witness:
  "let env = \<lparr>pe_auth = (\<lambda>_. Inr ()), pe_reply = (\<lambda>_. RequestException ''ReadTimeout''), pe_refresh = (\<lambda>_. Inr ())\<rparr>
   in last_reply_explains (pe_reply env 0) (outcome OUT_UNKNOWN ''transport'' ''ReadTimeout'')"
proof -
  let ?env = "\<lparr>pe_auth = (\<lambda>_. Inr ()), pe_reply = (\<lambda>_. RequestException ''ReadTimeout''), pe_refresh = (\<lambda>_. Inr ())\<rparr>"
  have p: "post_order VENUE_LIVE ?env TR_BUY = (Inr (outcome OUT_UNKNOWN ''transport'' ''ReadTimeout''), 1)"
    by (simp add: post_order_def wire_tr_id_def post_loop.simps)
  from post_order_outcome [of VENUE_LIVE ?env TR_BUY] p show ?thesis by (simp add: Let_def)
qed

text \<open>
  Reading a daily-order row inverts its wire form: a row that carries the fields of a status as
  decimal text is read back as that status.
\<close>

theorem status_row_read_back:
  assumes "strip (s_broker_order_no st) \<noteq> []"
    and "strip (s_original_order_no st) = s_original_order_no st"
    and "s_original_order_no st = [] \<or> \<not> list_all (\<lambda>c. c = CHR ''0'') (s_original_order_no st)"
  shows "parse_status_row (JObj (status_row st)) = Inr st"
  by (rule parse_status_row_roundtrip [OF assms])

theorem status_row_read_back_witness:
  "let st = \<lparr>s_broker_order_no = ''117'', s_original_order_no = [], s_org_no = ''91252'', s_symbol = ''005930'', s_side = SELL,
     s_ordered_qty = 3, s_price = 70000, s_filled_qty = 1, s_filled_amount_krw = 70000, s_remaining_qty = 2, s_rejected_qty = 0,
     s_cancelled = False, s_order_time = ''093000''\<rparr>
   in parse_status_row (JObj (status_row st)) = Inr st"
proof -
  let ?st = "\<lparr>s_broker_order_no = ''117'', s_original_order_no = [], s_org_no = ''91252'', s_symbol = ''005930'', s_side = SELL,
     s_ordered_qty = 3, s_price = 70000, s_filled_qty = 1, s_filled_amount_krw = 70000, s_remaining_qty = 2, s_rejected_qty = 0,
     s_cancelled = False, s_order_time = ''093000''\<rparr>"
  have "strip (s_broker_order_no ?st) \<noteq> []" "strip (s_original_order_no ?st) = s_original_order_no ?st"
    by (simp_all add: strip_def is_space_def)
  with status_row_read_back [of ?st] show ?thesis by (simp add: Let_def)
qed

end
