(* ===== verification/IsoTime.thy ===== *)
theory IsoTime
  imports PyTime
begin

text \<open>
  \<open>isoformat\<close> and \<open>fromisoformat\<close> of Python's \<open>datetime\<close>, \<open>date\<close> and \<open>time\<close>. Reading covers
  the extended calendar form with its optional parts, the form the sources write; the compact
  and the week-date forms of ISO 8601 are outside the model.
\<close>

section \<open>Writing\<close>

definition iso_time :: "time \<Rightarrow> string" where
  "iso_time t = show2 (tod_hour t) @ '':'' @ show2 (tod_minute t) @ '':'' @ show2 (tod_second t)
     @ (if tod_us t = 0 then [] else ''.'' @ show6 (tod_us t))"

definition iso_offset :: "int \<Rightarrow> string" where
  "iso_offset off = (let t = nat \<bar>off\<bar> in
     (if off < 0 then ''-'' else ''+'') @ show2 (tod_hour t) @ '':'' @ show2 (tod_minute t)
     @ (if t mod 60000000 = 0 then []
        else '':'' @ show2 (tod_second t) @ (if tod_us t = 0 then [] else ''.'' @ show6 (tod_us t))))"

definition isoformat :: "datetime \<Rightarrow> string" where
  "isoformat t = date_isoformat (dt_date t) @ ''T'' @ iso_time (dt_tod t) @ iso_offset (dt_off t)"

section \<open>Reading\<close>

definition take_num :: "nat \<Rightarrow> string \<Rightarrow> (nat \<times> string) option" where
  "take_num n s = (if n \<le> length s \<and> list_all is_digit (take n s) then Some (parse_nat (take n s), drop n s) else None)"

definition eat :: "char \<Rightarrow> string \<Rightarrow> string option" where
  "eat c s = (case s of [] \<Rightarrow> None | x # r \<Rightarrow> if x = c then Some r else None)"

definition parse_iso_date :: "string \<Rightarrow> (date \<times> string) option" where
  "parse_iso_date s =
     Option.bind (take_num 4 s) (\<lambda>(y, r1). Option.bind (eat (CHR ''-'') r1) (\<lambda>r2.
     Option.bind (take_num 2 r2) (\<lambda>(m, r3). Option.bind (eat (CHR ''-'') r3) (\<lambda>r4.
     Option.bind (take_num 2 r4) (\<lambda>(d, r5).
       let day = \<lparr>d_year = y, d_month = m, d_day = d\<rparr> in if valid_date day then Some (day, r5) else None)))))"

definition micros_of :: "string \<Rightarrow> nat" where
  "micros_of ds = parse_nat (take 6 (ds @ ''000000''))"

text \<open>\<open>HH[:MM[:SS[.ffffff]]]\<close>: hour, minute, second and microsecond with what follows them.\<close>

definition parse_clock :: "string \<Rightarrow> (nat \<times> nat \<times> nat \<times> nat \<times> string) option" where
  "parse_clock s = Option.bind (take_num 2 s) (\<lambda>(h, r1).
     case eat (CHR '':'') r1 of None \<Rightarrow> Some (h, 0, 0, 0, r1) | Some r2 \<Rightarrow>
     Option.bind (take_num 2 r2) (\<lambda>(m, r3).
     case eat (CHR '':'') r3 of None \<Rightarrow> Some (h, m, 0, 0, r3) | Some r4 \<Rightarrow>
     Option.bind (take_num 2 r4) (\<lambda>(sec, r5).
     case (if eat (CHR ''.'') r5 = None then eat (CHR '','') r5 else eat (CHR ''.'') r5) of
       None \<Rightarrow> Some (h, m, sec, 0, r5)
     | Some r6 \<Rightarrow>
         if takeWhile is_digit r6 = [] then None
         else Some (h, m, sec, micros_of (takeWhile is_digit r6), dropWhile is_digit r6))))"

definition clock_us :: "nat \<Rightarrow> nat \<Rightarrow> nat \<Rightarrow> nat \<Rightarrow> nat" where
  "clock_us h m sec us = (h * 3600 + m * 60 + sec) * 1000000 + us"

definition parse_iso_offset :: "string \<Rightarrow> int option option" where
  "parse_iso_offset s =
     (if s = [] then Some None
      else if s = ''Z'' then Some (Some 0)
      else case s of [] \<Rightarrow> None | c # r \<Rightarrow>
        if c = CHR ''+'' \<or> c = CHR ''-'' then
          (case parse_clock r of
             Some (h, m, sec, us, []) \<Rightarrow>
               let off = clock_us h m sec us in
               if off < 86400000000 then Some (Some (if c = CHR ''-'' then - int off else int off)) else None
           | _ \<Rightarrow> None)
        else None)"

text \<open>\<open>fromisoformat\<close>: the date, the time of day and the offset if there is one.\<close>

definition fromisoformat :: "string \<Rightarrow> (date \<times> time \<times> int option) option" where
  "fromisoformat s = Option.bind (parse_iso_date s) (\<lambda>(day, r).
     case r of [] \<Rightarrow> Some (day, 0, None) | sep # r1 \<Rightarrow>
       if r1 = [] then Some (day, 0, None)
       else Option.bind (parse_clock r1) (\<lambda>(h, m, sec, us, r2).
         if h < 24 \<and> m < 60 \<and> sec < 60
         then Option.bind (parse_iso_offset r2) (\<lambda>off. Some (day, clock_us h m sec us, off))
         else None))"

section \<open>Round trips\<close>

lemma show_nat_length: "0 < w \<Longrightarrow> n < 10 ^ w \<Longrightarrow> length (show_nat n) \<le> w"
proof (induction n arbitrary: w rule: show_nat.induct)
  case (1 n)
  show ?case
  proof (cases "n < 10")
    case True
    with 1 show ?thesis by (simp add: show_nat.simps [of n])
  next
    case False
    then obtain v where w: "w = Suc v" "0 < v"
      using 1 by (cases w; cases "w - 1") auto
    with 1 have "n div 10 < 10 ^ v" by auto
    from 1(1) [OF False w(2) this] w False show ?thesis by (simp add: show_nat.simps [of n])
  qed
qed

lemma zfill_length: "0 < w \<Longrightarrow> n < 10 ^ w \<Longrightarrow> length (zfill w (show_nat n)) = w"
  using show_nat_length [of w n] by (simp add: zfill_def)

lemma take_num_zfill: "0 < w \<Longrightarrow> n < 10 ^ w \<Longrightarrow> take_num w (zfill w (show_nat n) @ r) = Some (n, r)"
  using zfill_length [of w n] by (simp add: take_num_def zfill_digits show_nat_digits)

lemma take_num_show:
  "n < 100 \<Longrightarrow> take_num 2 (show2 n @ r) = Some (n, r)"
  "n < 10000 \<Longrightarrow> take_num 4 (show4 n @ r) = Some (n, r)"
  using take_num_zfill [of 2 n r] take_num_zfill [of 4 n r] by (simp_all add: show2_def show4_def)

lemma eat_Cons [simp]: "eat c (x # r) = (if x = c then Some r else None)" and eat_Nil [simp]: "eat c [] = None"
  by (simp_all add: eat_def)

lemma parse_iso_date_show: "valid_date d \<Longrightarrow> parse_iso_date (date_isoformat d @ r) = Some (d, r)"
proof -
  assume v: "valid_date d"
  have "days_in_month (d_year d) (d_month d) \<le> 31" by (simp add: days_in_month_def)
  with v have "d_year d < 10000" "d_month d < 100" "d_day d < 100" by (auto simp: valid_date_def)
  with v show ?thesis by (cases d) (simp add: parse_iso_date_def date_isoformat_def take_num_show Let_def)
qed

lemma micros_of_show: "us < 1000000 \<Longrightarrow> micros_of (show6 us) = us"
  using zfill_length [of 6 us] by (simp add: micros_of_def show6_def)

lemma digits_then:
  assumes "list_all is_digit ds" "r = [] \<or> \<not> is_digit (hd r)"
  shows "takeWhile is_digit (ds @ r) = ds \<and> dropWhile is_digit (ds @ r) = r"
  using assms by (cases r) (auto simp: list_all_iff takeWhile_append dropWhile_append takeWhile_eq_all_conv)

definition clock_end :: "string \<Rightarrow> bool" where
  "clock_end r \<longleftrightarrow> r = [] \<or> hd r = CHR ''+'' \<or> hd r = CHR ''-''"

lemma clock_end_no_digit: "clock_end r \<Longrightarrow> r = [] \<or> \<not> is_digit (hd r)"
  by (auto simp: clock_end_def is_digit_def)

lemma clock_end_no_point: "clock_end r \<Longrightarrow> eat (CHR ''.'') r = None \<and> eat (CHR '','') r = None \<and> eat (CHR '':'') r = None"
  by (cases r) (auto simp: clock_end_def)

lemma parse_clock_show:
  assumes "h < 100" "m < 100" "sec < 100" "us < 1000000" "clock_end r"
  shows "parse_clock (show2 h @ '':'' @ show2 m @ '':'' @ show2 sec @ (if us = 0 then [] else ''.'' @ show6 us) @ r)
    = Some (h, m, sec, us, r)"
proof -
  have d: "takeWhile is_digit (show6 us @ r) = show6 us \<and> dropWhile is_digit (show6 us @ r) = r"
    by (rule digits_then [OF _ clock_end_no_digit]) (simp_all add: show6_def zfill_digits show_nat_digits assms)
  have "show6 us \<noteq> []" by (simp add: show6_def)
  with d assms clock_end_no_point [OF assms(5)] show ?thesis
    by (simp add: parse_clock_def take_num_show micros_of_show)
qed

lemma parse_clock_minutes: "h < 100 \<Longrightarrow> m < 100 \<Longrightarrow> parse_clock (show2 h @ '':'' @ show2 m) = Some (h, m, 0, 0, [])"
  using take_num_show(1) [of h "'':'' @ show2 m"] take_num_show(1) [of m "[]"] by (simp add: parse_clock_def)

lemma clock_us_parts: "clock_us (tod_hour t) (tod_minute t) (tod_second t) (tod_us t) = t"
proof -
  have clock: "y div 60 * 3600 + y mod 60 * 60 = y * 60" for y :: nat
    using div_mult_mod_eq [of y 60] by linarith
  have "t div 60000000 = t div 1000000 div 60" "t div 3600000000 = t div 1000000 div 60 div 60"
    by (simp_all add: div_mult2_eq [symmetric])
  then have "tod_hour t * 3600 + tod_minute t * 60 + tod_second t = t div 1000000"
    unfolding tod_hour_def tod_minute_def tod_second_def by (simp add: clock)
  then show ?thesis by (simp add: clock_us_def tod_us_def)
qed

lemma tod_parts_less: "t < 86400000000 \<Longrightarrow> tod_hour t < 24" "tod_minute t < 60" "tod_second t < 60" "tod_us t < 1000000"
  by (simp_all add: tod_hour_def tod_minute_def tod_second_def tod_us_def less_mult_imp_div_less)

lemma parse_iso_offset_show:
  assumes "\<bar>off\<bar> < 86400000000"
  shows "parse_iso_offset (iso_offset off) = Some (Some off)"
proof -
  define t where "t = nat \<bar>off\<bar>"
  have t: "t < 86400000000" and off: "off = (if off < 0 then - int t else int t)"
    using assms by (auto simp: t_def)
  note parts = tod_parts_less(1) [OF t] tod_parts_less(2-4) [of t]
  let ?text = "show2 (tod_hour t) @ '':'' @ show2 (tod_minute t) @ (if t mod 60000000 = 0 then []
        else '':'' @ show2 (tod_second t) @ (if tod_us t = 0 then [] else ''.'' @ show6 (tod_us t)))"
  have "\<exists>h m sec us. parse_clock ?text = Some (h, m, sec, us, []) \<and> clock_us h m sec us = t"
  proof (cases "t mod 60000000 = 0")
    case True
    then obtain k where "t = 60000000 * k" by (auto simp: mod_eq_0_iff_dvd dvd_def)
    then have "t div 1000000 = 60 * k" "t mod 1000000 = 0" by auto
    then have "tod_second t = 0" "tod_us t = 0" by (simp_all add: tod_second_def tod_us_def)
    with True parts clock_us_parts [of t] parse_clock_minutes [of "tod_hour t" "tod_minute t"] show ?thesis by simp
  next
    case False
    with parts clock_us_parts [of t] parse_clock_show [of "tod_hour t" "tod_minute t" "tod_second t" "tod_us t" "[]"]
    show ?thesis by (simp add: clock_end_def split: if_splits)
  qed
  then obtain h m sec us where "parse_clock ?text = Some (h, m, sec, us, [])" "clock_us h m sec us = t" by blast
  then show ?thesis
    using t off by (cases "off < 0") (simp_all add: iso_offset_def Let_def t_def [symmetric] parse_iso_offset_def)
qed

definition valid_datetime :: "datetime \<Rightarrow> bool" where
  "valid_datetime t \<longleftrightarrow> valid_date (dt_date t) \<and> dt_tod t < 86400000000 \<and> \<bar>dt_off t\<bar> < 86400000000"

lemma clock_end_offset: "clock_end (iso_offset off)"
  by (simp add: clock_end_def iso_offset_def Let_def)

end
