(* ===== verification/Journal.thy ===== *)
theory Journal
  imports Contracts Json IsoTime
begin

text \<open>
  The audit journal of \<open>src/execution/journal.py\<close>: one JSON object per line and per day,
  sensitive keys masked, appended only. A day whose file was found torn refuses appends.
  A file on disk is the list of its lines as \<open>json.loads\<close> reads them, with whether the last
  byte is a newline; the file system itself (creation, \<open>fsync\<close>, I/O errors) is not modelled.
\<close>

definition REDACT_KEYS :: "string list" where
  "REDACT_KEYS = [''cano'', ''appkey'', ''appsecret'', ''secretkey'', ''authorization'', ''access_token'', ''approval_key'']"

definition lower_char :: "char \<Rightarrow> char" where
  "lower_char c = (if 65 \<le> (of_char c :: nat) \<and> (of_char c :: nat) \<le> 90 then char_of ((of_char c :: nat) + 32) else c)"

definition lower :: "string \<Rightarrow> string" where
  "lower s = map lower_char s"

fun redact :: "json \<Rightarrow> json" where
  "redact (JObj kvs) = JObj (map (\<lambda>(k, v). (k, if lower k \<in> set REDACT_KEYS then JStr ''***'' else redact v)) kvs)"
| "redact (JList vs) = JList (map redact vs)"
| "redact v = v"

section \<open>Data classes as journal values\<close>

text \<open>\<open>dataclasses.asdict\<close> of the values the order manager records.\<close>

definition intent_json :: "order_intent \<Rightarrow> json" where
  "intent_json i = JObj [(''symbol'', JStr (i_symbol i)), (''side'', JStr (side_value (i_side i))),
     (''qty'', JInt (i_qty i)), (''order_type'', JStr (order_type_value (i_order_type i))),
     (''limit_price'', jopt_int (i_limit_price i)), (''tag'', JStr (i_tag i))]"

definition level_json :: "int \<times> int \<Rightarrow> json" where
  "level_json lv = JList [JInt (fst lv), JInt (snd lv)]"

definition quote_json :: "quote \<Rightarrow> json" where
  "quote_json q = JObj [(''symbol'', JStr (q_symbol q)), (''last'', JInt (q_last q)),
     (''upper_limit'', JInt (q_upper_limit q)), (''lower_limit'', JInt (q_lower_limit q)),
     (''tick'', JInt (q_tick q)), (''halted'', JBool (q_halted q)),
     (''asks'', JList (map level_json (q_asks q))), (''bids'', JList (map level_json (q_bids q)))]"

definition outcome_json :: "broker_outcome \<Rightarrow> json" where
  "outcome_json oc = JObj [(''kind'', JStr (outcome_kind_value (out_kind oc))),
     (''broker_order_no'', jopt_str (out_broker_order_no oc)), (''broker_org_no'', jopt_str (out_broker_org_no oc)),
     (''order_time'', jopt_str (out_order_time oc)), (''code'', JStr (out_code oc)), (''message'', JStr (out_message oc))]"

section \<open>The journal\<close>

record journal =
  j_mode :: execution_mode
  j_torn :: "date list"
  j_lines :: "(date \<times> jobj) list"

definition append_record :: "execution_mode \<Rightarrow> datetime \<Rightarrow> string \<Rightarrow> jobj \<Rightarrow> jobj" where
  "append_record mode ts event flds =
     fold (\<lambda>(k, v) r. AList.update k v r) (map (\<lambda>(k, v). (k, redact v)) flds)
       [(''ts'', JStr (isoformat ts)), (''mode'', JStr (mode_value mode)), (''event'', JStr event)]"

definition journal_append :: "journal \<Rightarrow> datetime \<Rightarrow> string \<Rightarrow> jobj \<Rightarrow> unit result \<times> journal" where
  "journal_append j ts event flds =
     (if dt_date ts \<in> set (j_torn j)
      then (Inl (ExecutionError (''cannot append to torn journal: '' @ date_isoformat (dt_date ts))), j)
      else (Inr (), j\<lparr>j_lines := j_lines j @ [(dt_date ts, append_record (j_mode j) ts event flds)]\<rparr>))"

datatype jline = Blank | Parsed json | Garbled

record jfile =
  f_lines :: "jline list"
  f_newline :: bool

definition corrupt :: "date \<Rightarrow> nat \<Rightarrow> exn" where
  "corrupt day idx = ExecutionError (''corrupt journal line '' @ show_nat idx @ '' for '' @ date_isoformat day)"

fun read_lines :: "execution_mode \<Rightarrow> date \<Rightarrow> nat \<Rightarrow> jline list \<Rightarrow> (jobj list \<times> bool) result" where
  "read_lines mode day idx [] = Inr ([], False)"
| "read_lines mode day idx (Blank # rest) = read_lines mode day (Suc idx) rest"
| "read_lines mode day idx (Garbled # rest) =
     (if rest = [] then Inr ([], True) else Inl (corrupt day idx))"
| "read_lines mode day idx (Parsed (JObj rec) # rest) =
     rbind (read_lines mode day (Suc idx) rest) (\<lambda>(recs, torn).
       Inr (if jget rec ''mode'' = JStr (mode_value mode) then rec # recs else recs, torn))"
| "read_lines mode day idx (Parsed v # rest) = Inl (corrupt day idx)"

definition read_day :: "journal \<Rightarrow> jfile option \<Rightarrow> date \<Rightarrow> jobj list result \<times> journal" where
  "read_day j file day = (case file of None \<Rightarrow> (Inr [], j) | Some f \<Rightarrow>
     let torn_tail = f_lines f \<noteq> [] \<and> \<not> f_newline f;
         j' = (if torn_tail then j\<lparr>j_torn := day # j_torn j\<rparr> else j)
     in case read_lines (j_mode j) day 0 (f_lines f) of
          Inl e \<Rightarrow> (Inl e, j')
        | Inr (recs, torn) \<Rightarrow> (Inr recs, if torn then j'\<lparr>j_torn := day # j_torn j'\<rparr> else j'))"

section \<open>Properties\<close>

text \<open>Masking removes every sensitive value, at any depth.\<close>

fun redacted :: "json \<Rightarrow> bool" where
  "redacted (JObj kvs) = (\<forall>(k, v) \<in> set kvs. (lower k \<in> set REDACT_KEYS \<longrightarrow> v = JStr ''***'') \<and> redacted v)"
| "redacted (JList vs) = (\<forall>v \<in> set vs. redacted v)"
| "redacted v = True"

lemma redacted_redact: "redacted (redact v)"
  by (induction v rule: redact.induct) auto

lemma redact_idem: "redact (redact v) = redact v"
  by (induction v rule: redact.induct) auto

lemma append_torn: "dt_date ts \<in> set (j_torn j) \<Longrightarrow> snd (journal_append j ts ev fs) = j"
  by (simp add: journal_append_def)

lemma journal_append_result:
  "fst (journal_append j ts ev fs) = Inr () \<or> dt_date ts \<in> set (j_torn j)"
  by (simp add: journal_append_def)

lemma journal_append_lines:
  "\<exists>ls. j_lines (snd (journal_append j ts ev fs)) = j_lines j @ ls"
  by (simp add: journal_append_def)

lemma journal_append_mode [simp]: "j_mode (snd (journal_append j ts ev fs)) = j_mode j"
  and journal_append_torn_days [simp]: "j_torn (snd (journal_append j ts ev fs)) = j_torn j"
  by (simp_all add: journal_append_def)

text \<open>A record holds its three leading keys and the masked fields.\<close>

definition plain_fields :: "jobj \<Rightarrow> bool" where
  "plain_fields flds \<longleftrightarrow> wf_dict flds \<and> ''ts'' \<notin> set (dict_keys flds) \<and> ''mode'' \<notin> set (dict_keys flds) \<and> ''event'' \<notin> set (dict_keys flds)"

lemma fold_update_new: "wf_dict (base @ kvs) \<Longrightarrow> fold (\<lambda>(k, v) r. AList.update k v r) kvs base = base @ kvs"
proof (induction kvs arbitrary: base)
  case Nil
  then show ?case by simp
next
  case (Cons kv kvs)
  then have "AList.update (fst kv) (snd kv) base = base @ [kv]"
    by (intro trans [OF update_append_new]) (auto simp: map_of_eq_None_iff)
  with Cons.IH [of "base @ [kv]"] Cons.prems show ?case by (simp add: case_prod_beta)
qed

lemma append_record_plain:
  assumes "plain_fields flds"
  shows "append_record mode ts ev flds =
    [(''ts'', JStr (isoformat ts)), (''mode'', JStr (mode_value mode)), (''event'', JStr ev)] @ map (\<lambda>(k, v). (k, redact v)) flds"
proof -
  have keys: "dict_keys (map (\<lambda>(k, v). (k, redact v)) flds) = dict_keys flds" by (induction flds) auto
  have "wf_dict ([(''ts'', JStr (isoformat ts)), (''mode'', JStr (mode_value mode)), (''event'', JStr ev)]
      @ map (\<lambda>(k, v). (k, redact v)) flds)"
    using assms unfolding map_append keys by (simp add: plain_fields_def)
  then show ?thesis unfolding append_record_def by (rule fold_update_new)
qed

lemma append_record_lookup:
  assumes "plain_fields flds"
  shows "map_of (append_record mode ts ev flds) k =
    (if k = ''ts'' then Some (JStr (isoformat ts)) else if k = ''mode'' then Some (JStr (mode_value mode))
     else if k = ''event'' then Some (JStr ev) else map_option redact (map_of flds k))"
proof -
  have "map_of (map (\<lambda>(k, v). (k, redact v)) flds) k = map_option redact (map_of flds k)"
    by (induction flds) auto
  then show ?thesis by (simp add: append_record_plain [OF assms])
qed

lemma jget_append_record:
  "plain_fields flds \<Longrightarrow> jget (append_record mode ts ev flds) k =
    (if k = ''ts'' then JStr (isoformat ts) else if k = ''mode'' then JStr (mode_value mode)
     else if k = ''event'' then JStr ev else case map_of flds k of None \<Rightarrow> JNull | Some v \<Rightarrow> redact v)"
  by (simp add: jget_def append_record_lookup split: option.splits)

lemmas record_simps = jget_append_record append_record_lookup plain_fields_def

text \<open>The file the journal has written for a day, when nothing tore it.\<close>

definition day_file :: "journal \<Rightarrow> date \<Rightarrow> jfile" where
  "day_file j day = \<lparr>f_lines = map (\<lambda>(_, r). Parsed (JObj r)) (filter (\<lambda>(d, _). d = day) (j_lines j)), f_newline = True\<rparr>"

lemma read_lines_parsed:
  "read_lines mode day idx (map (\<lambda>(_, r). Parsed (JObj r)) ls)
     = Inr (filter (\<lambda>r. jget r ''mode'' = JStr (mode_value mode)) (map snd ls), False)"
  by (induction ls arbitrary: idx) auto

lemma read_day_own_file:
  "read_day j (Some (day_file j day)) day =
     (Inr (filter (\<lambda>r. jget r ''mode'' = JStr (mode_value (j_mode j))) (map snd (filter (\<lambda>(d, _). d = day) (j_lines j)))), j)"
  by (simp add: read_day_def day_file_def read_lines_parsed)

text \<open>A torn last line is dropped and the day is closed for appends; the records before it are kept.\<close>

lemma read_lines_torn_tail:
  "read_lines mode day idx (map (\<lambda>(_, r). Parsed (JObj r)) ls @ [Garbled])
     = Inr (filter (\<lambda>r. jget r ''mode'' = JStr (mode_value mode)) (map snd ls), True)"
  by (induction ls arbitrary: idx) auto

section \<open>Properties of the journal\<close>



text \<open>
  C16. No credential reaches the journal: in a redacted value, at any depth, every field whose name is one
  of the sensitive keys in any capitalisation holds the mask, and redacting again changes nothing.
\<close>

theorem redaction_complete: "redacted (redact v) \<and> redact (redact v) = redact v"
  by (simp add: redacted_redact redact_idem)

end
