(* ===== verification/Ledger.thy ===== *)
theory Ledger
  imports Contracts
begin

text \<open>
  The integer (won) accounting of \<open>src/execution/ledger.py\<close>. \<open>apply_fill\<close> returns the
  exception with the ledger as it was, or the realised profit with the updated ledger: the
  source checks everything before its first assignment.
\<close>

record cost_model =
  commission_bps :: rat
  sell_tax_bps :: rat

text \<open>
  \<open>int(amount_krw * bps // 10_000)\<close>: the integer is converted to a float, the product is
  rounded, the floor division of a float below \<open>2 ^ 53\<close> is exact.
\<close>

definition bps_of :: "rat \<Rightarrow> int \<Rightarrow> int" where
  "bps_of bps amount_krw = \<lfloor>fl (fl (of_int amount_krw) * bps) / 10000\<rfloor>"

definition commission :: "cost_model \<Rightarrow> int \<Rightarrow> int" where
  "commission c amount_krw = bps_of (commission_bps c) amount_krw"

definition sell_tax :: "cost_model \<Rightarrow> int \<Rightarrow> int" where
  "sell_tax c amount_krw = bps_of (sell_tax_bps c) amount_krw"

record position =
  p_qty :: int
  p_cost_krw :: int

record ledger =
  cash_krw :: int
  costs :: cost_model
  realized_pnl_krw :: int
  positions :: "(string, position) dict"

definition new_ledger :: "int \<Rightarrow> cost_model \<Rightarrow> (string, position) dict \<Rightarrow> ledger" where
  "new_ledger cash c ps = \<lparr>cash_krw = cash, costs = c, realized_pnl_krw = 0, positions = ps\<rparr>"

definition ledger_qty :: "ledger \<Rightarrow> string \<Rightarrow> int" where
  "ledger_qty l symbol = (case map_of (positions l) symbol of None \<Rightarrow> 0 | Some p \<Rightarrow> p_qty p)"

definition apply_fill :: "ledger \<Rightarrow> string \<Rightarrow> side \<Rightarrow> int \<Rightarrow> int \<Rightarrow> (int \<times> ledger) result" where
  "apply_fill l symbol sd qty amount_krw =
     (if qty \<le> 0 \<or> amount_krw < 0
      then Inl (BrokerIntegrityError (''invalid fill: qty='' @ show_int qty @ '' amount='' @ show_int amount_krw))
      else if sd = BUY then
        (let fee = commission (costs l) amount_krw;
             p = (case map_of (positions l) symbol of None \<Rightarrow> \<lparr>p_qty = 0, p_cost_krw = 0\<rparr> | Some p \<Rightarrow> p)
         in Inr (0, l\<lparr>cash_krw := cash_krw l - (amount_krw + fee),
               positions := AList.update symbol
                 \<lparr>p_qty = p_qty p + qty, p_cost_krw = p_cost_krw p + (amount_krw + fee)\<rparr> (positions l)\<rparr>))
      else (case map_of (positions l) symbol of
          None \<Rightarrow> Inl (BrokerIntegrityError (''oversell without position: '' @ symbol @ '' qty='' @ show_int qty))
        | Some p \<Rightarrow>
            if qty > p_qty p
            then Inl (BrokerIntegrityError (''oversell without position: '' @ symbol @ '' qty='' @ show_int qty))
            else let fee = commission (costs l) amount_krw;
                     tax = sell_tax (costs l) amount_krw;
                     removed = p_cost_krw p * qty div p_qty p;
                     p' = \<lparr>p_qty = p_qty p - qty, p_cost_krw = p_cost_krw p - removed\<rparr>;
                     proceeds = amount_krw - fee - tax;
                     pnl = proceeds - removed;
                     ps = (if p_qty p' = 0 then AList.delete symbol (positions l)
                           else AList.update symbol p' (positions l))
                 in Inr (pnl, l\<lparr>cash_krw := cash_krw l + proceeds,
                       realized_pnl_krw := realized_pnl_krw l + pnl, positions := ps\<rparr>)))"

section \<open>Well-formed ledgers\<close>

definition wf_position :: "position \<Rightarrow> bool" where
  "wf_position p \<longleftrightarrow> 0 < p_qty p \<and> 0 \<le> p_cost_krw p"

definition wf_costs :: "cost_model \<Rightarrow> bool" where
  "wf_costs c \<longleftrightarrow> 0 \<le> commission_bps c \<and> 0 \<le> sell_tax_bps c"

definition wf_ledger :: "ledger \<Rightarrow> bool" where
  "wf_ledger l \<longleftrightarrow> wf_dict (positions l) \<and> dict_all wf_position (positions l) \<and> wf_costs (costs l)"

text \<open>The value the bookkeeping must conserve: cash plus positions at cost, less realised profit.\<close>

definition book_value :: "ledger \<Rightarrow> int" where
  "book_value l = cash_krw l + dict_sum p_cost_krw (positions l) - realized_pnl_krw l"

lemma commission_nonneg: "wf_costs c \<Longrightarrow> 0 \<le> a \<Longrightarrow> 0 \<le> commission c a"
  by (simp add: wf_costs_def commission_def bps_of_def fl_nonneg)

lemma sell_tax_nonneg: "wf_costs c \<Longrightarrow> 0 \<le> a \<Longrightarrow> 0 \<le> sell_tax c a"
  by (simp add: wf_costs_def sell_tax_def bps_of_def fl_nonneg)

lemma apply_fill_error_iff:
  "(\<exists>e. apply_fill l sy sd qty amt = Inl e) \<longleftrightarrow>
     qty \<le> 0 \<or> amt < 0 \<or> (sd = SELL \<and> (case map_of (positions l) sy of None \<Rightarrow> True | Some p \<Rightarrow> p_qty p < qty))"
  by (cases sd) (auto simp: apply_fill_def Let_def split: option.splits)

lemma removed_cost_bounds:
  fixes c q n :: int
  assumes "0 \<le> c" "0 < q" "q \<le> n"
  shows "0 \<le> c * q div n \<and> c * q div n \<le> c"
proof -
  have "c * q div n \<le> c * n div n" using assms by (intro zdiv_mono1 mult_left_mono) auto
  then show ?thesis using assms by (simp add: pos_imp_zdiv_nonneg_iff)
qed

lemma wf_ledger_position: "wf_ledger l \<Longrightarrow> map_of (positions l) sy = Some p \<Longrightarrow> wf_position p"
  by (auto simp: wf_ledger_def intro: dict_all_lookup)

text \<open>The two successful branches, as equations the proofs below rewrite with.\<close>

lemma apply_fill_buy:
  assumes "0 < qty" "0 \<le> amt"
  shows "apply_fill l sy BUY qty amt = (let fee = commission (costs l) amt;
      p = (case map_of (positions l) sy of None \<Rightarrow> \<lparr>p_qty = 0, p_cost_krw = 0\<rparr> | Some p \<Rightarrow> p) in
    Inr (0, l\<lparr>cash_krw := cash_krw l - (amt + fee), positions := AList.update sy
      \<lparr>p_qty = p_qty p + qty, p_cost_krw = p_cost_krw p + (amt + fee)\<rparr> (positions l)\<rparr>))"
  using assms by (simp add: apply_fill_def)

lemma apply_fill_wf:
  assumes wf: "wf_ledger l" and fill: "apply_fill l sy sd qty amt = Inr (pnl, l')"
  shows "wf_ledger l'"
proof (cases sd)
  case BUY
  with fill have q: "0 < qty" "0 \<le> amt" by (auto simp: apply_fill_def split: if_splits)
  define p where "p = (case map_of (positions l) sy of None \<Rightarrow> \<lparr>p_qty = 0, p_cost_krw = 0\<rparr> | Some p \<Rightarrow> p)"
  have "0 \<le> p_qty p" "0 \<le> p_cost_krw p"
    using wf_ledger_position [OF wf, of sy] by (auto simp: p_def wf_position_def split: option.splits)
  moreover have "0 \<le> commission (costs l) amt"
    using wf q by (simp add: wf_ledger_def commission_nonneg)
  ultimately have "wf_position \<lparr>p_qty = p_qty p + qty, p_cost_krw = p_cost_krw p + (amt + commission (costs l) amt)\<rparr>"
    using q by (simp add: wf_position_def)
  with wf fill BUY show ?thesis
    by (auto simp: apply_fill_buy [OF q] Let_def wf_ledger_def p_def [symmetric])
next
  case SELL
  then obtain p where p: "map_of (positions l) sy = Some p" "0 < qty" "qty \<le> p_qty p" "0 \<le> amt"
    using fill by (auto simp: apply_fill_def split: if_splits option.splits)
  from wf_ledger_position [OF wf p(1)] have "0 \<le> p_cost_krw p" by (simp add: wf_position_def)
  with p have "0 \<le> p_cost_krw p - p_cost_krw p * qty div p_qty p"
    using removed_cost_bounds [of "p_cost_krw p" qty "p_qty p"] by simp
  with p have new: "p_qty p \<noteq> qty \<Longrightarrow>
      wf_position \<lparr>p_qty = p_qty p - qty, p_cost_krw = p_cost_krw p - p_cost_krw p * qty div p_qty p\<rparr>"
    by (simp add: wf_position_def)
  from fill SELL p have "l' = l\<lparr>cash_krw := cash_krw l', realized_pnl_krw := realized_pnl_krw l', positions := positions l'\<rparr>"
    and "positions l' = AList.delete sy (positions l) \<and> p_qty p = qty \<or> p_qty p \<noteq> qty \<and>
      positions l' = AList.update sy \<lparr>p_qty = p_qty p - qty, p_cost_krw = p_cost_krw p - p_cost_krw p * qty div p_qty p\<rparr> (positions l)"
    and "costs l' = costs l"
    by (auto simp: apply_fill_def Let_def split: if_splits)
  with wf new show ?thesis
    by (auto simp: wf_ledger_def)
qed

lemma apply_fill_book_value:
  assumes "wf_dict (positions l)" and "apply_fill l sy sd qty amt = Inr (pnl, l')"
  shows "book_value l' = book_value l"
  using assms
  by (cases sd)
    (auto simp: apply_fill_def book_value_def Let_def dict_sum_update dict_sum_delete
      simp del: map_of_eq_Some_iff split: if_splits option.splits)

text \<open>How a fill moves the held quantity.\<close>

definition signed_qty :: "side \<Rightarrow> int \<Rightarrow> int" where
  "signed_qty sd q = (if sd = BUY then q else - q)"

lemma ledger_qty_nonneg: "wf_ledger l \<Longrightarrow> 0 \<le> ledger_qty l sy"
  using wf_ledger_position [of l sy] by (auto simp: ledger_qty_def wf_position_def split: option.splits)

lemma apply_fill_qty:
  assumes "apply_fill l sy sd qty amt = Inr (pnl, l')"
  shows "ledger_qty l' s = ledger_qty l s + (if s = sy then signed_qty sd qty else 0)"
  using assms
  by (cases sd)
    (auto simp: apply_fill_def ledger_qty_def signed_qty_def Let_def split: if_splits option.splits)

lemma apply_fill_costs: "apply_fill l sy sd qty amt = Inr (pnl, l') \<Longrightarrow> costs l' = costs l"
  by (cases sd) (auto simp: apply_fill_def Let_def split: if_splits option.splits)

lemma apply_fill_ok:
  assumes "0 < qty" "0 \<le> amt" "sd = SELL \<Longrightarrow> qty \<le> ledger_qty l sy"
  shows "\<exists>pnl l'. apply_fill l sy sd qty amt = Inr (pnl, l')"
proof -
  have "\<not> (\<exists>e. apply_fill l sy sd qty amt = Inl e)"
    unfolding apply_fill_error_iff using assms by (auto simp: ledger_qty_def split: option.splits)
  then show ?thesis by (cases "apply_fill l sy sd qty amt") auto
qed

text \<open>Selling out a position removes exactly its cost.\<close>

lemma sell_out_removes_cost:
  assumes "map_of (positions l) sy = Some p" "0 < p_qty p" "0 \<le> amt" "apply_fill l sy SELL (p_qty p) amt = Inr (pnl, l')"
  shows "map_of (positions l') sy = None"
    and "pnl = amt - commission (costs l) amt - sell_tax (costs l) amt - p_cost_krw p"
  using assms by (auto simp: apply_fill_def Let_def)

section \<open>Booking a fill\<close>

text \<open>
  C14. Booking a fill keeps the ledger well formed (one positive position per symbol, non-negative
  cost), moves the position of that symbol by exactly the filled quantity and no other, and keeps
  cash plus cost minus realised result.
\<close>

theorem apply_fill_books:
  assumes "wf_ledger l" "apply_fill l sy sd qty amt = Inr (pnl, l')"
  shows "wf_ledger l' \<and> book_value l' = book_value l \<and> realized_pnl_krw l' = realized_pnl_krw l + pnl
    \<and> (\<forall>s. ledger_qty l' s = ledger_qty l s + (if s = sy then signed_qty sd qty else 0))"
proof -
  have "realized_pnl_krw l' = realized_pnl_krw l + pnl"
    using assms(2) by (auto simp: apply_fill_def Let_def split: if_splits option.splits)
  with apply_fill_wf [OF assms] apply_fill_book_value [OF _ assms(2)] apply_fill_qty [OF assms(2)] assms(1) show ?thesis
    by (simp add: wf_ledger_def)
qed

theorem apply_fill_books_witness:
  "\<exists>pnl l'. apply_fill (new_ledger 0 \<lparr>commission_bps = 0, sell_tax_bps = 20\<rparr> [(''A'', \<lparr>p_qty = 3, p_cost_krw = 100\<rparr>)]) ''A'' SELL 2 80
     = Inr (pnl, l') \<and> ledger_qty l' ''A'' = 1 \<and> book_value l' = 100"
proof -
  let ?l = "new_ledger 0 \<lparr>commission_bps = 0, sell_tax_bps = 20\<rparr> [(''A'', \<lparr>p_qty = 3, p_cost_krw = 100\<rparr>)]"
  have wf: "wf_ledger ?l" by (simp add: wf_ledger_def new_ledger_def wf_position_def wf_costs_def)
  obtain pnl l' where f: "apply_fill ?l ''A'' SELL 2 80 = Inr (pnl, l')"
    using apply_fill_ok [of 2 80 SELL ?l "''A''"] by (auto simp: ledger_qty_def new_ledger_def)
  have "ledger_qty ?l ''A'' = 3" "book_value ?l = 100" by (simp_all add: ledger_qty_def book_value_def new_ledger_def)
  with apply_fill_books [OF wf f] f show ?thesis by (auto simp: signed_qty_def)
qed

end
