(* ===== verification/Ticks.thy ===== *)
theory Ticks
  imports Errors
begin

text \<open>The KRX price grid of \<open>src/execution/ticks.py\<close>.\<close>

definition TICK_TABLE :: "(int \<times> int) list" where
  "TICK_TABLE = [(500000, 1000), (200000, 500), (50000, 100), (20000, 50), (5000, 10), (2000, 5), (0, 1)]"

fun tick_lookup :: "(int \<times> int) list \<Rightarrow> int \<Rightarrow> int result" where
  "tick_lookup [] price = Inl (ValueError (''price must be >= 1: '' @ show_int price))"
| "tick_lookup ((lo, tick) # rest) price = (if price \<ge> lo then Inr tick else tick_lookup rest price)"

definition tick_of :: "int \<Rightarrow> int result" where
  "tick_of price = (if price < 1 then Inl (ValueError (''price must be >= 1: '' @ show_int price))
     else tick_lookup TICK_TABLE price)"

definition is_tick_aligned :: "int \<Rightarrow> bool" where
  "is_tick_aligned price = (if price < 1 then False
     else (case tick_of price of Inr t \<Rightarrow> price mod t = 0 | Inl _ \<Rightarrow> False))"

section \<open>The grid\<close>

lemma tick_of_pos: "1 \<le> p \<Longrightarrow> \<exists>t. tick_of p = Inr t \<and> 1 \<le> t \<and> t \<le> 1000"
  by (simp add: tick_of_def TICK_TABLE_def)

lemma tick_of_error_iff: "(\<exists>e. tick_of p = Inl e) \<longleftrightarrow> p < 1"
  by (simp add: tick_of_def TICK_TABLE_def)

lemma tick_of_bands:
  "1 \<le> p \<Longrightarrow> tick_of p = Inr (if p < 2000 then 1 else if p < 5000 then 5 else if p < 20000 then 10
     else if p < 50000 then 50 else if p < 200000 then 100 else if p < 500000 then 500 else 1000)"
  by (simp add: tick_of_def TICK_TABLE_def)

lemma is_tick_aligned_iff: "is_tick_aligned p \<longleftrightarrow> 1 \<le> p \<and> (\<exists>t. tick_of p = Inr t \<and> t dvd p)"
  using tick_of_pos [of p] by (auto simp: is_tick_aligned_def dvd_eq_mod_eq_0 split: sum.splits)

text \<open>
  Moving one tick from an aligned price stays on the grid, also across a band boundary:
  every boundary is a multiple of the tick above it.
\<close>

lemma tick_step_le: "t dvd p \<Longrightarrow> t dvd b \<Longrightarrow> p < b \<Longrightarrow> p + t \<le> (b :: int)"
  using zdvd_imp_le [of t "b - p"] by (auto dest: dvd_diff)

lemma tick_up_aligned:
  assumes "is_tick_aligned p" and "tick_of p = Inr t"
  shows "is_tick_aligned (p + t)"
proof -
  from assms have p: "1 \<le> p" "t dvd p" by (auto simp: is_tick_aligned_iff)
  note aligned = is_tick_aligned_iff tick_of_def TICK_TABLE_def
  consider "p < 2000" "t = 1" | "2000 \<le> p" "p < 5000" "t = 5" | "5000 \<le> p" "p < 20000" "t = 10"
    | "20000 \<le> p" "p < 50000" "t = 50" | "50000 \<le> p" "p < 200000" "t = 100"
    | "200000 \<le> p" "p < 500000" "t = 500" | "500000 \<le> p" "t = 1000"
    using assms(2) tick_of_bands [OF p(1)] by (force split: if_splits)
  then show ?thesis
  proof cases
    case 1
    with p have "p + t < 2000 \<or> p + t = 2000" by linarith
    with 1 p show ?thesis by (auto simp: aligned)
  next
    case 2
    with p tick_step_le [of t p 5000] have "p + t < 5000 \<or> p + t = 5000" by auto
    with 2 p show ?thesis by (auto simp: aligned)
  next
    case 3
    with p tick_step_le [of t p 20000] have "p + t < 20000 \<or> p + t = 20000" by auto
    with 3 p show ?thesis by (auto simp: aligned)
  next
    case 4
    with p tick_step_le [of t p 50000] have "p + t < 50000 \<or> p + t = 50000" by auto
    with 4 p show ?thesis by (auto simp: aligned)
  next
    case 5
    with p tick_step_le [of t p 200000] have "p + t < 200000 \<or> p + t = 200000" by auto
    with 5 p show ?thesis by (auto simp: aligned)
  next
    case 6
    with p tick_step_le [of t p 500000] have "p + t < 500000 \<or> p + t = 500000" by auto
    with 6 p show ?thesis by (auto simp: aligned)
  next
    case 7
    with p show ?thesis by (auto simp: aligned)
  qed
qed

text \<open>
  The tick grid has no gaps at the band borders: one tick above an aligned price is aligned again.
\<close>

theorem next_tick_is_aligned:
  assumes "is_tick_aligned p" "tick_of p = Inr t"
  shows "is_tick_aligned (p + t) \<and> p < p + t"
  using tick_up_aligned [OF assms] assms tick_of_pos [of p] by (auto simp: is_tick_aligned_iff)

theorem next_tick_is_aligned_witness: "is_tick_aligned (1999 + 1) \<and> is_tick_aligned (199900 + 100)"
proof -
  have "is_tick_aligned 1999" "tick_of 1999 = Inr 1" "is_tick_aligned 199900" "tick_of 199900 = Inr 100"
    by (simp_all add: is_tick_aligned_def tick_of_def TICK_TABLE_def)
  with next_tick_is_aligned [of 1999 1] next_tick_is_aligned [of 199900 100] show ?thesis by blast
qed

end
