(* ===== verification/Risk.thy ===== *)
theory Risk
  imports Ledger Ticks
begin

text \<open>
  The pre-trade gate of \<open>src/execution/risk.py\<close>. \<open>check_intent\<close> raises the first violated
  rule, in the order of the source. \<open>admissible\<close> is what the gate promises of an intent it
  lets through.
\<close>

record risk_limits =
  max_order_notional_krw :: int
  max_position_notional_krw :: int
  max_orders_per_minute :: int
  max_daily_loss_krw :: int
  symbol_whitelist :: "string set"

record risk_context =
  kill_switch :: bool
  unknown_pending :: bool
  orders_last_minute :: int
  ctx_realized_pnl_krw :: int
  position_qty :: int
  open_buy_qty :: int
  open_sell_qty :: int
  orderable_cash_krw :: int
  est_commission_krw :: int
  submit_block_reason :: "string option"

definition reference_price :: "order_intent \<Rightarrow> quote \<Rightarrow> int result" where
  "reference_price intent qt =
     (if i_order_type intent = LIMIT then
        (case i_limit_price intent of
           None \<Rightarrow> Inl (RiskRejectedError PRICE_INVALID ''limit order requires limit_price'')
         | Some p \<Rightarrow> Inr p)
      else if i_side intent = BUY then Inr (q_upper_limit qt)
      else Inr (q_last qt))"

definition check_limit_price :: "order_intent \<Rightarrow> quote \<Rightarrow> unit result" where
  "check_limit_price intent qt =
     (if i_order_type intent = LIMIT then
        (case i_limit_price intent of
           None \<Rightarrow> Inr ()
         | Some limit_price \<Rightarrow>
             if \<not> is_tick_aligned limit_price
             then Inl (RiskRejectedError PRICE_OFF_TICK (''price off tick: '' @ show_int limit_price))
             else if \<not> (q_lower_limit qt \<le> limit_price \<and> limit_price \<le> q_upper_limit qt)
             then Inl (RiskRejectedError PRICE_OUT_OF_BAND (''price out of band: '' @ show_int limit_price))
             else Inr ())
      else Inr ())"

definition check_exposure :: "order_intent \<Rightarrow> int \<Rightarrow> risk_limits \<Rightarrow> risk_context \<Rightarrow> unit result" where
  "check_exposure intent ref limits ctx =
     (let notional = i_qty intent * ref in
      if i_side intent = BUY \<and> ctx_realized_pnl_krw ctx \<le> - max_daily_loss_krw limits
      then Inl (RiskRejectedError DAILY_LOSS_LIMIT ''daily loss limit reached'')
      else if notional > max_order_notional_krw limits
      then Inl (RiskRejectedError NOTIONAL_LIMIT (''notional too large: '' @ show_int notional))
      else if i_side intent = BUY \<and> (position_qty ctx + open_buy_qty ctx + i_qty intent) * ref > max_position_notional_krw limits
      then Inl (RiskRejectedError POSITION_LIMIT ''position limit exceeded'')
      else if i_side intent = BUY \<and> notional + est_commission_krw ctx > orderable_cash_krw ctx
      then Inl (RiskRejectedError INSUFFICIENT_CASH ''insufficient cash'')
      else if i_side intent = SELL \<and> i_qty intent > position_qty ctx - open_sell_qty ctx
      then Inl (RiskRejectedError INSUFFICIENT_POSITION ''insufficient position'')
      else Inr ())"

definition check_intent :: "order_intent \<Rightarrow> quote \<Rightarrow> risk_limits \<Rightarrow> risk_context \<Rightarrow> unit result" where
  "check_intent intent qt limits ctx =
     (if kill_switch ctx then Inl (RiskRejectedError KILL_SWITCH ''kill switch engaged'')
      else case submit_block_reason ctx of Some r \<Rightarrow> Inl (RiskRejectedError ACCOUNT_MISMATCH r) | None \<Rightarrow>
      if unknown_pending ctx then Inl (RiskRejectedError UNKNOWN_PENDING ''unknown order pending for symbol side'')
      else if symbol_whitelist limits \<noteq> {} \<and> i_symbol intent \<notin> symbol_whitelist limits
      then Inl (RiskRejectedError SYMBOL_NOT_ALLOWED (''symbol not allowed: '' @ i_symbol intent))
      else if i_qty intent < 1
      then Inl (RiskRejectedError QTY_INVALID (''qty must be >= 1: '' @ show_int (i_qty intent)))
      else if (i_order_type intent = LIMIT \<and> i_limit_price intent = None)
            \<or> (i_order_type intent = MARKET \<and> i_limit_price intent \<noteq> None)
      then Inl (RiskRejectedError PRICE_INVALID ''limit/market price combination invalid'')
      else if q_halted qt then Inl (RiskRejectedError TRADING_HALTED ''trading halted'')
      else if q_last qt \<ge> 1 \<and> tick_of (q_last qt) \<noteq> Inr (q_tick qt)
      then Inl (RiskRejectedError TICK_TABLE_MISMATCH ''broker tick unit mismatch'')
      else rbind (check_limit_price intent qt) (\<lambda>_.
        if orders_last_minute ctx \<ge> max_orders_per_minute limits
        then Inl (RiskRejectedError ORDER_RATE_LIMIT ''order rate limit exceeded'')
        else rbind (reference_price intent qt) (\<lambda>ref. check_exposure intent ref limits ctx)))"

section \<open>What the gate promises\<close>

definition well_priced :: "order_intent \<Rightarrow> quote \<Rightarrow> bool" where
  "well_priced intent qt \<longleftrightarrow> (case i_order_type intent of
       LIMIT \<Rightarrow> (\<exists>p. i_limit_price intent = Some p \<and> is_tick_aligned p \<and> q_lower_limit qt \<le> p \<and> p \<le> q_upper_limit qt)
     | MARKET \<Rightarrow> i_limit_price intent = None)"

definition within_exposure :: "order_intent \<Rightarrow> int \<Rightarrow> risk_limits \<Rightarrow> risk_context \<Rightarrow> bool" where
  "within_exposure intent ref limits ctx \<longleftrightarrow>
     i_qty intent * ref \<le> max_order_notional_krw limits \<and>
     (case i_side intent of
        BUY \<Rightarrow> - max_daily_loss_krw limits < ctx_realized_pnl_krw ctx
             \<and> (position_qty ctx + open_buy_qty ctx + i_qty intent) * ref \<le> max_position_notional_krw limits
             \<and> i_qty intent * ref + est_commission_krw ctx \<le> orderable_cash_krw ctx
      | SELL \<Rightarrow> i_qty intent + open_sell_qty ctx \<le> position_qty ctx)"

definition admissible :: "order_intent \<Rightarrow> quote \<Rightarrow> risk_limits \<Rightarrow> risk_context \<Rightarrow> bool" where
  "admissible intent qt limits ctx \<longleftrightarrow>
     \<not> kill_switch ctx \<and> submit_block_reason ctx = None \<and> \<not> unknown_pending ctx
     \<and> (symbol_whitelist limits = {} \<or> i_symbol intent \<in> symbol_whitelist limits)
     \<and> 1 \<le> i_qty intent \<and> \<not> q_halted qt \<and> (1 \<le> q_last qt \<longrightarrow> tick_of (q_last qt) = Inr (q_tick qt))
     \<and> well_priced intent qt \<and> orders_last_minute ctx < max_orders_per_minute limits
     \<and> (\<exists>ref. reference_price intent qt = Inr ref \<and> within_exposure intent ref limits ctx)"

lemma check_exposure_iff: "check_exposure intent ref limits ctx = Inr () \<longleftrightarrow> within_exposure intent ref limits ctx"
  by (cases "i_side intent") (auto simp: check_exposure_def within_exposure_def Let_def not_le)

lemma reference_price_cases:
  "reference_price intent qt = Inr ref \<longleftrightarrow>
     (i_order_type intent = LIMIT \<and> i_limit_price intent = Some ref) \<or>
     (i_order_type intent = MARKET \<and> ref = (if i_side intent = BUY then q_upper_limit qt else q_last qt))"
  by (cases "i_order_type intent") (auto simp: reference_price_def split: option.splits)

lemma check_limit_price_iff:
  assumes "(i_order_type intent = LIMIT) = (i_limit_price intent \<noteq> None)"
  shows "check_limit_price intent qt = Inr () \<longleftrightarrow> well_priced intent qt"
  using assms by (cases "i_order_type intent") (auto simp: check_limit_price_def well_priced_def split: option.splits)

lemma check_intent_iff: "check_intent intent qt limits ctx = Inr () \<longleftrightarrow> admissible intent qt limits ctx"
proof (cases "(i_order_type intent = LIMIT) = (i_limit_price intent \<noteq> None)")
  case True
  then show ?thesis
    by (cases "i_order_type intent")
      (auto simp: check_intent_def admissible_def rbind_Inr_iff check_limit_price_iff check_exposure_iff
        split: option.splits)
next
  case False
  then show ?thesis
    by (cases "i_order_type intent")
      (auto simp: check_intent_def admissible_def well_priced_def rbind_Inr_iff split: option.splits)
qed

text \<open>The gate raises nothing but \<open>RiskRejectedError\<close>, so the caller's handler catches every failure.\<close>

lemma check_exposure_error: "check_exposure intent ref limits ctx = Inl e \<Longrightarrow> \<exists>c d. e = RiskRejectedError c d"
  by (auto simp: check_exposure_def Let_def split: if_splits)

lemma reference_price_error: "reference_price intent qt = Inl e \<Longrightarrow> \<exists>c d. e = RiskRejectedError c d"
  by (auto simp: reference_price_def split: if_splits option.splits)

lemma check_limit_price_error: "check_limit_price intent qt = Inl e \<Longrightarrow> \<exists>c d. e = RiskRejectedError c d"
  by (auto simp: check_limit_price_def split: if_splits option.splits)

lemma check_intent_error: "check_intent intent qt limits ctx = Inl e \<Longrightarrow> \<exists>c d. e = RiskRejectedError c d"
  by (auto simp: check_intent_def rbind_Inl_iff check_exposure_error reference_price_error check_limit_price_error
      split: if_splits option.splits)

text \<open>
  C12. The risk gate accepts exactly the admissible intents, and the only exception it raises is a
  risk rejection.
\<close>

theorem check_intent_decides:
  "(check_intent intent qt limits ctx = Inr () \<longleftrightarrow> admissible intent qt limits ctx)
   \<and> (case check_intent intent qt limits ctx of Inl e \<Rightarrow> (\<exists>c d. e = RiskRejectedError c d) | Inr _ \<Rightarrow> True)"
  using check_intent_iff check_intent_error by (auto split: sum.splits)

end
