(* ===== verification/Gateways.thy ===== *)
theory Gateways
  imports Kis_Trading Journal Risk
begin

text \<open>
  The order gateways of \<open>src/execution/gateways.py\<close>. \<open>order_gateway\<close> is the Protocol the order
  manager calls, as a record of the operations on a gateway state \<open>'g\<close>; \<open>'e\<close> is what one call
  meets outside the program (clock reading, network). \<open>paper_gateway\<close> and \<open>live_gateway\<close> are its
  two implementations. The journal and the ledger are the ones the manager owns.
\<close>

record ('g, 'e) order_gateway =
  gw_mode :: execution_mode
  gw_submit :: "'g \<Rightarrow> journal \<Rightarrow> 'e \<Rightarrow> order \<Rightarrow> quote \<Rightarrow> broker_outcome result \<times> 'g \<times> journal"
  gw_cancel :: "'g \<Rightarrow> journal \<Rightarrow> 'e \<Rightarrow> order \<Rightarrow> broker_outcome result \<times> 'g \<times> journal"
  gw_fetch_statuses :: "'g \<Rightarrow> 'e \<Rightarrow> broker_order_status list result"
  gw_orderable_cash :: "'g \<Rightarrow> ledger \<Rightarrow> 'e \<Rightarrow> string \<Rightarrow> int \<Rightarrow> order_type \<Rightarrow> int result"

section \<open>Simulated fills\<close>

definition crosses :: "order_intent \<Rightarrow> int \<Rightarrow> bool" where
  "crosses intent price = (case (if i_order_type intent = LIMIT then i_limit_price intent else None) of
       None \<Rightarrow> True
     | Some limit \<Rightarrow> \<not> (i_side intent = BUY \<and> price > limit) \<and> \<not> (i_side intent = SELL \<and> price < limit))"

fun sweep :: "order_intent \<Rightarrow> (int \<times> int) list \<Rightarrow> int \<Rightarrow> int \<Rightarrow> int \<Rightarrow> int \<times> int" where
  "sweep intent [] filled amount remaining = (filled, amount)"
| "sweep intent ((price, sz) # levels) filled amount remaining =
     (if \<not> crosses intent price then (filled, amount)
      else let take = min remaining sz;
               filled' = filled + take; amount' = amount + take * price; remaining' = remaining - take
           in if remaining' = 0 then (filled', amount') else sweep intent levels filled' amount' remaining')"

definition simulate_paper_fills :: "order_intent \<Rightarrow> quote \<Rightarrow> int \<times> int" where
  "simulate_paper_fills intent qt =
     sweep intent (if i_side intent = BUY then q_asks qt else q_bids qt) 0 0 (i_qty intent)"

section \<open>The paper gateway\<close>

record paper_entry =
  pe_intent :: order_intent
  pe_filled_qty :: int
  pe_filled_amount_krw :: int
  pe_reserve_price :: int
  pe_cancelled :: bool

record paper_state =
  pg_creds :: kis_credentials
  pg_seq :: nat
  pg_book :: "(string, paper_entry) dict"

record paper_env =
  pv_ts :: datetime

definition paper_odno :: "nat \<Rightarrow> string" where
  "paper_odno n = ''P'' @ zfill 8 (show_nat n)"

definition body_json :: "(string, string) dict \<Rightarrow> json" where
  "body_json b = JObj (map (\<lambda>(k, v). (k, JStr v)) b)"

definition paper_submit :: "paper_state \<Rightarrow> journal \<Rightarrow> paper_env \<Rightarrow> order \<Rightarrow> quote \<Rightarrow> broker_outcome result \<times> paper_state \<times> journal" where
  "paper_submit g j env ord qt =
     (let g1 = g\<lparr>pg_seq := Suc (pg_seq g)\<rparr>;
          odno = paper_odno (pg_seq g1);
          (filled, amount) = simulate_paper_fills (o_intent ord) qt;
          (app, j1) = journal_append j (pv_ts env) ''paper_would_send''
            [(''client_id'', JStr (o_client_id ord)), (''broker_order_no'', JStr odno),
             (''tr_id'', JStr (order_tr_id (i_side (o_intent ord)))),
             (''body'', body_json (build_order_body (pg_creds g) ord)), (''quote'', quote_json qt),
             (''simulated_fill_qty'', JInt filled), (''simulated_fill_amount_krw'', JInt amount),
             (''fill_model'', JStr ''paper_l10_sweep_v1'')]
      in case app of
           Inl e \<Rightarrow> (Inl e, g1, j1)
         | Inr _ \<Rightarrow>
             (case reference_price (o_intent ord) qt of
                Inl e \<Rightarrow> (Inl e, g1, j1)
              | Inr ref \<Rightarrow>
                  (Inr \<lparr>out_kind = OUT_ACCEPTED, out_broker_order_no = Some odno, out_broker_org_no = Some ''PAPER'',
                        out_order_time = Some [], out_code = [], out_message = []\<rparr>,
                   g1\<lparr>pg_book := AList.update odno
                      \<lparr>pe_intent = o_intent ord, pe_filled_qty = filled, pe_filled_amount_krw = amount,
                       pe_reserve_price = ref, pe_cancelled = False\<rparr> (pg_book g1)\<rparr>,
                   j1)))"

definition paper_cancel :: "paper_state \<Rightarrow> journal \<Rightarrow> paper_env \<Rightarrow> order \<Rightarrow> broker_outcome result \<times> paper_state \<times> journal" where
  "paper_cancel g j env ord =
     (let no = (case o_broker_order_no ord of None \<Rightarrow> [] | Some n \<Rightarrow> n) in
      case map_of (pg_book g) no of
        None \<Rightarrow> (Inl (ExecutionError ''unknown paper order''), g, j)
      | Some entry \<Rightarrow>
          if pe_filled_qty entry = i_qty (pe_intent entry)
          then (Inr \<lparr>out_kind = OUT_REJECTED, out_broker_order_no = o_broker_order_no ord, out_broker_org_no = None,
                     out_order_time = None, out_code = ''ALREADY_FILLED'', out_message = ''nothing to cancel''\<rparr>, g, j)
          else let g1 = g\<lparr>pg_book := AList.update no (entry\<lparr>pe_cancelled := True\<rparr>) (pg_book g)\<rparr> in
            (case build_cancel_body (pg_creds g) ord of
               Inl e \<Rightarrow> (Inl e, g1, j)
             | Inr body \<Rightarrow>
                 let (app, j1) = journal_append j (pv_ts env) ''paper_would_cancel''
                       [(''client_id'', JStr (o_client_id ord)), (''tr_id'', JStr TR_CANCEL), (''body'', body_json body)]
                 in case app of
                      Inl e \<Rightarrow> (Inl e, g1, j1)
                    | Inr _ \<Rightarrow>
                        (Inr \<lparr>out_kind = OUT_ACCEPTED, out_broker_order_no = o_broker_order_no ord,
                              out_broker_org_no = Some ''PAPER'', out_order_time = None, out_code = [], out_message = []\<rparr>,
                         g1, j1)))"

definition paper_status :: "string \<Rightarrow> paper_entry \<Rightarrow> broker_order_status" where
  "paper_status odno entry =
     \<lparr>s_broker_order_no = odno, s_original_order_no = [], s_org_no = ''PAPER'',
      s_symbol = i_symbol (pe_intent entry), s_side = i_side (pe_intent entry),
      s_ordered_qty = i_qty (pe_intent entry),
      s_price = (case i_limit_price (pe_intent entry) of None \<Rightarrow> 0 | Some p \<Rightarrow> p),
      s_filled_qty = pe_filled_qty entry, s_filled_amount_krw = pe_filled_amount_krw entry,
      s_remaining_qty = (if pe_cancelled entry then 0 else i_qty (pe_intent entry) - pe_filled_qty entry),
      s_rejected_qty = 0, s_cancelled = pe_cancelled entry, s_order_time = []\<rparr>"

definition paper_fetch_statuses :: "paper_state \<Rightarrow> paper_env \<Rightarrow> broker_order_status list result" where
  "paper_fetch_statuses g env = Inr (map (\<lambda>(odno, entry). paper_status odno entry) (pg_book g))"

definition paper_reserved :: "paper_state \<Rightarrow> int" where
  "paper_reserved g = sum_list (map (\<lambda>e. (i_qty (pe_intent e) - pe_filled_qty e) * pe_reserve_price e)
     (filter (\<lambda>e. \<not> pe_cancelled e \<and> i_side (pe_intent e) = BUY) (dict_values (pg_book g))))"

definition paper_orderable_cash :: "paper_state \<Rightarrow> ledger \<Rightarrow> paper_env \<Rightarrow> string \<Rightarrow> int \<Rightarrow> order_type \<Rightarrow> int result" where
  "paper_orderable_cash g l env symbol price ty = Inr (cash_krw l - paper_reserved g)"

definition paper_gateway :: "(paper_state, paper_env) order_gateway" where
  "paper_gateway = \<lparr>gw_mode = PAPER, gw_submit = paper_submit, gw_cancel = paper_cancel,
     gw_fetch_statuses = paper_fetch_statuses, gw_orderable_cash = paper_orderable_cash\<rparr>"

section \<open>The live gateway\<close>

record live_state =
  lg_creds :: kis_credentials
  lg_venue :: kis_venue

record live_env =
  lv_ts :: datetime
  lv_post :: post_env
  lv_orders :: "nat \<Rightarrow> get_env"
  lv_cash :: get_env

definition live_init :: "execution_mode \<Rightarrow> kis_venue \<Rightarrow> kis_credentials \<Rightarrow> live_state result" where
  "live_init mode venue creds =
     (if mode = PAPER then Inl (ValueError ''LiveGateway does not support paper mode'')
      else if (mode = MOCK) \<noteq> (venue = VENUE_MOCK)
      then Inl (ValueError ''gateway mode disagrees with client venue'')
      else Inr \<lparr>lg_creds = creds, lg_venue = venue\<rparr>)"

definition live_send :: "live_state \<Rightarrow> journal \<Rightarrow> live_env \<Rightarrow> string \<Rightarrow> string \<Rightarrow> (string, string) dict \<Rightarrow> broker_outcome result \<times> live_state \<times> journal" where
  "live_send g j env client_id canonical body =
     (case wire_tr_id (lg_venue g) canonical of
        Inl e \<Rightarrow> (Inl e, g, j)
      | Inr wire_tr \<Rightarrow>
          let (app, j1) = journal_append j (lv_ts env) ''live_send''
                [(''client_id'', JStr client_id), (''tr_id'', JStr wire_tr), (''body'', body_json body)]
          in case app of
               Inl e \<Rightarrow> (Inl e, g, j1)
             | Inr _ \<Rightarrow> (fst (post_order (lg_venue g) (lv_post env) canonical), g, j1))"

definition live_submit :: "live_state \<Rightarrow> journal \<Rightarrow> live_env \<Rightarrow> order \<Rightarrow> quote \<Rightarrow> broker_outcome result \<times> live_state \<times> journal" where
  "live_submit g j env ord qt =
     live_send g j env (o_client_id ord) (order_tr_id (i_side (o_intent ord))) (build_order_body (lg_creds g) ord)"

definition live_cancel :: "live_state \<Rightarrow> journal \<Rightarrow> live_env \<Rightarrow> order \<Rightarrow> broker_outcome result \<times> live_state \<times> journal" where
  "live_cancel g j env ord = (case build_cancel_body (lg_creds g) ord of
       Inl e \<Rightarrow> (Inl e, g, j)
     | Inr body \<Rightarrow> live_send g j env (o_client_id ord) TR_CANCEL body)"

definition live_fetch_statuses :: "live_state \<Rightarrow> live_env \<Rightarrow> broker_order_status list result" where
  "live_fetch_statuses g env = get_daily_orders (lv_orders env)"

definition live_orderable_cash :: "live_state \<Rightarrow> ledger \<Rightarrow> live_env \<Rightarrow> string \<Rightarrow> int \<Rightarrow> order_type \<Rightarrow> int result" where
  "live_orderable_cash g l env symbol price ty = get_orderable_cash (lv_cash env)"

definition live_gateway :: "execution_mode \<Rightarrow> (live_state, live_env) order_gateway" where
  "live_gateway mode = \<lparr>gw_mode = mode, gw_submit = live_submit, gw_cancel = live_cancel,
     gw_fetch_statuses = live_fetch_statuses, gw_orderable_cash = live_orderable_cash\<rparr>"

section \<open>The sweep is the cheapest way to fill\<close>

text \<open>
  Reference: take as much as is wanted of every level in turn. On the levels an intent
  crosses, the loop of the source with its early exits computes the same.
\<close>

fun ladder_fill :: "(int \<times> int) list \<Rightarrow> int \<Rightarrow> int \<times> int" where
  "ladder_fill [] r = (0, 0)"
| "ladder_fill ((p, s) # ls) r =
     (let k = min r s; (f, a) = ladder_fill ls (r - k) in (k + f, k * p + a))"

abbreviation nonneg_sizes :: "(int \<times> int) list \<Rightarrow> bool" where
  "nonneg_sizes ls \<equiv> list_all (\<lambda>(p, s). 0 \<le> s) ls"

definition crossed :: "order_intent \<Rightarrow> (int \<times> int) list \<Rightarrow> (int \<times> int) list" where
  "crossed intent ls = takeWhile (\<lambda>(p, s). crosses intent p) ls"

lemma ladder_fill_zero: "nonneg_sizes ls \<Longrightarrow> ladder_fill ls 0 = (0, 0)"
  by (induction ls) auto

lemma sweep_ladder:
  assumes "nonneg_sizes ls"
  shows "sweep intent ls f a r = (f + fst (ladder_fill (crossed intent ls) r), a + snd (ladder_fill (crossed intent ls) r))"
  using assms
proof (induction ls arbitrary: f a r)
  case Nil
  then show ?case by (simp add: crossed_def)
next
  case (Cons lv ls)
  obtain p s where lv: "lv = (p, s)" by (cases lv)
  have nn: "nonneg_sizes (crossed intent ls)"
    using Cons.prems by (auto simp: crossed_def list_all_iff dest: set_takeWhileD)
  show ?case
  proof (cases "crosses intent p")
    case False
    with lv show ?thesis by (simp add: crossed_def)
  next
    case True
    then have "crossed intent (lv # ls) = (p, s) # crossed intent ls" by (simp add: crossed_def lv)
    with True Cons lv nn show ?thesis
      by (auto simp: Let_def ladder_fill_zero split: prod.splits)
  qed
qed

lemma simulate_paper_fills_ladder:
  assumes "nonneg_sizes (q_asks qt)" "nonneg_sizes (q_bids qt)"
  shows "simulate_paper_fills intent qt
    = ladder_fill (crossed intent (if i_side intent = BUY then q_asks qt else q_bids qt)) (i_qty intent)"
  using assms by (simp add: simulate_paper_fills_def sweep_ladder)

lemma ladder_fill_filled:
  assumes "nonneg_sizes ls" "0 \<le> r"
  shows "fst (ladder_fill ls r) = min r (\<Sum>(p, s)\<leftarrow>ls. s)"
  using assms
proof (induction ls arbitrary: r)
  case Nil
  then show ?case by simp
next
  case (Cons lv ls)
  obtain p s where lv: "lv = (p, s)" by (cases lv)
  have "0 \<le> (\<Sum>(p, s)\<leftarrow>ls. s)"
    using Cons.prems by (intro sum_list_nonneg) (auto simp: list_all_iff)
  moreover have "fst (ladder_fill ls (r - min r s)) = min (r - min r s) (\<Sum>(p, s)\<leftarrow>ls. s)"
    using Cons.prems lv by (intro Cons.IH) auto
  ultimately show ?case using Cons.prems lv by (auto simp: Let_def split: prod.splits)
qed

text \<open>An allocation takes some of each level; the sweep costs no more than any that fills as much.\<close>

definition allocation :: "(int \<times> int) list \<Rightarrow> int list \<Rightarrow> bool" where
  "allocation ls ts = list_all2 (\<lambda>(p, s) t. 0 \<le> t \<and> t \<le> s) ls ts"

definition alloc_cost :: "(int \<times> int) list \<Rightarrow> int list \<Rightarrow> int" where
  "alloc_cost ls ts = sum_list (map2 (\<lambda>(p, s) t. t * p) ls ts)"

lemma alloc_cost_ge:
  assumes "allocation ls ts" "\<forall>(p, s) \<in> set ls. m \<le> p"
  shows "m * sum_list ts \<le> alloc_cost ls ts"
  using assms unfolding allocation_def
proof (induction rule: list_all2_induct)
  case Nil
  then show ?case by (simp add: alloc_cost_def)
next
  case (Cons lv ls t ts)
  obtain p s where lv: "lv = (p, s)" by (cases lv)
  with Cons have "t * m \<le> t * p" by (intro mult_left_mono) auto
  with Cons lv show ?case by (simp add: alloc_cost_def algebra_simps)
qed

lemma ladder_fill_cheapest:
  assumes "allocation ls ts" "sorted_wrt (\<lambda>(p, s) (p', s'). p \<le> p') ls" "\<forall>(p, s) \<in> set ls. m \<le> p"
    and "nonneg_sizes ls" "0 \<le> r" "fst (ladder_fill ls r) \<le> sum_list ts"
  shows "snd (ladder_fill ls r) + (sum_list ts - fst (ladder_fill ls r)) * m \<le> alloc_cost ls ts"
  using assms
proof (induction ls arbitrary: ts r m)
  case Nil
  then show ?case by (simp add: allocation_def alloc_cost_def)
next
  case (Cons lv ls)
  obtain p s where lv: "lv = (p, s)" by (cases lv)
  from Cons.prems(1) lv obtain t ts' where ts: "ts = t # ts'" "0 \<le> t" "t \<le> s" "allocation ls ts'"
    by (auto simp: allocation_def list_all2_Cons1)
  have mp: "m \<le> p" and pmin: "\<forall>(p', s') \<in> set ls. p \<le> p'" and srt: "sorted_wrt (\<lambda>(p, s) (p', s'). p \<le> p') ls"
    using Cons.prems lv by auto
  have cost: "alloc_cost (lv # ls) ts = t * p + alloc_cost ls ts'"
    by (simp add: alloc_cost_def ts lv)
  show ?case
  proof (cases "r \<le> s")
    case True
    have "p * sum_list ts' \<le> alloc_cost ls ts'" using ts(4) pmin by (rule alloc_cost_ge)
    then have "p * sum_list ts \<le> alloc_cost (lv # ls) ts" unfolding cost by (simp add: ts algebra_simps)
    moreover have fill: "ladder_fill (lv # ls) r = (r, r * p)"
      using True Cons.prems(4) by (simp add: lv ladder_fill_zero)
    moreover have "(sum_list ts - r) * m \<le> (sum_list ts - r) * p"
      using mp Cons.prems(6) fill by (intro mult_left_mono) auto
    ultimately show ?thesis by (simp add: algebra_simps)
  next
    case False
    define f1 a1 where "f1 = fst (ladder_fill ls (r - s))" and "a1 = snd (ladder_fill ls (r - s))"
    have fill: "ladder_fill (lv # ls) r = (s + f1, s * p + a1)"
      using False by (simp add: lv Let_def f1_def a1_def split: prod.splits)
    have "a1 + (sum_list ts' - f1) * p \<le> alloc_cost ls ts'"
      unfolding f1_def a1_def using Cons.prems ts pmin srt False fill lv
      by (intro Cons.IH) (auto simp: f1_def [symmetric])
    moreover have "(sum_list ts - (s + f1)) * m \<le> (sum_list ts - (s + f1)) * p"
      using mp Cons.prems(6) fill by (intro mult_left_mono) auto
    ultimately show ?thesis unfolding cost by (simp add: fill ts algebra_simps)
  qed
qed

text \<open>No fill is worse than the limit.\<close>

lemma ladder_fill_buy_bound:
  assumes "nonneg_sizes ls" "0 \<le> r" "\<forall>(p, s) \<in> set ls. p \<le> m"
  shows "snd (ladder_fill ls r) \<le> fst (ladder_fill ls r) * m"
  using assms
proof (induction ls arbitrary: r)
  case Nil
  then show ?case by simp
next
  case (Cons lv ls)
  obtain p s where lv: "lv = (p, s)" by (cases lv)
  have "min r s * p \<le> min r s * m" using Cons.prems lv by (intro mult_left_mono) auto
  with Cons.IH [of "r - min r s"] Cons.prems lv show ?case
    by (auto simp: Let_def algebra_simps split: prod.splits)
qed

lemma ladder_fill_sell_bound:
  assumes "nonneg_sizes ls" "0 \<le> r" "\<forall>(p, s) \<in> set ls. m \<le> p"
  shows "fst (ladder_fill ls r) * m \<le> snd (ladder_fill ls r)"
  using assms
proof (induction ls arbitrary: r)
  case Nil
  then show ?case by simp
next
  case (Cons lv ls)
  obtain p s where lv: "lv = (p, s)" by (cases lv)
  have "min r s * m \<le> min r s * p" using Cons.prems lv by (intro mult_left_mono) auto
  with Cons.IH [of "r - min r s"] Cons.prems lv show ?case
    by (auto simp: Let_def algebra_simps split: prod.splits)
qed

section \<open>What the order manager relies on\<close>

text \<open>
  The contract of the Protocol: a gateway writes to the journal only, and only lines of its own
  kind about the order it is given; the outcome of a submission carries a broker number exactly
  when the order was accepted.
\<close>

definition GATEWAY_EVENTS :: "string list" where
  "GATEWAY_EVENTS = [''paper_would_send'', ''paper_would_cancel'', ''live_send'']"

definition gateway_line :: "execution_mode \<Rightarrow> string \<Rightarrow> jobj \<Rightarrow> bool" where
  "gateway_line mode cid r \<longleftrightarrow> jget r ''client_id'' = JStr cid \<and> jget r ''mode'' = JStr (mode_value mode)
     \<and> (\<exists>ev \<in> set GATEWAY_EVENTS. jget r ''event'' = JStr ev)"

definition journal_extends :: "string \<Rightarrow> journal \<Rightarrow> journal \<Rightarrow> bool" where
  "journal_extends cid j j' \<longleftrightarrow> j_mode j' = j_mode j \<and> j_torn j' = j_torn j
     \<and> (\<exists>ls. j_lines j' = j_lines j @ ls \<and> (\<forall>(d, r) \<in> set ls. gateway_line (j_mode j) cid r))"

lemma journal_extends_refl [simp]: "journal_extends cid j j"
  by (simp add: journal_extends_def)

lemma journal_append_extends:
  assumes "ev \<in> set GATEWAY_EVENTS" "plain_fields ((''client_id'', JStr cid) # rest)"
  shows "journal_extends cid j (snd (journal_append j ts ev ((''client_id'', JStr cid) # rest)))"
  using assms(1) append_record_lookup [OF assms(2)]
  by (auto simp: journal_extends_def journal_append_def gateway_line_def jget_def)

definition clean_outcome :: "broker_outcome \<Rightarrow> bool" where
  "clean_outcome oc \<longleftrightarrow> (if out_kind oc = OUT_ACCEPTED then out_broker_order_no oc \<noteq> None else unnumbered oc)"

locale gateway_laws =
  fixes gw :: "('g, 'e) order_gateway"
  assumes submit_journal: "journal_extends (o_client_id ord) j (snd (snd (gw_submit gw g j e ord qt)))"
    and cancel_journal: "journal_extends (o_client_id ord) j (snd (snd (gw_cancel gw g j e ord)))"
    and submit_number: "fst (gw_submit gw g j e ord qt) = Inr oc \<Longrightarrow>
          clean_outcome oc"

lemma paper_submit_journal: "journal_extends (o_client_id ord) j (snd (snd (paper_submit g j env ord qt)))"
proof -
  have "journal_extends (o_client_id ord) j (snd (journal_append j (pv_ts env) ''paper_would_send''
            [(''client_id'', JStr (o_client_id ord)), (''broker_order_no'', JStr odno),
             (''tr_id'', JStr (order_tr_id (i_side (o_intent ord)))),
             (''body'', body_json (build_order_body (pg_creds g) ord)), (''quote'', quote_json qt),
             (''simulated_fill_qty'', JInt filled), (''simulated_fill_amount_krw'', JInt amount),
             (''fill_model'', JStr ''paper_l10_sweep_v1'')]))" for odno filled amount
    by (rule journal_append_extends) (auto simp: GATEWAY_EVENTS_def plain_fields_def)
  then show ?thesis
    by (auto simp: paper_submit_def Let_def case_prod_beta split: sum.splits)
qed

lemma paper_cancel_journal: "journal_extends (o_client_id ord) j (snd (snd (paper_cancel g j env ord)))"
proof -
  have "journal_extends (o_client_id ord) j (snd (journal_append j (pv_ts env) ''paper_would_cancel''
      [(''client_id'', JStr (o_client_id ord)), (''tr_id'', JStr TR_CANCEL), (''body'', body_json body)]))" for body
    by (rule journal_append_extends) (auto simp: GATEWAY_EVENTS_def plain_fields_def)
  then show ?thesis
    by (auto simp: paper_cancel_def Let_def case_prod_beta split: option.splits sum.splits)
qed

lemma live_send_journal: "journal_extends cid j (snd (snd (live_send g j env cid tr body)))"
proof -
  have "journal_extends cid j (snd (journal_append j (lv_ts env) ''live_send''
      [(''client_id'', JStr cid), (''tr_id'', JStr wire_tr), (''body'', body_json body)]))" for wire_tr
    by (rule journal_append_extends) (auto simp: GATEWAY_EVENTS_def plain_fields_def)
  then show ?thesis
    by (auto simp: live_send_def Let_def case_prod_beta split: sum.splits)
qed

lemma post_order_number:
  assumes "fst (post_order venue env tr) = Inr oc"
  shows "clean_outcome oc"
proof -
  from assms have "fst (post_loop env 0 False 0) = Inr oc"
    by (auto simp: post_order_def split: sum.splits)
  from post_loop_outcome [OF this] show ?thesis
    by (auto simp: last_reply_explains_def clean_outcome_def split: outcome_kind.splits)
qed

lemma paper_submit_number:
  assumes "fst (paper_submit g j env ord qt) = Inr oc"
  shows "clean_outcome oc"
  using assms by (auto simp: paper_submit_def clean_outcome_def Let_def case_prod_beta split: sum.splits)

interpretation paper_gw: gateway_laws paper_gateway
  by unfold_locales (simp_all add: paper_gateway_def paper_submit_journal paper_cancel_journal paper_submit_number)

interpretation live_gw: gateway_laws "live_gateway mode"
proof
  show "journal_extends (o_client_id ord) j (snd (snd (gw_submit (live_gateway mode) g j e ord qt)))" for ord j g e qt
    by (simp add: live_gateway_def live_submit_def live_send_journal)
  show "journal_extends (o_client_id ord) j (snd (snd (gw_cancel (live_gateway mode) g j e ord)))" for ord j g e
    by (auto simp: live_gateway_def live_cancel_def live_send_journal split: sum.splits)
  show "clean_outcome oc"
    if "fst (gw_submit (live_gateway mode) g j e ord qt) = Inr oc" for g j e ord qt oc
    using that by (auto simp: live_gateway_def live_submit_def live_send_def Let_def case_prod_beta post_order_number
        split: sum.splits)
qed

section \<open>Paper fills\<close>

text \<open>
  C13. The paper gateway's sweep of the book is the best execution available: it fills as much as the
  crossing levels hold, never trades through the limit, and no other way of buying as much from those
  levels is cheaper.
\<close>

theorem paper_buy_is_cheapest:
  assumes "i_side intent = BUY" "0 \<le> i_qty intent" "nonneg_sizes (q_asks qt)" "nonneg_sizes (q_bids qt)"
    and "sorted_wrt (\<lambda>(p, s) (p', s'). p \<le> p') (q_asks qt)" "\<forall>(p, s) \<in> set (q_asks qt). 0 \<le> p"
  shows "fst (simulate_paper_fills intent qt) = min (i_qty intent) (\<Sum>(p, s)\<leftarrow>crossed intent (q_asks qt). s)
    \<and> (\<forall>limit. i_order_type intent = LIMIT \<longrightarrow> i_limit_price intent = Some limit \<longrightarrow>
         snd (simulate_paper_fills intent qt) \<le> fst (simulate_paper_fills intent qt) * limit)
    \<and> (\<forall>ts. allocation (crossed intent (q_asks qt)) ts \<longrightarrow> fst (simulate_paper_fills intent qt) \<le> sum_list ts \<longrightarrow>
         snd (simulate_paper_fills intent qt) \<le> alloc_cost (crossed intent (q_asks qt)) ts)"
proof -
  let ?ls = "crossed intent (q_asks qt)"
  have eq: "simulate_paper_fills intent qt = ladder_fill ?ls (i_qty intent)"
    using simulate_paper_fills_ladder [OF assms(3,4), of intent] assms(1) by simp
  have sub: "set ?ls \<subseteq> set (q_asks qt)" unfolding crossed_def by (auto dest: set_takeWhileD)
  have nn: "nonneg_sizes ?ls" using assms(3) sub by (auto simp: list_all_iff)
  have so: "sorted_wrt (\<lambda>(p, s) (p', s'). p \<le> p') ?ls"
    using assms(5) unfolding crossed_def by (rule sorted_wrt_takeWhile)
  have pos: "\<forall>(p, s) \<in> set ?ls. 0 \<le> p" using assms(6) sub by blast
  have lim: "\<forall>(p, s) \<in> set ?ls. p \<le> limit" if "i_order_type intent = LIMIT" "i_limit_price intent = Some limit" for limit
    using that assms(1) unfolding crossed_def by (fastforce simp: crosses_def dest: set_takeWhileD)
  show ?thesis
    unfolding eq
    using ladder_fill_filled [OF nn assms(2)] ladder_fill_buy_bound [OF nn assms(2)] lim
      ladder_fill_cheapest [OF _ so pos nn assms(2)]
    by auto
qed

theorem paper_buy_is_cheapest_witness:
  "let intent = \<lparr>i_symbol = ''A'', i_side = BUY, i_qty = 5, i_order_type = LIMIT, i_limit_price = Some 101, i_tag = []\<rparr>;
       qt = \<lparr>q_symbol = ''A'', q_last = 100, q_upper_limit = 130, q_lower_limit = 70, q_tick = 1, q_halted = False,
             q_asks = [(100, 2), (101, 2), (102, 9)], q_bids = []\<rparr>
   in simulate_paper_fills intent qt = (4, 402) \<and> 402 \<le> 4 * (101::int)"
proof -
  let ?i = "\<lparr>i_symbol = ''A'', i_side = BUY, i_qty = 5, i_order_type = LIMIT, i_limit_price = Some 101, i_tag = []\<rparr>"
  let ?q = "\<lparr>q_symbol = ''A'', q_last = 100, q_upper_limit = 130, q_lower_limit = 70, q_tick = 1, q_halted = False,
             q_asks = [(100, 2), (101, 2), (102, 9)], q_bids = []\<rparr>"
  have v: "simulate_paper_fills ?i ?q = (4, 402)" by (simp add: simulate_paper_fills_def crosses_def)
  from paper_buy_is_cheapest [of ?i ?q] v show ?thesis by (simp add: Let_def)
qed

end
