(* ===== verification/Recovery.thy ===== *)
theory Recovery
  imports Ledger Journal "HOL-Library.List_Lexorder" "HOL-Library.Char_ord"
begin

text \<open>
  Restoring a session from the day's journal, \<open>src/execution/recovery.py\<close>. A record is a JSON
  object as \<open>read_day\<close> returns it. Exception texts stop before an interpolated \<open>repr\<close>.
  \<open>datetime.fromisoformat\<close> is modelled on the extended calendar forms (the ones \<open>isoformat\<close>
  writes, with a shorter or longer clock); the compact and week-date forms are not. A
  broker number that is not a string keeps its text.
\<close>

section \<open>Reading records\<close>

definition parse_ts :: "json \<Rightarrow> datetime result" where
  "parse_ts raw = (case fromisoformat (py_str raw) of
       None \<Rightarrow> Inl (ExecutionError ''invalid journal ts'')
     | Some (day, tod, None) \<Rightarrow> Inl (ExecutionError ''journal timestamp must be timezone-aware'')
     | Some (day, tod, Some off) \<Rightarrow> Inr \<lparr>dt_date = day, dt_tod = tod, dt_off = off\<rparr>)"

text \<open>\<open>str.rsplit("-", 1)[1]\<close>: what follows the last dash.\<close>

definition rsplit_dash :: "string \<Rightarrow> string option" where
  "rsplit_dash s = (if CHR ''-'' \<in> set s then Some (rev (takeWhile (\<lambda>c. c \<noteq> CHR ''-'') (rev s))) else None)"

definition seq_of :: "json \<Rightarrow> nat result" where
  "seq_of client_id = (case rsplit_dash (py_str client_id) of
       None \<Rightarrow> Inl (ExecutionError ''invalid client_id'')
     | Some suffix \<Rightarrow>
         if suffix = [] \<or> \<not> list_all is_digit suffix
         then Inl (ExecutionError ''non-numeric client_id suffix'')
         else Inr (parse_nat suffix))"

text \<open>\<open>int(text)\<close>: surrounding blanks, one sign, digits with single underscores between them.\<close>

fun grouped :: "string \<Rightarrow> bool" where
  "grouped [] = False"
| "grouped [c] = is_digit c"
| "grouped (c # d # r) = (is_digit c \<and> (if d = CHR ''_'' then grouped r else grouped (d # r)))"

definition int_text :: "string \<Rightarrow> int option" where
  "int_text s = (let (neg, t) = split_sign (strip s) in
     if grouped t then (let n = int (parse_nat (filter is_digit t)) in Some (if neg then - n else n)) else None)"

fun integer :: "json \<Rightarrow> int result" where
  "integer (JInt i) = Inr i"
| "integer (JStr s) = (case int_text s of None \<Rightarrow> Inl (ExecutionError ''invalid journal integer'') | Some i \<Rightarrow> Inr i)"
| "integer _ = Inl (ExecutionError ''journal value must be an integer'')"

definition side_of_value :: "string \<Rightarrow> side option" where
  "side_of_value s = (if s = ''buy'' then Some BUY else if s = ''sell'' then Some SELL else None)"

definition order_type_of_value :: "string \<Rightarrow> order_type option" where
  "order_type_of_value s = (if s = ''limit'' then Some LIMIT else if s = ''market'' then Some MARKET else None)"

definition order_status_of_value :: "string \<Rightarrow> order_status option" where
  "order_status_of_value s =
     find (\<lambda>st. order_status_value st = s) [PENDING_SUBMIT, ACCEPTED, PARTIALLY_FILLED, FILLED, CANCELLED, REJECTED, UNKNOWN]"

text \<open>\<open>raw[k]\<close> inside a \<open>try\<close> that turns \<open>KeyError\<close> and \<open>ValueError\<close> into \<open>ExecutionError\<close>.\<close>

definition need :: "string \<Rightarrow> 'a option \<Rightarrow> 'a result" where
  "need msg x = (case x of None \<Rightarrow> Inl (ExecutionError msg) | Some v \<Rightarrow> Inr v)"

definition intent_of :: "json \<Rightarrow> order_intent result" where
  "intent_of raw = (case raw of JObj kvs \<Rightarrow>
       rbind (need ''invalid intent record'' (map_of kvs ''symbol'')) (\<lambda>sy.
       rbind (need ''invalid intent record'' (map_of kvs ''side'')) (\<lambda>sd.
       rbind (need ''invalid intent record'' (side_of_value (py_str sd))) (\<lambda>side.
       rbind (need ''invalid intent record'' (map_of kvs ''qty'')) (\<lambda>qy.
       rbind (integer qy) (\<lambda>qty.
       rbind (need ''invalid intent record'' (map_of kvs ''order_type'')) (\<lambda>ot.
       rbind (need ''invalid intent record'' (order_type_of_value (py_str ot))) (\<lambda>otype.
       rbind (if jget kvs ''limit_price'' = JNull then Inr None
              else rbind (integer (jget kvs ''limit_price'')) (\<lambda>p. Inr (Some p))) (\<lambda>price.
         Inr \<lparr>i_symbol = py_str sy, i_side = side, i_qty = qty, i_order_type = otype,
              i_limit_price = price, i_tag = str_get kvs ''tag'' []\<rparr>))))))))
     | _ \<Rightarrow> Inl (ExecutionError ''invalid intent record''))"

text \<open>\<open>outcome.get(k)\<close> of a text field and \<open>str(x or "") or None\<close>.\<close>

definition text_opt :: "json \<Rightarrow> string option" where
  "text_opt v = (if v = JNull then None else Some (py_str v))"

definition text_or_none :: "json \<Rightarrow> string option" where
  "text_or_none v = (if \<not> truthy v \<or> py_str v = [] then None else Some (py_str v))"

section \<open>Replaying the journal\<close>

record recovered_session =
  rs_orders :: "(string, order) dict"
  rs_next_seq :: nat
  rs_submit_times :: "datetime list"
  rs_ledger :: "ledger option"

definition ORDER_EVENTS :: "string list" where
  "ORDER_EVENTS = [''submit_result'', ''unknown_adopted'', ''unknown_resolved'', ''fill'', ''status'']"

text \<open>The first loop: the highest sequence number and the submission times.\<close>

definition scan_record :: "jobj \<Rightarrow> nat \<times> datetime list \<Rightarrow> (nat \<times> datetime list) result" where
  "scan_record rec acc =
     (let event = jget rec ''event'' in
      rbind (if event = JStr ''intent'' \<or> event = JStr ''risk_reject''
             then rbind (seq_of (jget rec ''client_id'')) (\<lambda>n. Inr (max (fst acc) n)) else Inr (fst acc)) (\<lambda>next_seq.
      rbind (if event = JStr ''intent''
             then rbind (parse_ts (jget rec ''ts'')) (\<lambda>t. Inr (snd acc @ [t])) else Inr (snd acc)) (\<lambda>times.
        Inr (next_seq, times))))"

definition replay_submit_result :: "jobj \<Rightarrow> order \<Rightarrow> order result" where
  "replay_submit_result rec ord =
     rbind (need ''invalid status'' (order_status_of_value (py_str (jget rec ''status'')))) (\<lambda>status.
     case jget rec ''outcome'' of JObj oc \<Rightarrow>
       Inr (ord\<lparr>o_status := status, o_broker_order_no := text_opt (jget oc ''broker_order_no''),
                o_broker_org_no := text_opt (jget oc ''broker_org_no''),
                o_broker_order_time := text_opt (jget oc ''order_time''),
                o_reject_code := (if status = REJECTED then text_or_none (jget oc ''code'') else None),
                o_reject_message := (if status = REJECTED then text_or_none (jget oc ''message'') else None)\<rparr>)
     | _ \<Rightarrow> Inl (ExecutionError ''invalid submit_result outcome''))"

definition replay_fill :: "jobj \<Rightarrow> order \<Rightarrow> order result" where
  "replay_fill rec ord =
     (if \<not> has_key rec ''cumulative_amount_krw'' then Inl (ExecutionError ''fill without cumulative_amount_krw'')
      else rbind (need ''invalid fill record'' (map_of rec ''cumulative_qty'')) (\<lambda>v1. rbind (integer v1) (\<lambda>qty.
           rbind (integer (jget rec ''cumulative_amount_krw'')) (\<lambda>amount.
           rbind (need ''invalid fill record'' (map_of rec ''delta_qty'')) (\<lambda>v2. rbind (integer v2) (\<lambda>delta_qty.
           rbind (need ''invalid fill record'' (map_of rec ''delta_amount_krw'')) (\<lambda>v3. rbind (integer v3) (\<lambda>delta_amount.
             if \<not> (o_filled_qty ord < qty \<and> qty \<le> i_qty (o_intent ord)) \<or> amount < o_filled_amount_krw ord
                \<or> delta_qty \<noteq> qty - o_filled_qty ord \<or> delta_amount \<noteq> amount - o_filled_amount_krw ord
             then Inl (ExecutionError ''inconsistent cumulative fill'')
             else Inr (ord\<lparr>o_filled_qty := qty, o_filled_amount_krw := amount\<rparr>)))))))))"

definition replay_status :: "jobj \<Rightarrow> order \<Rightarrow> order result" where
  "replay_status rec ord =
     rbind (need ''invalid status'' (order_status_of_value (py_str (jget rec ''status'')))) (\<lambda>status.
     rbind (case map_of rec ''filled_qty'' of None \<Rightarrow> Inr () | Some v \<Rightarrow>
              rbind (integer v) (\<lambda>n. if n \<noteq> o_filled_qty ord
                then Inl (ExecutionError ''status quantity without matching fill'') else Inr ())) (\<lambda>_.
       Inr (ord\<lparr>o_status := status\<rparr>)))"

definition replay_event :: "jobj \<Rightarrow> order \<Rightarrow> order result" where
  "replay_event rec ord =
     (let event = jget rec ''event'' in
      if event = JStr ''submit_result'' then replay_submit_result rec ord
      else if event = JStr ''unknown_adopted'' then
        Inr (ord\<lparr>o_broker_order_no := text_opt (jget rec ''broker_order_no''),
                 o_broker_org_no := text_opt (jget rec ''broker_org_no''),
                 o_broker_order_time := text_opt (jget rec ''order_time'')\<rparr>)
      else if event = JStr ''unknown_resolved'' then
        Inr (ord\<lparr>o_status := REJECTED, o_reject_code := Some ''unknown_resolved'',
                 o_reject_message := text_or_none (jget rec ''reason'')\<rparr>)
      else if event = JStr ''fill'' then replay_fill rec ord
      else if event = JStr ''status'' then replay_status rec ord
      else Inr ord)"

fun hashable :: "json \<Rightarrow> bool" where
  "hashable (JList _) = False"
| "hashable (JObj _) = False"
| "hashable _ = True"

text \<open>The second loop, one record.\<close>

definition replay_record :: "jobj \<Rightarrow> (string, order) dict \<Rightarrow> (string, order) dict result" where
  "replay_record rec orders =
     (let event = jget rec ''event'' in
      if event = JStr ''intent'' then
        (let cid = py_str (jget rec ''client_id'') in
         if map_of orders cid \<noteq> None then Inl (ExecutionError (''duplicate intent: '' @ cid))
         else rbind (seq_of (JStr cid)) (\<lambda>_. rbind (intent_of (jget rec ''intent'')) (\<lambda>intent.
              rbind (parse_ts (jget rec ''ts'')) (\<lambda>created.
                Inr (AList.update cid \<lparr>o_client_id = cid, o_intent = intent, o_status = PENDING_SUBMIT,
                       o_created_at = created, o_broker_order_no = None, o_broker_org_no = None,
                       o_broker_order_time = None, o_filled_qty = 0, o_filled_amount_krw = 0,
                       o_reject_code = None, o_reject_message = None\<rparr> orders)))))
      else if \<not> hashable event then Inl (TypeError ''unhashable type'')
      else if event \<in> JStr ` set ORDER_EVENTS \<or> (has_key rec ''client_id'' \<and> event \<noteq> JStr ''risk_reject'') then
        rbind (seq_of (jget rec ''client_id'')) (\<lambda>_.
        let cid = py_str (jget rec ''client_id'') in
        case map_of orders cid of
          None \<Rightarrow> Inl (ExecutionError ''order event without intent'')
        | Some ord \<Rightarrow> rbind (replay_event rec ord) (\<lambda>ord'. Inr (AList.update cid ord' orders)))
      else Inr orders)"

definition pending_to_unknown :: "order \<Rightarrow> order" where
  "pending_to_unknown ord = (if o_status ord = PENDING_SUBMIT then ord\<lparr>o_status := UNKNOWN\<rparr> else ord)"

section \<open>Replaying the ledger\<close>

definition snapshot_row :: "json \<Rightarrow> (string, position) dict \<Rightarrow> (string, position) dict result" where
  "snapshot_row row ps = (case row of JObj kvs \<Rightarrow>
       rbind (need ''invalid holdings snapshot'' (map_of kvs ''symbol'')) (\<lambda>sy.
       rbind (need ''invalid holdings snapshot'' (map_of kvs ''qty'')) (\<lambda>q. rbind (integer q) (\<lambda>qty.
       rbind (need ''invalid holdings snapshot'' (map_of kvs ''cost_krw'')) (\<lambda>c. rbind (integer c) (\<lambda>cost.
         if qty < 0 \<or> cost < 0 \<or> map_of ps (py_str sy) \<noteq> None
         then Inl (ExecutionError ''inconsistent holdings snapshot'')
         else Inr (AList.update (py_str sy) \<lparr>p_qty = qty, p_cost_krw = cost\<rparr> ps))))))
     | _ \<Rightarrow> Inl (ExecutionError ''invalid holdings snapshot''))"

text \<open>\<open>int(x)\<close> of a JSON value.\<close>

fun int_of_json :: "json \<Rightarrow> int result" where
  "int_of_json (JInt i) = Inr i"
| "int_of_json (JStr s) = (case int_text s of None \<Rightarrow> Inl (ValueError ''invalid literal for int()'') | Some i \<Rightarrow> Inr i)"
| "int_of_json (JBool b) = Inr (if b then 1 else 0)"
| "int_of_json (JFloat x) = Inr (if x < 0 then \<lceil>x\<rceil> else \<lfloor>x\<rfloor>)"
| "int_of_json _ = Inl (TypeError ''int() argument must be a string or a number'')"

definition raw_item :: "jobj \<Rightarrow> string \<Rightarrow> json result" where
  "raw_item rec k = (case map_of rec k of None \<Rightarrow> Inl (KeyError k) | Some v \<Rightarrow> Inr v)"

definition replay_ledger_fill :: "(string, order) dict \<Rightarrow> jobj \<Rightarrow> ledger \<Rightarrow> ledger result" where
  "replay_ledger_fill orders rec l =
     (if jget rec ''event'' \<noteq> JStr ''fill'' then Inr l
      else case map_of orders (py_str (jget rec ''client_id'')) of
        None \<Rightarrow> Inl (KeyError (py_str (jget rec ''client_id'')))
      | Some ord \<Rightarrow>
          rbind (raw_item rec ''delta_qty'') (\<lambda>v. rbind (int_of_json v) (\<lambda>delta_qty.
          rbind (raw_item rec ''delta_amount_krw'') (\<lambda>w. rbind (int_of_json w) (\<lambda>delta_amount.
          rbind (apply_fill l (i_symbol (o_intent ord)) (i_side (o_intent ord)) delta_qty delta_amount) (\<lambda>(_, l').
            Inr l'))))))"

definition replay_ledger :: "jobj list \<Rightarrow> (string, order) dict \<Rightarrow> cost_model \<Rightarrow> ledger option result" where
  "replay_ledger records orders cm =
     (case filter (\<lambda>r. jget r ''event'' = JStr ''session_start'') records of
        [] \<Rightarrow> Inr None
      | first # _ \<Rightarrow>
          (case jget first ''holdings'' of JList rows \<Rightarrow>
             rbind (rfold snapshot_row rows []) (\<lambda>ps.
             rbind (rfold (replay_ledger_fill orders) records (new_ledger 0 cm ps)) (\<lambda>l. Inr (Some l)))
           | _ \<Rightarrow> Inl (ExecutionError ''earliest session_start lacks holdings'')))"

definition restore_session :: "jobj list \<Rightarrow> execution_mode \<Rightarrow> cost_model \<Rightarrow> recovered_session result" where
  "restore_session records mode cm =
     rbind (rfold scan_record records (0, [])) (\<lambda>(next_seq, times).
     if mode = PAPER
     then Inr \<lparr>rs_orders = [], rs_next_seq = next_seq, rs_submit_times = times, rs_ledger = None\<rparr>
     else rbind (rfold replay_record records []) (\<lambda>orders0.
          let orders = map (\<lambda>(cid, ord). (cid, pending_to_unknown ord)) orders0 in
          rbind (replay_ledger records orders cm) (\<lambda>ledger.
            Inr \<lparr>rs_orders = orders, rs_next_seq = next_seq, rs_submit_times = times, rs_ledger = ledger\<rparr>)))"

definition position_diffs :: "ledger \<Rightarrow> holding list \<Rightarrow> (string \<times> int \<times> int) list" where
  "position_diffs l holdings =
     (let broker = map_of (rev (map (\<lambda>h. (h_symbol h, h_qty h)) holdings));
          symbols = sort (remdups (dict_keys (positions l) @ map h_symbol holdings));
          row = (\<lambda>sy. (sy, ledger_qty l sy, case broker sy of None \<Rightarrow> 0 | Some q \<Rightarrow> q))
      in filter (\<lambda>(sy, left, right). left \<noteq> right) (map row symbols))"

section \<open>Round trips\<close>

lemma parse_ts_isoformat:
  assumes "valid_datetime t"
  shows "parse_ts (JStr (isoformat t)) = Inr t"
proof -
  have v: "valid_date (dt_date t)" "dt_tod t < 86400000000" "\<bar>dt_off t\<bar> < 86400000000"
    using assms by (auto simp: valid_datetime_def)
  note parts = tod_parts_less(1) [OF v(2)] tod_parts_less(2-4) [of "dt_tod t"]
  have "iso_time (dt_tod t) @ iso_offset (dt_off t) \<noteq> []" by (simp add: iso_time_def show2_def)
  moreover have "parse_clock (iso_time (dt_tod t) @ iso_offset (dt_off t))
      = Some (tod_hour (dt_tod t), tod_minute (dt_tod t), tod_second (dt_tod t), tod_us (dt_tod t), iso_offset (dt_off t))"
    using parse_clock_show [OF _ _ _ _ clock_end_offset, of "tod_hour (dt_tod t)" "tod_minute (dt_tod t)"
        "tod_second (dt_tod t)" "tod_us (dt_tod t)" "dt_off t"] parts
    by (simp add: iso_time_def)
  ultimately show ?thesis
    using v parts by (simp add: parse_ts_def fromisoformat_def isoformat_def parse_iso_date_show
        parse_iso_offset_show clock_us_parts)
qed

lemma side_of_value_value [simp]: "side_of_value (side_value s) = Some s"
  and order_type_of_value_value [simp]: "order_type_of_value (order_type_value ot) = Some ot"
  and order_status_of_value_value [simp]: "order_status_of_value (order_status_value st) = Some st"
  by (cases s; simp add: side_of_value_def) (cases ot; simp add: order_type_of_value_def; fail | cases st; simp add: order_status_of_value_def)+

lemma intent_of_json: "intent_of (redact (intent_json i)) = Inr i"
proof -
  have "redact (intent_json i) = intent_json i"
    by (simp add: intent_json_def REDACT_KEYS_def lower_def lower_char_def jopt_int_def split: option.splits)
  then show ?thesis
    by (simp add: intent_of_def intent_json_def need_def str_get_def jopt_int_def split: option.splits)
qed

lemma rsplit_dash_append: "CHR ''-'' \<notin> set suffix \<Longrightarrow> rsplit_dash (s @ ''-'' @ suffix) = Some suffix"
proof -
  assume "CHR ''-'' \<notin> set suffix"
  then have "takeWhile (\<lambda>c. c \<noteq> CHR ''-'') (rev suffix) = rev suffix" by (auto simp: takeWhile_eq_all_conv)
  then show ?thesis by (simp add: rsplit_dash_def takeWhile_tail del: takeWhile_eq_all_conv)
qed

lemma position_diffs_empty_iff:
  "position_diffs l holdings = [] \<longleftrightarrow>
     (\<forall>sy. ledger_qty l sy = (case map_of (rev (map (\<lambda>h. (h_symbol h, h_qty h)) holdings)) sy of None \<Rightarrow> 0 | Some q \<Rightarrow> q))"
  (is "?L \<longleftrightarrow> (\<forall>sy. ?ok sy)")
proof -
  have "?ok sy" if "sy \<notin> set (dict_keys (positions l) @ map h_symbol holdings)" for sy
  proof -
    have "map_of (positions l) sy = None" "map_of (rev (map (\<lambda>h. (h_symbol h, h_qty h)) holdings)) sy = None"
      using that by (auto simp: map_of_eq_None_iff image_iff)
    then show ?thesis by (simp add: ledger_qty_def)
  qed
  moreover have "?L \<longleftrightarrow> (\<forall>sy \<in> set (dict_keys (positions l) @ map h_symbol holdings). ?ok sy)"
    by (auto simp: position_diffs_def Let_def filter_empty_conv)
  ultimately show ?thesis by blast
qed

section \<open>Properties of the reader\<close>

text \<open>
  Journal values are read back exactly: the timestamp of every valid instant, microseconds and
  offset included, and every order intent, redaction included.
\<close>

theorem journal_values_read_back:
  assumes "valid_datetime t"
  shows "parse_ts (JStr (isoformat t)) = Inr t \<and> intent_of (redact (intent_json i)) = Inr i"
  using parse_ts_isoformat [OF assms] intent_of_json by blast

theorem journal_values_read_back_witness:
  "parse_ts (JStr (isoformat \<lparr>dt_date = \<lparr>d_year = 2026, d_month = 2, d_day = 28\<rparr>, dt_tod = 86399999999, dt_off = kst_off\<rparr>))
     = Inr \<lparr>dt_date = \<lparr>d_year = 2026, d_month = 2, d_day = 28\<rparr>, dt_tod = 86399999999, dt_off = kst_off\<rparr>"
proof -
  have "valid_datetime \<lparr>dt_date = \<lparr>d_year = 2026, d_month = 2, d_day = 28\<rparr>, dt_tod = 86399999999, dt_off = kst_off\<rparr>"
    by (simp add: valid_datetime_def valid_date_def days_in_month_def kst_off_def is_leap_def)
  from journal_values_read_back [OF this] show ?thesis by blast
qed

text \<open>
  The position check reports nothing exactly when the ledger and the broker agree on every symbol,
  held or not.
\<close>

theorem position_check_complete:
  "position_diffs l holdings = [] \<longleftrightarrow>
     (\<forall>sy. ledger_qty l sy = (case map_of (rev (map (\<lambda>h. (h_symbol h, h_qty h)) holdings)) sy of None \<Rightarrow> 0 | Some q \<Rightarrow> q))"
  by (rule position_diffs_empty_iff)

end
