(* ===== verification/Oms.thy ===== *)
theory Oms
  imports Gateways Recovery
begin

text \<open>
  The order manager of \<open>src/execution/oms.py\<close>. Its fields are the record \<open>oms\<close>; the gateway,
  the limits and the costs are the configuration \<open>oms_cfg\<close>. Every operation returns the value
  or the exception together with the state at that moment, so that what an exception leaves
  behind is part of the model. Readings of the outside world (quotes, clock, kill switch,
  network) are fields of an environment record; a journal line written by \<open>reconcile\<close> reads the
  clock \<open>re_now\<close> at the number of lines written so far.
\<close>

record ('g, 'e) oms_cfg =
  c_gw :: "('g, 'e) order_gateway"
  c_limits :: risk_limits
  c_costs :: cost_model

record 'g oms =
  m_gateway :: 'g
  m_ledger :: ledger
  m_orders :: "(string, order) dict"
  m_seq :: nat
  m_submit_times :: "datetime list"
  m_block_reason :: "string option"
  m_closed :: bool
  m_journal :: journal

text \<open>\<open>__init__\<close>: a fresh manager, or one that continues a recovered session.\<close>

definition new_oms :: "'g \<Rightarrow> ledger \<Rightarrow> journal \<Rightarrow> recovered_session option \<Rightarrow> 'g oms" where
  "new_oms g l j recovered =
     \<lparr>m_gateway = g, m_ledger = l,
      m_orders = (case recovered of None \<Rightarrow> [] | Some rs \<Rightarrow> rs_orders rs),
      m_seq = (case recovered of None \<Rightarrow> 0 | Some rs \<Rightarrow> rs_next_seq rs),
      m_submit_times = (case recovered of None \<Rightarrow> [] | Some rs \<Rightarrow> rs_submit_times rs),
      m_block_reason = None, m_closed = False, m_journal = j\<rparr>"

definition OPEN_STATUSES :: "order_status set" where
  "OPEN_STATUSES = {PENDING_SUBMIT, ACCEPTED, PARTIALLY_FILLED, UNKNOWN}"

definition block_submits :: "string \<Rightarrow> 'g oms \<Rightarrow> 'g oms" where
  "block_submits reason m = m\<lparr>m_block_reason := Some reason\<rparr>"

definition close :: "'g oms \<Rightarrow> 'g oms" where
  "close m = (if m_closed m then m else m\<lparr>m_closed := True\<rparr>)"

definition closed_error :: exn where
  "closed_error = ExecutionError ''order session is closed''"

definition record_event :: "datetime \<Rightarrow> string \<Rightarrow> jobj \<Rightarrow> 'g oms \<Rightarrow> unit result \<times> 'g oms" where
  "record_event ts event flds m = (let (r, j) = journal_append (m_journal m) ts event flds in (r, m\<lparr>m_journal := j\<rparr>))"

definition put_order :: "order \<Rightarrow> 'g oms \<Rightarrow> 'g oms" where
  "put_order ord m = m\<lparr>m_orders := AList.update (o_client_id ord) ord (m_orders m)\<rparr>"

section \<open>Submitting\<close>

record 'e submit_env =
  se_quote :: "quote result"
  se_kill :: bool
  se_cash :: 'e
  se_gw :: 'e
  se_now_id :: datetime
  se_now_window :: datetime
  se_now_created :: datetime
  se_now_sent :: datetime
  se_ts_intent :: datetime
  se_ts_result :: datetime
  se_pretrade_ms :: rat
  se_gateway_ms :: rat

definition client_id_of :: "execution_mode \<Rightarrow> date \<Rightarrow> nat \<Rightarrow> string" where
  "client_id_of mode d n = mode_value mode @ ''-'' @ strftime_Ymd d @ ''-'' @ zfill 6 (show_nat n)"

definition new_order :: "string \<Rightarrow> order_intent \<Rightarrow> order_status \<Rightarrow> datetime \<Rightarrow> order" where
  "new_order cid intent status created =
     \<lparr>o_client_id = cid, o_intent = intent, o_status = status, o_created_at = created,
      o_broker_order_no = None, o_broker_org_no = None, o_broker_order_time = None,
      o_filled_qty = 0, o_filled_amount_krw = 0, o_reject_code = None, o_reject_message = None\<rparr>"

definition open_orders :: "'g oms \<Rightarrow> order list" where
  "open_orders m = filter (\<lambda>ord. o_status ord \<in> OPEN_STATUSES) (dict_values (m_orders m))"

definition open_qty :: "side \<Rightarrow> string \<Rightarrow> 'g oms \<Rightarrow> int" where
  "open_qty sd sy m = sum_list (map remaining_qty
     (filter (\<lambda>ord. i_side (o_intent ord) = sd) (filter (\<lambda>ord. i_symbol (o_intent ord) = sy) (open_orders m))))"

definition risk_context_of :: "('g, 'e) oms_cfg \<Rightarrow> 'e submit_env \<Rightarrow> order_intent \<Rightarrow> int \<Rightarrow> int \<Rightarrow> 'g oms \<Rightarrow> risk_context" where
  "risk_context_of cfg env intent ref orderable m =
     \<lparr>kill_switch = se_kill env,
      unknown_pending = list_ex (\<lambda>ord. o_status ord = UNKNOWN \<and> i_symbol (o_intent ord) = i_symbol intent
          \<and> i_side (o_intent ord) = i_side intent) (open_orders m),
      orders_last_minute = int (length (filter (\<lambda>t. utc_us t > utc_us (se_now_window env) - seconds 60) (m_submit_times m))),
      ctx_realized_pnl_krw = realized_pnl_krw (m_ledger m),
      position_qty = ledger_qty (m_ledger m) (i_symbol intent),
      open_buy_qty = open_qty BUY (i_symbol intent) m,
      open_sell_qty = open_qty SELL (i_symbol intent) m,
      orderable_cash_krw = orderable,
      est_commission_krw = commission (c_costs cfg) (i_qty intent * ref),
      submit_block_reason = m_block_reason m\<rparr>"

text \<open>The body of the \<open>try\<close> block: the reference price of an intent that passes the gate.\<close>

definition risk_gate :: "('g, 'e) oms_cfg \<Rightarrow> 'e submit_env \<Rightarrow> order_intent \<Rightarrow> quote \<Rightarrow> 'g oms \<Rightarrow> int result" where
  "risk_gate cfg env intent qt m =
     rbind (reference_price intent qt) (\<lambda>ref.
     rbind (if i_side intent = BUY
            then gw_orderable_cash (c_gw cfg) (m_gateway m) (m_ledger m) (se_cash env) (i_symbol intent) ref (i_order_type intent)
            else Inr 0) (\<lambda>orderable.
     rbind (check_intent intent qt (c_limits cfg) (risk_context_of cfg env intent ref orderable m)) (\<lambda>_. Inr ref)))"

definition reject_intent :: "'e submit_env \<Rightarrow> string \<Rightarrow> order_intent \<Rightarrow> quote \<Rightarrow> reject_code \<Rightarrow> string \<Rightarrow> 'g oms \<Rightarrow> order result \<times> 'g oms" where
  "reject_intent env cid intent qt code detail m =
     (let ord = (new_order cid intent REJECTED (se_now_created env))
            \<lparr>o_reject_code := Some (reject_code_value code), o_reject_message := Some detail\<rparr>;
          (r, m') = record_event (se_ts_intent env) ''risk_reject''
            [(''client_id'', JStr cid), (''intent'', intent_json intent), (''code'', JStr (reject_code_value code)),
             (''detail'', JStr detail), (''quote'', quote_json qt)] (put_order ord m)
      in (case r of Inl e \<Rightarrow> Inl e | Inr _ \<Rightarrow> Inr ord, m'))"

definition apply_outcome :: "broker_outcome \<Rightarrow> order \<Rightarrow> order result" where
  "apply_outcome oc ord = (case out_kind oc of
       OUT_ACCEPTED \<Rightarrow> rbind (transition (o_status ord) ACCEPTED) (\<lambda>st.
         Inr (ord\<lparr>o_status := st, o_broker_order_no := out_broker_order_no oc,
                  o_broker_org_no := out_broker_org_no oc, o_broker_order_time := out_order_time oc\<rparr>))
     | OUT_REJECTED \<Rightarrow> rbind (transition (o_status ord) REJECTED) (\<lambda>st.
         Inr (ord\<lparr>o_status := st, o_reject_code := Some (out_code oc), o_reject_message := Some (out_message oc)\<rparr>))
     | OUT_UNKNOWN \<Rightarrow> rbind (transition (o_status ord) UNKNOWN) (\<lambda>st. Inr (ord\<lparr>o_status := st\<rparr>)))"

definition send_order :: "('g, 'e) oms_cfg \<Rightarrow> 'e submit_env \<Rightarrow> order \<Rightarrow> quote \<Rightarrow> 'g oms \<Rightarrow> order result \<times> 'g oms" where
  "send_order cfg env ord qt m =
     (let m1 = m\<lparr>m_submit_times := m_submit_times m @ [se_now_sent env]\<rparr>;
          (out, g, j) = gw_submit (c_gw cfg) (m_gateway m1) (m_journal m1) (se_gw env) ord qt;
          m2 = m1\<lparr>m_gateway := g, m_journal := j\<rparr>
      in case out of
           Inl e \<Rightarrow> (Inl e, m2)
         | Inr oc \<Rightarrow>
             (case apply_outcome oc ord of
                Inl e \<Rightarrow> (Inl e, m2)
              | Inr ord' \<Rightarrow>
                  let (r, m3) = record_event (se_ts_result env) ''submit_result''
                        [(''client_id'', JStr (o_client_id ord)), (''outcome'', outcome_json oc),
                         (''status'', JStr (order_status_value (o_status ord'))),
                         (''pretrade_ms'', JFloat (se_pretrade_ms env)), (''gateway_ms'', JFloat (se_gateway_ms env))]
                        (put_order ord' m2)
                  in (case r of Inl e \<Rightarrow> Inl e | Inr _ \<Rightarrow> Inr ord', m3)))"

definition submit :: "('g, 'e) oms_cfg \<Rightarrow> 'e submit_env \<Rightarrow> order_intent \<Rightarrow> 'g oms \<Rightarrow> order result \<times> 'g oms" where
  "submit cfg env intent m =
     (if m_closed m then (Inl closed_error, m)
      else case se_quote env of
        Inl e \<Rightarrow> (Inl e, m)
      | Inr qt \<Rightarrow>
          let m1 = m\<lparr>m_seq := Suc (m_seq m)\<rparr>;
              cid = client_id_of (gw_mode (c_gw cfg)) (dt_date (se_now_id env)) (m_seq m1)
          in case risk_gate cfg env intent qt m1 of
               Inl (RiskRejectedError code detail) \<Rightarrow> reject_intent env cid intent qt code detail m1
             | Inl e \<Rightarrow> (Inl e, m1)
             | Inr ref \<Rightarrow>
                 let ord = new_order cid intent PENDING_SUBMIT (se_now_created env);
                     (r, m2) = record_event (se_ts_intent env) ''intent''
                       [(''client_id'', JStr cid), (''intent'', intent_json intent), (''quote'', quote_json qt),
                        (''reference_price'', JInt ref)] (put_order ord m1)
                 in case r of Inl e \<Rightarrow> (Inl e, m2) | Inr _ \<Rightarrow> send_order cfg env ord qt m2)"

section \<open>Cancelling\<close>

record 'e cancel_env =
  ce_gw :: 'e
  ce_ts :: datetime

definition cancel :: "('g, 'e) oms_cfg \<Rightarrow> 'e cancel_env \<Rightarrow> string \<Rightarrow> 'g oms \<Rightarrow> order result \<times> 'g oms" where
  "cancel cfg env cid m =
     (if m_closed m then (Inl closed_error, m)
      else case map_of (m_orders m) cid of
        None \<Rightarrow> (Inl (ExecutionError (''unknown client_id: '' @ cid)), m)
      | Some ord \<Rightarrow>
          if o_status ord \<in> TERMINAL_STATUSES then (Inr ord, m)
          else if o_broker_order_no ord = None
          then (Inl (ExecutionError ''cannot cancel without broker order number; reconcile first''), m)
          else let (out, g, j) = gw_cancel (c_gw cfg) (m_gateway m) (m_journal m) (ce_gw env) ord;
                   m1 = m\<lparr>m_gateway := g, m_journal := j\<rparr>
               in case out of
                    Inl e \<Rightarrow> (Inl e, m1)
                  | Inr oc \<Rightarrow>
                      let (r, m2) = record_event (ce_ts env) ''cancel_result''
                            [(''client_id'', JStr cid), (''outcome'', outcome_json oc)] m1
                      in (case r of Inl e \<Rightarrow> Inl e | Inr _ \<Rightarrow> Inr ord, m2))"

section \<open>Reconciling with the broker\<close>

record 'e reconcile_env =
  re_gw :: 'e
  re_now :: "nat \<Rightarrow> datetime"

definition now_of :: "'e reconcile_env \<Rightarrow> 'g oms \<Rightarrow> datetime" where
  "now_of env m = re_now env (length (j_lines (m_journal m)))"

definition UNKNOWN_MATCH_SKEW :: timedelta where
  "UNKNOWN_MATCH_SKEW = seconds 5"

definition by_no :: "broker_order_status list \<Rightarrow> string \<Rightarrow> broker_order_status option" where
  "by_no statuses = map_of (rev (map (\<lambda>st. (s_broker_order_no st, st)) statuses))"

definition child_parents :: "broker_order_status list \<Rightarrow> string list" where
  "child_parents statuses = map s_original_order_no
     (filter (\<lambda>st. s_original_order_no st \<noteq> [] \<and> s_original_order_no st \<noteq> s_broker_order_no st) statuses)"

definition known_nos :: "'g oms \<Rightarrow> string list" where
  "known_nos m = filter (\<lambda>n. n \<noteq> []) (List.map_filter o_broker_order_no (dict_values (m_orders m)))"

definition candidates :: "order \<Rightarrow> string list \<Rightarrow> broker_order_status list \<Rightarrow> broker_order_status list" where
  "candidates ord known statuses =
     (let threshold = strftime_HMS (kst_tod (utc_us (o_created_at ord) - UNKNOWN_MATCH_SKEW));
          expected_price = (if i_order_type (o_intent ord) = LIMIT then i_limit_price (o_intent ord) else Some 0)
      in filter (\<lambda>st. s_broker_order_no st \<notin> set known
           \<and> (s_original_order_no st = [] \<or> s_original_order_no st = s_broker_order_no st)
           \<and> s_symbol st = i_symbol (o_intent ord)
           \<and> s_side st = i_side (o_intent ord)
           \<and> s_ordered_qty st = i_qty (o_intent ord)
           \<and> Some (s_price st) = expected_price
           \<and> s_order_time st \<ge> threshold) statuses)"

record 'g recon =
  r_oms :: "'g oms"
  r_known :: "string list"
  r_changed :: "string list"

definition mark_changed :: "string \<Rightarrow> 'g recon \<Rightarrow> 'g recon" where
  "mark_changed cid rc = rc\<lparr>r_changed := (if cid \<in> set (r_changed rc) then r_changed rc else r_changed rc @ [cid])\<rparr>"

definition record_r :: "'e reconcile_env \<Rightarrow> string \<Rightarrow> jobj \<Rightarrow> 'g recon \<Rightarrow> unit result \<times> 'g recon" where
  "record_r env event flds rc =
     (let (r, m) = record_event (now_of env (r_oms rc)) event flds (r_oms rc) in (r, rc\<lparr>r_oms := m\<rparr>))"

definition put_r :: "order \<Rightarrow> 'g recon \<Rightarrow> 'g recon" where
  "put_r ord rc = rc\<lparr>r_oms := put_order ord (r_oms rc)\<rparr>"

text \<open>One turn of the first loop: an order of unknown fate adopts the only broker row that fits it.\<close>

definition adopt_one :: "'e reconcile_env \<Rightarrow> broker_order_status list \<Rightarrow> string \<Rightarrow> 'g recon \<Rightarrow> unit result \<times> 'g recon" where
  "adopt_one env statuses cid rc =
     (case map_of (m_orders (r_oms rc)) cid of
        None \<Rightarrow> (Inr (), rc)
      | Some ord \<Rightarrow>
          if o_status ord \<noteq> UNKNOWN then (Inr (), rc)
          else (case candidates ord (r_known rc) statuses of
             [] \<Rightarrow> (Inr (), rc)
           | [mt] \<Rightarrow>
               let ord' = ord\<lparr>o_broker_order_no := Some (s_broker_order_no mt), o_broker_org_no := Some (s_org_no mt),
                              o_broker_order_time := Some (s_order_time mt)\<rparr>;
                   (r, rc') = record_r env ''unknown_adopted''
                     [(''client_id'', JStr cid), (''broker_order_no'', JStr (s_broker_order_no mt)),
                      (''broker_org_no'', JStr (s_org_no mt)), (''order_time'', JStr (s_order_time mt))]
                     ((put_r ord' rc)\<lparr>r_known := r_known rc @ [s_broker_order_no mt]\<rparr>)
               in case r of Inl e \<Rightarrow> (Inl e, rc') | Inr _ \<Rightarrow> (Inr (), mark_changed cid rc')
           | cands \<Rightarrow>
               record_r env ''unknown_ambiguous''
                 [(''client_id'', JStr cid), (''candidates'', JList (map (\<lambda>st. JStr (s_broker_order_no st)) cands))] rc))"

text \<open>One turn of the second loop: the broker's cumulative fill of an open order is booked.\<close>

definition book_fill :: "'e reconcile_env \<Rightarrow> order \<Rightarrow> broker_order_status \<Rightarrow> 'g recon \<Rightarrow> unit result \<times> 'g recon" where
  "book_fill env ord st rc =
     (let delta_qty = s_filled_qty st - o_filled_qty ord;
          delta_amount = s_filled_amount_krw st - o_filled_amount_krw ord
      in if delta_qty > 0 then
           (case apply_fill (m_ledger (r_oms rc)) (i_symbol (o_intent ord)) (i_side (o_intent ord)) delta_qty delta_amount of
              Inl e \<Rightarrow> (Inl e, rc)
            | Inr (_, l) \<Rightarrow>
                record_r env ''fill''
                  [(''client_id'', JStr (o_client_id ord)), (''delta_qty'', JInt delta_qty),
                   (''delta_amount_krw'', JInt delta_amount), (''cumulative_qty'', JInt (s_filled_qty st)),
                   (''cumulative_amount_krw'', JInt (s_filled_amount_krw st))]
                  (rc\<lparr>r_oms := (r_oms rc)\<lparr>m_ledger := l\<rparr>\<rparr>))
         else (Inr (), rc))"

definition settle_status :: "'e reconcile_env \<Rightarrow> order \<Rightarrow> broker_order_status \<Rightarrow> bool \<Rightarrow> order_status \<Rightarrow> 'g recon \<Rightarrow> unit result \<times> 'g recon" where
  "settle_status env ord st child new_status rc =
     (let ord1 = ord\<lparr>o_filled_qty := s_filled_qty st, o_filled_amount_krw := s_filled_amount_krw st\<rparr>
      in case transition (o_status ord) new_status of
           Inl e \<Rightarrow> (Inl e, put_r ord1 rc)
         | Inr status \<Rightarrow>
             let ord2 = ord1\<lparr>o_status := status\<rparr>; rc1 = put_r ord2 rc
             in if status \<noteq> o_status ord \<or> s_filled_qty st - o_filled_qty ord > 0 then
                  (let (r, rc2) = record_r env ''status''
                         [(''client_id'', JStr (o_client_id ord)), (''status'', JStr (order_status_value status)),
                          (''filled_qty'', JInt (s_filled_qty st)),
                          (''evidence'', JObj [(''cncl_yn'', JBool (s_cancelled st)), (''cancel_child'', JBool child),
                             (''rmn_qty'', JInt (s_remaining_qty st)), (''rejected_qty'', JInt (s_rejected_qty st))])] rc1
                   in case r of Inl e \<Rightarrow> (Inl e, rc2) | Inr _ \<Rightarrow> (Inr (), mark_changed (o_client_id ord) rc2))
                else (Inr (), rc1))"

definition settle_one :: "'e reconcile_env \<Rightarrow> broker_order_status list \<Rightarrow> string \<Rightarrow> 'g recon \<Rightarrow> unit result \<times> 'g recon" where
  "settle_one env statuses cid rc =
     (case map_of (m_orders (r_oms rc)) cid of
        None \<Rightarrow> (Inr (), rc)
      | Some ord \<Rightarrow>
          if o_status ord \<in> TERMINAL_STATUSES then (Inr (), rc)
          else case Option.bind (o_broker_order_no ord) (by_no statuses) of
            None \<Rightarrow> (Inr (), rc)
          | Some st \<Rightarrow>
              if s_filled_qty st < o_filled_qty ord \<or> s_filled_qty st > i_qty (o_intent ord) then
                (let (r, rc') = record_r env ''integrity_violation''
                       [(''client_id'', JStr (o_client_id ord)), (''broker_filled_qty'', JInt (s_filled_qty st)),
                        (''local_filled_qty'', JInt (o_filled_qty ord))] rc
                 in case r of Inl e \<Rightarrow> (Inl e, rc')
                    | Inr _ \<Rightarrow> (Inl (BrokerIntegrityError (''cumulative fill moved backwards or exceeded: ''
                        @ show_int (s_filled_qty st))), rc'))
              else let child = (case o_broker_order_no ord of None \<Rightarrow> False | Some no \<Rightarrow> no \<in> set (child_parents statuses))
                in case derive_status st child of
                     Inl e \<Rightarrow> (Inl e, rc)
                   | Inr new_status \<Rightarrow>
                       (case book_fill env ord st rc of
                          (Inl e, rc') \<Rightarrow> (Inl e, rc')
                        | (Inr _, rc') \<Rightarrow> settle_status env ord st child new_status rc'))"

definition reconcile :: "('g, 'e) oms_cfg \<Rightarrow> 'e reconcile_env \<Rightarrow> 'g oms \<Rightarrow> order list result \<times> 'g oms" where
  "reconcile cfg env m =
     (if m_closed m then (Inl closed_error, m)
      else case gw_fetch_statuses (c_gw cfg) (m_gateway m) (re_gw env) of
        Inl e \<Rightarrow> (Inl e, m)
      | Inr statuses \<Rightarrow>
          let rc0 = \<lparr>r_oms = m, r_known = known_nos m, r_changed = []\<rparr>
          in case for_each (adopt_one env statuses) (dict_keys (m_orders m)) rc0 of
               (Inl e, rc1) \<Rightarrow> (Inl e, r_oms rc1)
             | (Inr _, rc1) \<Rightarrow>
                 (case for_each (settle_one env statuses) (dict_keys (m_orders m)) rc1 of
                    (Inl e, rc2) \<Rightarrow> (Inl e, r_oms rc2)
                  | (Inr _, rc2) \<Rightarrow>
                      (Inr (List.map_filter (map_of (m_orders (r_oms rc2))) (r_changed rc2)), r_oms rc2)))"

section \<open>Resolving and waiting\<close>

definition resolve_unknown :: "('g, 'e) oms_cfg \<Rightarrow> 'e reconcile_env \<Rightarrow> datetime \<Rightarrow> string \<Rightarrow> string \<Rightarrow> 'g oms \<Rightarrow> order result \<times> 'g oms" where
  "resolve_unknown cfg env ts cid reason m =
     (if m_closed m then (Inl closed_error, m)
      else case map_of (m_orders m) cid of
        None \<Rightarrow> (Inl (ExecutionError (''unknown client_id: '' @ cid)), m)
      | Some ord \<Rightarrow>
          if o_status ord \<noteq> UNKNOWN
          then (Inl (ExecutionError (''order is '' @ order_status_value (o_status ord) @ '', not unknown'')), m)
          else case reconcile cfg env m of
            (Inl e, m1) \<Rightarrow> (Inl e, m1)
          | (Inr _, m1) \<Rightarrow>
              (case map_of (m_orders m1) cid of
                 None \<Rightarrow> (Inl (KeyError cid), m1)
               | Some ord1 \<Rightarrow>
                   if o_status ord1 \<noteq> UNKNOWN \<or> o_broker_order_no ord1 \<noteq> None
                   then (Inl (ExecutionError ''order matched a broker record; resolve through reconcile/cancel''), m1)
                   else case transition (o_status ord1) REJECTED of
                     Inl e \<Rightarrow> (Inl e, m1)
                   | Inr status \<Rightarrow>
                       let ord2 = ord1\<lparr>o_status := status, o_reject_code := Some ''unknown_resolved'', o_reject_message := Some reason\<rparr>;
                           (r, m2) = record_event ts ''unknown_resolved''
                             [(''client_id'', JStr cid), (''reason'', JStr reason)] (put_order ord2 m1)
                       in (case r of Inl e \<Rightarrow> Inl e | Inr _ \<Rightarrow> Inr ord2, m2)))"

text \<open>
  \<open>await_terminal\<close>: the \<open>k\<close>-th poll meets \<open>env k\<close> and the \<open>k\<close>-th test of the loop reads the
  monotonic clock \<open>clock k\<close> (\<open>clock 0\<close> is \<open>start\<close>). Fuel bounds the polls; running out is \<open>None\<close>.
\<close>

definition poll :: "('g, 'e) oms_cfg \<Rightarrow> 'e reconcile_env \<Rightarrow> 'g oms \<Rightarrow> unit result \<times> 'g oms" where
  "poll cfg env m = (case reconcile cfg env m of
       (Inl (KisApiError c d), m') \<Rightarrow> (Inr (), m')
     | (Inl e, m') \<Rightarrow> (Inl e, m')
     | (Inr _, m') \<Rightarrow> (Inr (), m'))"

definition lookup_order :: "string \<Rightarrow> 'g oms \<Rightarrow> order result" where
  "lookup_order cid m = (case map_of (m_orders m) cid of None \<Rightarrow> Inl (KeyError cid) | Some ord \<Rightarrow> Inr ord)"

fun await_loop :: "nat \<Rightarrow> ('g, 'e) oms_cfg \<Rightarrow> (nat \<Rightarrow> 'e reconcile_env) \<Rightarrow> (nat \<Rightarrow> rat) \<Rightarrow> rat \<Rightarrow> nat \<Rightarrow> string \<Rightarrow> 'g oms \<Rightarrow> (order result \<times> 'g oms) option" where
  "await_loop 0 cfg env clock timeout k cid m = None"
| "await_loop (Suc fuel) cfg env clock timeout k cid m =
     (if clock k - clock 0 < timeout then
        (case poll cfg (env k) m of
           (Inl e, m') \<Rightarrow> Some (Inl e, m')
         | (Inr _, m') \<Rightarrow>
             (case lookup_order cid m' of
                Inl e \<Rightarrow> Some (Inl e, m')
              | Inr ord \<Rightarrow>
                  if o_status ord \<in> TERMINAL_STATUSES then Some (Inr ord, m')
                  else await_loop fuel cfg env clock timeout (Suc k) cid m'))
      else Some (lookup_order cid m, m))"

definition await_terminal :: "nat \<Rightarrow> ('g, 'e) oms_cfg \<Rightarrow> (nat \<Rightarrow> 'e reconcile_env) \<Rightarrow> (nat \<Rightarrow> rat) \<Rightarrow> rat \<Rightarrow> string \<Rightarrow> 'g oms \<Rightarrow> (order result \<times> 'g oms) option" where
  "await_terminal fuel cfg env clock timeout cid m =
     (if m_closed m then Some (Inl closed_error, m)
      else if map_of (m_orders m) cid = None then Some (Inl (ExecutionError (''unknown client_id: '' @ cid)), m)
      else case poll cfg (env 0) m of
        (Inl e, m') \<Rightarrow> Some (Inl e, m')
      | (Inr _, m') \<Rightarrow>
          (case lookup_order cid m' of
             Inl e \<Rightarrow> Some (Inl e, m')
           | Inr ord \<Rightarrow>
               if o_status ord \<in> TERMINAL_STATUSES \<or> timeout \<le> 0 then Some (Inr ord, m')
               else await_loop fuel cfg env clock timeout 1 cid m'))"

end
