(* ===== verification/Oms_Props.thy ===== *)
theory Oms_Props
  imports Oms
begin

text \<open>
  What the order manager keeps: its well-formedness, the life of each order, the agreement of
  the books with the recorded fills and the absence of overselling. Each is proved of one
  turn of the loops of \<open>reconcile\<close> first, then of every operation, then of every reachable
  state.
\<close>

section \<open>Frames\<close>

lemma record_event_frame [simp]:
  "m_orders (snd (record_event ts ev fs m)) = m_orders m"
  "m_ledger (snd (record_event ts ev fs m)) = m_ledger m"
  "m_seq (snd (record_event ts ev fs m)) = m_seq m"
  "m_submit_times (snd (record_event ts ev fs m)) = m_submit_times m"
  "m_closed (snd (record_event ts ev fs m)) = m_closed m"
  "m_gateway (snd (record_event ts ev fs m)) = m_gateway m"
  "m_block_reason (snd (record_event ts ev fs m)) = m_block_reason m"
  "m_journal (snd (record_event ts ev fs m)) = snd (journal_append (m_journal m) ts ev fs)"
  "fst (record_event ts ev fs m) = fst (journal_append (m_journal m) ts ev fs)"
  by (simp_all add: record_event_def split: prod.splits)

lemma put_order_frame [simp]:
  "m_orders (put_order ord m) = AList.update (o_client_id ord) ord (m_orders m)"
  "m_ledger (put_order ord m) = m_ledger m"
  "m_seq (put_order ord m) = m_seq m"
  "m_submit_times (put_order ord m) = m_submit_times m"
  "m_closed (put_order ord m) = m_closed m"
  "m_gateway (put_order ord m) = m_gateway m"
  "m_block_reason (put_order ord m) = m_block_reason m"
  "m_journal (put_order ord m) = m_journal m"
  by (simp_all add: put_order_def)

lemma record_r_frame [simp]:
  "r_oms (snd (record_r env ev fs rc)) = snd (record_event (now_of env (r_oms rc)) ev fs (r_oms rc))"
  "r_known (snd (record_r env ev fs rc)) = r_known rc"
  "r_changed (snd (record_r env ev fs rc)) = r_changed rc"
  "fst (record_r env ev fs rc) = fst (journal_append (m_journal (r_oms rc)) (now_of env (r_oms rc)) ev fs)"
  by (simp_all add: record_r_def split: prod.splits) (metis fst_conv record_event_frame(9))

lemma put_r_frame [simp]:
  "r_oms (put_r ord rc) = put_order ord (r_oms rc)" "r_known (put_r ord rc) = r_known rc"
  "r_changed (put_r ord rc) = r_changed rc"
  by (simp_all add: put_r_def)

lemma mark_changed_frame [simp]: "r_oms (mark_changed cid rc) = r_oms rc" "r_known (mark_changed cid rc) = r_known rc"
  by (simp_all add: mark_changed_def)

section \<open>One turn of the loops\<close>

text \<open>
  Everything a turn does to the orders and the ledger: nothing, an adopted broker number, or
  the booking of the broker's fill of one open order, with or without its new status.
\<close>

inductive turn :: "broker_order_status list \<Rightarrow> string \<Rightarrow> 'g oms \<Rightarrow> 'g oms \<Rightarrow> bool" where
  turn_none: "m_orders m' = m_orders m \<Longrightarrow> m_ledger m' = m_ledger m \<Longrightarrow> turn sts cid m m'"
| turn_adopt: "map_of (m_orders m) cid = Some ord \<Longrightarrow> o_status ord = UNKNOWN \<Longrightarrow> st \<in> set sts \<Longrightarrow>
     s_broker_order_no st \<notin> set (known_nos m) \<Longrightarrow>
     m_orders m' = AList.update cid (ord\<lparr>o_broker_order_no := Some (s_broker_order_no st),
       o_broker_org_no := Some (s_org_no st), o_broker_order_time := Some (s_order_time st)\<rparr>) (m_orders m) \<Longrightarrow>
     m_ledger m' = m_ledger m \<Longrightarrow> turn sts cid m m'"
| turn_fill_only: "map_of (m_orders m) cid = Some ord \<Longrightarrow> dt_date (ts :: datetime) \<in> set (j_torn (m_journal m)) \<Longrightarrow>
     m_orders m' = m_orders m \<Longrightarrow>
     0 < q \<Longrightarrow> q \<le> remaining_qty ord \<Longrightarrow> o_status ord \<notin> TERMINAL_STATUSES \<Longrightarrow>
     apply_fill (m_ledger m) (i_symbol (o_intent ord)) (i_side (o_intent ord)) q a = Inr (pnl, m_ledger m') \<Longrightarrow>
     turn sts cid m m'"
| turn_settle: "map_of (m_orders m) cid = Some ord \<Longrightarrow> o_status ord \<notin> TERMINAL_STATUSES \<Longrightarrow>
     o_broker_order_no ord = Some no \<Longrightarrow> by_no sts no = Some st \<Longrightarrow>
     o_filled_qty ord \<le> s_filled_qty st \<Longrightarrow> s_filled_qty st \<le> i_qty (o_intent ord) \<Longrightarrow>
     derive_status st child = Inr new \<Longrightarrow>
     status = o_status ord \<or> transition (o_status ord) new = Inr status \<Longrightarrow>
     m_orders m' = AList.update cid (ord\<lparr>o_filled_qty := s_filled_qty st,
       o_filled_amount_krw := s_filled_amount_krw st, o_status := status\<rparr>) (m_orders m) \<Longrightarrow>
     (s_filled_qty st = o_filled_qty ord \<and> m_ledger m' = m_ledger m) \<or>
     (\<exists>pnl. o_filled_qty ord < s_filled_qty st \<and>
        apply_fill (m_ledger m) (i_symbol (o_intent ord)) (i_side (o_intent ord)) (s_filled_qty st - o_filled_qty ord)
          (s_filled_amount_krw st - o_filled_amount_krw ord) = Inr (pnl, m_ledger m')) \<Longrightarrow>
     turn sts cid m m'"

definition well_keyed :: "(string, order) dict \<Rightarrow> bool" where
  "well_keyed d \<longleftrightarrow> wf_dict d \<and> (\<forall>k ord. map_of d k = Some ord \<longrightarrow> o_client_id ord = k)"

lemma well_keyed_id: "well_keyed d \<Longrightarrow> map_of d k = Some ord \<Longrightarrow> o_client_id ord = k"
  by (simp add: well_keyed_def)

lemma well_keyed_update: "well_keyed d \<Longrightarrow> o_client_id ord = k \<Longrightarrow> well_keyed (AList.update k ord d)"
  by (auto simp: well_keyed_def)

lemma adopt_one_result:
  assumes wk: "well_keyed (m_orders (r_oms rc))" and rc': "rc' = snd (adopt_one env sts cid rc)"
  shows "m_ledger (r_oms rc') = m_ledger (r_oms rc) \<and>
    (m_orders (r_oms rc') = m_orders (r_oms rc) \<and> r_known rc' = r_known rc \<or>
     (\<exists>ord mt. map_of (m_orders (r_oms rc)) cid = Some ord \<and> o_status ord = UNKNOWN \<and> mt \<in> set sts \<and>
        s_broker_order_no mt \<notin> set (r_known rc) \<and> r_known rc' = r_known rc @ [s_broker_order_no mt] \<and>
        m_orders (r_oms rc') = AList.update cid (ord\<lparr>o_broker_order_no := Some (s_broker_order_no mt),
          o_broker_org_no := Some (s_org_no mt), o_broker_order_time := Some (s_order_time mt)\<rparr>) (m_orders (r_oms rc))))"
proof (cases "\<exists>ord mt. map_of (m_orders (r_oms rc)) cid = Some ord \<and> o_status ord = UNKNOWN
    \<and> candidates ord (r_known rc) sts = [mt]")
  case True
  then obtain ord mt where o: "map_of (m_orders (r_oms rc)) cid = Some ord" "o_status ord = UNKNOWN"
    "candidates ord (r_known rc) sts = [mt]" by blast
  from o(3) have "mt \<in> set sts \<and> s_broker_order_no mt \<notin> set (r_known rc)"
    by (auto simp: candidates_def Let_def filter_eq_Cons_iff)
  with o well_keyed_id [OF wk o(1)] show ?thesis
    by (auto simp: rc' adopt_one_def Let_def case_prod_beta split: sum.splits)
next
  case False
  then have "m_ledger (r_oms rc') = m_ledger (r_oms rc) \<and> m_orders (r_oms rc') = m_orders (r_oms rc) \<and> r_known rc' = r_known rc"
    unfolding rc' adopt_one_def by (auto simp: split: option.splits list.splits)
  then show ?thesis by blast
qed

lemma adopt_one_turn:
  assumes "well_keyed (m_orders (r_oms rc))" "set (known_nos (r_oms rc)) \<subseteq> set (r_known rc)"
  shows "turn sts cid (r_oms rc) (r_oms (snd (adopt_one env sts cid rc)))"
  using adopt_one_result [OF assms(1) refl, of env sts cid] assms(2)
  by (auto intro: turn_none turn_adopt)

lemma book_fill_result:
  assumes "book_fill env ord st rc = (r, rc')" "o_filled_qty ord \<le> s_filled_qty st"
  shows "m_orders (r_oms rc') = m_orders (r_oms rc) \<and>
    (r_oms rc' = r_oms rc \<and> (r = Inr () \<longrightarrow> s_filled_qty st = o_filled_qty ord)
     \<or> o_filled_qty ord < s_filled_qty st \<and>
       (\<exists>pnl. apply_fill (m_ledger (r_oms rc)) (i_symbol (o_intent ord)) (i_side (o_intent ord))
          (s_filled_qty st - o_filled_qty ord) (s_filled_amount_krw st - o_filled_amount_krw ord) = Inr (pnl, m_ledger (r_oms rc')))
       \<and> (r = Inr () \<or> (\<exists>ts :: datetime. dt_date ts \<in> set (j_torn (m_journal (r_oms rc))))))"
proof (cases "o_filled_qty ord < s_filled_qty st")
  case False
  with assms show ?thesis by (auto simp: book_fill_def)
next
  case True
  then have pos: "0 < s_filled_qty st - o_filled_qty ord" by simp
  show ?thesis
  proof (cases "apply_fill (m_ledger (r_oms rc)) (i_symbol (o_intent ord)) (i_side (o_intent ord))
          (s_filled_qty st - o_filled_qty ord) (s_filled_amount_krw st - o_filled_amount_krw ord)")
    case (Inl e)
    with assms(1) pos show ?thesis by (auto simp: book_fill_def Let_def)
  next
    case (Inr pl)
    obtain pnl l where pl: "pl = (pnl, l)" by (cases pl)
    from assms(1) pos Inr pl have rc': "(r, rc') = record_r env ''fill''
                  [(''client_id'', JStr (o_client_id ord)), (''delta_qty'', JInt (s_filled_qty st - o_filled_qty ord)),
                   (''delta_amount_krw'', JInt (s_filled_amount_krw st - o_filled_amount_krw ord)),
                   (''cumulative_qty'', JInt (s_filled_qty st)),
                   (''cumulative_amount_krw'', JInt (s_filled_amount_krw st))]
                  (rc\<lparr>r_oms := (r_oms rc)\<lparr>m_ledger := l\<rparr>\<rparr>)"
      by (simp add: book_fill_def Let_def)
    have "r = Inr () \<or> (\<exists>ts :: datetime. dt_date ts \<in> set (j_torn (m_journal (r_oms rc))))"
      using arg_cong [OF rc', of fst] by simp (metis journal_append_result)
    moreover have "m_ledger (r_oms rc') = l" "m_orders (r_oms rc') = m_orders (r_oms rc)"
      using arg_cong [OF rc', of snd] by simp_all
    ultimately show ?thesis using True Inr pl by auto
  qed
qed

lemma settle_status_result:
  assumes "settle_status env ord st child new rc = (r, rc')"
  shows "m_ledger (r_oms rc') = m_ledger (r_oms rc) \<and>
    (\<exists>status. (status = o_status ord \<or> transition (o_status ord) new = Inr status) \<and>
      m_orders (r_oms rc') = AList.update (o_client_id ord) (ord\<lparr>o_filled_qty := s_filled_qty st,
        o_filled_amount_krw := s_filled_amount_krw st, o_status := status\<rparr>) (m_orders (r_oms rc)))"
proof (cases "transition (o_status ord) new")
  case (Inl e)
  with assms have "rc' = put_r (ord\<lparr>o_filled_qty := s_filled_qty st, o_filled_amount_krw := s_filled_amount_krw st\<rparr>) rc"
    by (simp add: settle_status_def)
  then show ?thesis by (intro conjI exI [of _ "o_status ord"]) simp_all
next
  case (Inr status)
  have "m_ledger (r_oms rc') = m_ledger (r_oms rc) \<and> m_orders (r_oms rc') = AList.update (o_client_id ord)
      (ord\<lparr>o_filled_qty := s_filled_qty st, o_filled_amount_krw := s_filled_amount_krw st, o_status := status\<rparr>) (m_orders (r_oms rc))"
    using assms Inr by (auto simp: settle_status_def Let_def case_prod_beta split: if_splits sum.splits)
  with Inr show ?thesis by auto
qed

lemma settle_one_turn:
  assumes wk: "well_keyed (m_orders (r_oms rc))"
  shows "turn sts cid (r_oms rc) (r_oms (snd (settle_one env sts cid rc)))"
proof (cases "\<exists>ord no st. map_of (m_orders (r_oms rc)) cid = Some ord \<and> o_status ord \<notin> TERMINAL_STATUSES
    \<and> o_broker_order_no ord = Some no \<and> by_no sts no = Some st
    \<and> o_filled_qty ord \<le> s_filled_qty st \<and> s_filled_qty st \<le> i_qty (o_intent ord)")
  case False
  then have "m_orders (r_oms (snd (settle_one env sts cid rc))) = m_orders (r_oms rc) \<and>
      m_ledger (r_oms (snd (settle_one env sts cid rc))) = m_ledger (r_oms rc)"
    by (auto simp: settle_one_def Let_def not_le case_prod_beta split: option.splits bind_splits sum.splits)
  then show ?thesis by (auto intro: turn_none)
next
  case True
  then obtain ord no st where o: "map_of (m_orders (r_oms rc)) cid = Some ord" "o_status ord \<notin> TERMINAL_STATUSES"
    "o_broker_order_no ord = Some no" "by_no sts no = Some st"
    "o_filled_qty ord \<le> s_filled_qty st" "s_filled_qty st \<le> i_qty (o_intent ord)" by blast
  note cid = well_keyed_id [OF wk o(1)]
  let ?child = "no \<in> set (child_parents sts)"
  show ?thesis
  proof (cases "derive_status st ?child")
    case (Inl e)
    with o show ?thesis by (auto simp: settle_one_def intro: turn_none)
  next
    case (Inr new)
    obtain r rc' where bf: "book_fill env ord st rc = (r, rc')" by (cases "book_fill env ord st rc")
    note B = book_fill_result [OF bf o(5)]
    show ?thesis
    proof (cases r)
      case (Inl e)
      then have "snd (settle_one env sts cid rc) = rc'"
        using o Inr bf by (simp add: settle_one_def)
      with B Inl o show ?thesis
        by (auto simp: remaining_qty_def intro: turn_none turn_fill_only [where q = "s_filled_qty st - o_filled_qty ord"])
    next
      case (Inr u)
      then have eq: "settle_one env sts cid rc = settle_status env ord st ?child new rc'"
        using o \<open>derive_status st ?child = Inr new\<close> bf by (simp add: settle_one_def)
      obtain r2 rc2 where ss: "settle_status env ord st ?child new rc' = (r2, rc2)"
        by (cases "settle_status env ord st ?child new rc'")
      obtain status where st: "status = o_status ord \<or> transition (o_status ord) new = Inr status"
        "m_orders (r_oms rc2) = AList.update cid (ord\<lparr>o_filled_qty := s_filled_qty st,
          o_filled_amount_krw := s_filled_amount_krw st, o_status := status\<rparr>) (m_orders (r_oms rc))"
        "m_ledger (r_oms rc2) = m_ledger (r_oms rc')"
        using settle_status_result [OF ss] B cid by auto
      show ?thesis
        unfolding eq ss snd_conv using B Inr st o \<open>derive_status st ?child = Inr new\<close>
        by (intro turn_settle [where status = status and st = st]) auto
    qed
  qed
qed

section \<open>What a turn keeps\<close>

definition wf_order :: "order \<Rightarrow> bool" where
  "wf_order ord \<longleftrightarrow> 0 \<le> o_filled_qty ord \<and> (o_filled_qty ord \<le> i_qty (o_intent ord) \<or> o_filled_qty ord = 0)
     \<and> (o_status ord \<notin> TERMINAL_STATUSES \<longrightarrow> 1 \<le> i_qty (o_intent ord))"

text \<open>The share of an order in the open quantity of a side and symbol, and in the net position.\<close>

definition open_share :: "side \<Rightarrow> string \<Rightarrow> order \<Rightarrow> int" where
  "open_share sd sy ord = (if o_status ord \<in> OPEN_STATUSES \<and> i_symbol (o_intent ord) = sy \<and> i_side (o_intent ord) = sd
     then remaining_qty ord else 0)"

definition net_share :: "string \<Rightarrow> order \<Rightarrow> int" where
  "net_share sy ord = (if i_symbol (o_intent ord) = sy then signed_qty (i_side (o_intent ord)) (o_filled_qty ord) else 0)"

lemma open_qty_dict_sum: "open_qty sd sy m = dict_sum (open_share sd sy) (m_orders m)"
proof -
  have "sum_list (map remaining_qty (filter (\<lambda>ord. i_side (o_intent ord) = sd)
      (filter (\<lambda>ord. i_symbol (o_intent ord) = sy) (filter (\<lambda>ord. o_status ord \<in> OPEN_STATUSES) (dict_values d)))))
    = dict_sum (open_share sd sy) d" for d :: "(string, order) dict"
    by (induction d) (auto simp: open_share_def)
  then show ?thesis by (simp add: open_qty_def open_orders_def)
qed

lemma open_terminal: "s \<in> OPEN_STATUSES \<longleftrightarrow> s \<notin> TERMINAL_STATUSES"
  by (cases s) (auto simp: OPEN_STATUSES_def TERMINAL_STATUSES_def)

definition no_oversell :: "'g oms \<Rightarrow> bool" where
  "no_oversell m \<longleftrightarrow> (\<forall>sy. open_qty SELL sy m \<le> ledger_qty (m_ledger m) sy)"

definition wf_books :: "'g oms \<Rightarrow> bool" where
  "wf_books m \<longleftrightarrow> well_keyed (m_orders m) \<and> dict_all wf_order (m_orders m) \<and> wf_ledger (m_ledger m)
     \<and> j_torn (m_journal m) = []"

text \<open>What a symbol's position was before the recorded fills.\<close>

definition opening_qty :: "string \<Rightarrow> 'g oms \<Rightarrow> int" where
  "opening_qty sy m = ledger_qty (m_ledger m) sy - dict_sum (net_share sy) (m_orders m)"

definition order_evolves :: "order \<Rightarrow> order \<Rightarrow> bool" where
  "order_evolves a b \<longleftrightarrow> o_client_id b = o_client_id a \<and> o_intent b = o_intent a \<and> o_created_at b = o_created_at a
     \<and> o_filled_qty a \<le> o_filled_qty b \<and> status_step\<^sup>*\<^sup>* (o_status a) (o_status b)
     \<and> (o_status a \<in> TERMINAL_STATUSES \<longrightarrow> b = a)"

definition orders_evolve :: "(string, order) dict \<Rightarrow> (string, order) dict \<Rightarrow> bool" where
  "orders_evolve d d' \<longleftrightarrow> (\<forall>k a. map_of d k = Some a \<longrightarrow> (\<exists>b. map_of d' k = Some b \<and> order_evolves a b))"

lemma order_evolves_refl [simp]: "order_evolves a a"
  by (simp add: order_evolves_def)

lemma order_evolves_trans: "order_evolves a b \<Longrightarrow> order_evolves b c \<Longrightarrow> order_evolves a c"
  by (auto simp: order_evolves_def)

lemma orders_evolve_refl [simp]: "orders_evolve d d"
  by (simp add: orders_evolve_def)

lemma orders_evolve_trans: "orders_evolve d e \<Longrightarrow> orders_evolve e f \<Longrightarrow> orders_evolve d f"
  unfolding orders_evolve_def by (meson order_evolves_trans)

lemma orders_evolve_update:
  "map_of d k = Some a \<Longrightarrow> order_evolves a b \<Longrightarrow> orders_evolve d (AList.update k b d)"
  by (auto simp: orders_evolve_def)

lemma orders_evolve_new: "map_of d k = None \<Longrightarrow> orders_evolve d (AList.update k b d)"
  by (auto simp: orders_evolve_def)

lemma turn_settle_evolves:
  assumes "o_status ord \<notin> TERMINAL_STATUSES" "o_filled_qty ord \<le> s_filled_qty st"
    and "status = o_status ord \<or> transition (o_status ord) new = Inr status"
  shows "order_evolves ord (ord\<lparr>o_filled_qty := s_filled_qty st, o_filled_amount_krw := a, o_status := status\<rparr>)"
  using assms by (auto simp: order_evolves_def transition_Inr_iff status_step_iff)

lemma turn_evolves: "turn sts cid m m' \<Longrightarrow> orders_evolve (m_orders m) (m_orders m')"
proof (induction rule: turn.induct)
  case (turn_adopt m cid ord st sts m')
  then show ?case
    by (auto simp: TERMINAL_STATUSES_def order_evolves_def intro!: orders_evolve_update)
next
  case (turn_settle m cid ord no sts st child new status m')
  then show ?case by (auto intro!: orders_evolve_update turn_settle_evolves)
qed auto

lemma turn_keys: "turn sts cid m m' \<Longrightarrow> dict_keys (m_orders m') = dict_keys (m_orders m)"
  by (induction rule: turn.induct) (simp_all add: update_keys_at)

lemma turn_wf_books:
  assumes "turn sts cid m m'" "wf_books m" "j_torn (m_journal m') = []"
  shows "wf_books m'"
  using assms
proof (induction rule: turn.induct)
  case (turn_none m' m sts cid)
  then show ?case by (simp add: wf_books_def)
next
  case (turn_adopt m cid ord st sts m')
  then have "o_client_id ord = cid" "wf_order ord"
    by (auto simp: wf_books_def dest: well_keyed_id dict_all_lookup)
  with turn_adopt show ?case
    by (auto simp: wf_books_def wf_order_def intro!: well_keyed_update)
next
  case (turn_fill_only m cid ord ts m' q a pnl sts)
  then show ?case by (simp add: wf_books_def)
next
  case (turn_settle m cid ord no sts st child new status m')
  then have o: "o_client_id ord = cid" "wf_order ord"
    by (auto simp: wf_books_def dest: well_keyed_id dict_all_lookup)
  have "wf_ledger (m_ledger m')" using turn_settle by (auto simp: wf_books_def dest: apply_fill_wf)
  moreover have "wf_order (ord\<lparr>o_filled_qty := s_filled_qty st, o_filled_amount_krw := s_filled_amount_krw st, o_status := status\<rparr>)"
    using o turn_settle by (auto simp: wf_order_def)
  ultimately show ?case using turn_settle o by (auto simp: wf_books_def intro!: well_keyed_update)
qed

lemma dict_sum_update_at:
  "wf_dict d \<Longrightarrow> map_of d k = Some u \<Longrightarrow> dict_sum f (AList.update k v d) = dict_sum f d - f u + f v"
  by (simp add: dict_sum_update)

lemma turn_opening_qty:
  assumes "turn sts cid m m'" "wf_books m"
  shows "opening_qty sy m' = opening_qty sy m"
  using assms
proof (induction rule: turn.induct)
  case (turn_adopt m cid ord st sts m')
  then show ?case
    by (auto simp: opening_qty_def wf_books_def well_keyed_def dict_sum_update_at net_share_def simp del: map_of_eq_Some_iff)
next
  case (turn_settle m cid ord no sts st child new status m')
  have "ledger_qty (m_ledger m') sy - ledger_qty (m_ledger m) sy
      = (if i_symbol (o_intent ord) = sy then signed_qty (i_side (o_intent ord)) (s_filled_qty st - o_filled_qty ord) else 0)"
    using turn_settle(10) by (auto simp: signed_qty_def apply_fill_qty)
  with turn_settle show ?case
    by (auto simp: opening_qty_def wf_books_def well_keyed_def dict_sum_update_at net_share_def signed_qty_def simp del: map_of_eq_Some_iff)
qed (simp_all add: opening_qty_def wf_books_def)

lemma turn_no_oversell:
  assumes "turn sts cid m m'" "wf_books m" "no_oversell m"
  shows "no_oversell m'"
  using assms
proof (induction rule: turn.induct)
  case (turn_none m' m sts cid)
  then show ?case by (simp add: no_oversell_def open_qty_dict_sum)
next
  case (turn_adopt m cid ord st sts m')
  then show ?case
    by (auto simp: no_oversell_def open_qty_dict_sum wf_books_def well_keyed_def dict_sum_update_at open_share_def
        remaining_qty_def simp del: map_of_eq_Some_iff)
next
  case (turn_fill_only m cid ord ts m' q a pnl sts)
  then show ?case by (simp add: wf_books_def)
next
  case (turn_settle m cid ord no sts st child new status m')
  let ?ord' = "ord\<lparr>o_filled_qty := s_filled_qty st, o_filled_amount_krw := s_filled_amount_krw st, o_status := status\<rparr>"
  show ?case
    unfolding no_oversell_def open_qty_dict_sum
  proof
    fix sy
    have pos: "ledger_qty (m_ledger m') sy - ledger_qty (m_ledger m) sy
        = (if i_symbol (o_intent ord) = sy then signed_qty (i_side (o_intent ord)) (s_filled_qty st - o_filled_qty ord) else 0)"
      using turn_settle(10) by (auto simp: signed_qty_def apply_fill_qty)
    have "open_share SELL sy ?ord' - open_share SELL sy ord \<le> ledger_qty (m_ledger m') sy - ledger_qty (m_ledger m) sy"
      unfolding pos using turn_settle(2,5,6)
      by (cases "i_side (o_intent ord)") (auto simp: open_share_def open_terminal remaining_qty_def signed_qty_def)
    moreover have "dict_sum (open_share SELL sy) (m_orders m) \<le> ledger_qty (m_ledger m) sy"
      using turn_settle.prems(2) by (simp add: no_oversell_def open_qty_dict_sum)
    ultimately show "dict_sum (open_share SELL sy) (m_orders m') \<le> ledger_qty (m_ledger m') sy"
      using turn_settle by (simp add: wf_books_def well_keyed_def dict_sum_update_at del: map_of_eq_Some_iff)
  qed
qed

lemma turn_book_value:
  assumes "turn sts cid m m'" "wf_books m"
  shows "book_value (m_ledger m') = book_value (m_ledger m)"
  using assms by (induction rule: turn.induct)
    (auto simp: wf_books_def wf_ledger_def dest: apply_fill_book_value)

section \<open>Reconcile\<close>

text \<open>What neither loop touches.\<close>

definition same_session :: "'g oms \<Rightarrow> 'g oms \<Rightarrow> bool" where
  "same_session m m' \<longleftrightarrow> m_closed m' = m_closed m \<and> m_seq m' = m_seq m \<and> m_submit_times m' = m_submit_times m
     \<and> m_gateway m' = m_gateway m \<and> m_block_reason m' = m_block_reason m \<and> j_torn (m_journal m') = j_torn (m_journal m)"

lemma same_session_refl [simp, intro]: "same_session m m"
  by (simp add: same_session_def)

lemma same_session_trans [trans]: "same_session a b \<Longrightarrow> same_session b c \<Longrightarrow> same_session a c"
  by (simp add: same_session_def)

lemma same_session_record [simp]: "same_session a (snd (record_event ts ev fs b)) \<longleftrightarrow> same_session a b"
  and same_session_put [simp]: "same_session a (put_order ord b) \<longleftrightarrow> same_session a b"
  and same_session_ledger [simp]: "same_session a (b\<lparr>m_ledger := l\<rparr>) \<longleftrightarrow> same_session a b"
  by (simp_all add: same_session_def)

lemma same_session_torn: "same_session m m' \<Longrightarrow> wf_books m \<Longrightarrow> j_torn (m_journal m') = []"
  by (simp add: same_session_def wf_books_def)

lemma adopt_one_session: "same_session (r_oms rc) (r_oms (snd (adopt_one env sts cid rc)))"
  by (auto simp: adopt_one_def Let_def case_prod_beta split: option.splits list.splits sum.splits)

lemma book_fill_session: "same_session (r_oms rc) (r_oms (snd (book_fill env ord st rc)))"
  by (auto simp: book_fill_def Let_def split: sum.splits)

lemma settle_status_session: "same_session (r_oms rc) (r_oms (snd (settle_status env ord st child new rc)))"
  by (auto simp: settle_status_def Let_def case_prod_beta split: sum.splits)

lemma settle_one_session: "same_session (r_oms rc) (r_oms (snd (settle_one env sts cid rc)))"
proof -
  have step: "same_session (r_oms rc) (r_oms (snd (settle_status env ord st child new (snd (book_fill env ord st rc)))))"
    for ord st child new
    using book_fill_session settle_status_session by (rule same_session_trans)
  show ?thesis
    unfolding settle_one_def Let_def
    by (simp only: case_prod_beta split: option.splits sum.splits if_splits) (auto simp: step book_fill_session)
qed

text \<open>A whole reconciliation is a sequence of turns, whatever it raises.\<close>

inductive turns :: "broker_order_status list \<Rightarrow> 'g oms \<Rightarrow> 'g oms \<Rightarrow> bool" for sts where
  turns_refl: "turns sts m m"
| turns_step: "turns sts m m1 \<Longrightarrow> turn sts cid m1 m2 \<Longrightarrow> same_session m1 m2 \<Longrightarrow> turns sts m m2"

lemma turns_session: "turns sts m m' \<Longrightarrow> same_session m m'"
  by (induction rule: turns.induct) (auto intro: same_session_trans)

lemma turns_wf_books: "turns sts m m' \<Longrightarrow> wf_books m \<Longrightarrow> wf_books m'"
  by (induction rule: turns.induct) (auto intro: turn_wf_books same_session_torn)

lemma turns_evolve: "turns sts m m' \<Longrightarrow> orders_evolve (m_orders m) (m_orders m')"
  by (induction rule: turns.induct) (auto intro: orders_evolve_trans turn_evolves)

lemma turns_keys: "turns sts m m' \<Longrightarrow> dict_keys (m_orders m') = dict_keys (m_orders m)"
  by (induction rule: turns.induct) (auto dest: turn_keys)

lemma turns_opening_qty: "turns sts m m' \<Longrightarrow> wf_books m \<Longrightarrow> opening_qty sy m' = opening_qty sy m"
  by (induction rule: turns.induct) (auto simp: turn_opening_qty turns_wf_books)

lemma turns_book_value: "turns sts m m' \<Longrightarrow> wf_books m \<Longrightarrow> book_value (m_ledger m') = book_value (m_ledger m)"
  by (induction rule: turns.induct) (auto simp: turn_book_value turns_wf_books)

lemma turns_no_oversell: "turns sts m m' \<Longrightarrow> wf_books m \<Longrightarrow> no_oversell m \<Longrightarrow> no_oversell m'"
  by (induction rule: turns.induct) (auto intro: turn_no_oversell turns_wf_books)

lemma known_nos_update:
  assumes "m_orders m' = AList.update k ord (m_orders m)"
  shows "set (known_nos m') \<subseteq> set (known_nos m) \<union> set_option (o_broker_order_no ord)"
proof -
  have "set (List.map_filter o_broker_order_no (dict_values (AList.update k ord d)))
      \<subseteq> set (List.map_filter o_broker_order_no (dict_values d)) \<union> set_option (o_broker_order_no ord)"
    for d :: "(string, order) dict"
    by (induction d) (auto simp: List.map_filter_def split: option.splits if_splits)
  then show ?thesis using assms by (auto simp: known_nos_def)
qed

lemma adopt_one_known:
  assumes "well_keyed (m_orders (r_oms rc))" "set (known_nos (r_oms rc)) \<subseteq> set (r_known rc)"
  shows "set (known_nos (r_oms (snd (adopt_one env sts cid rc)))) \<subseteq> set (r_known (snd (adopt_one env sts cid rc)))"
proof -
  let ?rc' = "snd (adopt_one env sts cid rc)"
  consider (same) "m_orders (r_oms ?rc') = m_orders (r_oms rc)" "r_known ?rc' = r_known rc"
    | (adopt) ord :: order and mt :: broker_order_status where "r_known ?rc' = r_known rc @ [s_broker_order_no mt]"
        "m_orders (r_oms ?rc') = AList.update cid (ord\<lparr>o_broker_order_no := Some (s_broker_order_no mt),
          o_broker_org_no := Some (s_org_no mt), o_broker_order_time := Some (s_order_time mt)\<rparr>) (m_orders (r_oms rc))"
    using adopt_one_result [OF assms(1) refl, of env sts cid] by blast
  then show ?thesis
  proof cases
    case same
    with assms(2) show ?thesis by (simp add: known_nos_def)
  next
    case adopt
    with assms(2) known_nos_update [OF adopt(2)] show ?thesis by auto
  qed
qed

lemma adopt_loop_turns:
  assumes "wf_books m"
  shows "turns sts m (r_oms (snd (for_each (adopt_one env sts) ks \<lparr>r_oms = m, r_known = known_nos m, r_changed = []\<rparr>)))"
proof -
  let ?P = "\<lambda>rc. turns sts m (r_oms rc) \<and> set (known_nos (r_oms rc)) \<subseteq> set (r_known rc)"
  have "?P (snd (for_each (adopt_one env sts) ks \<lparr>r_oms = m, r_known = known_nos m, r_changed = []\<rparr>))"
  proof (rule for_each_inv)
    show "?P \<lparr>r_oms = m, r_known = known_nos m, r_changed = []\<rparr>" by (simp add: turns_refl)
  next
    fix k and rc :: "'a recon"
    assume P: "?P rc"
    then have "well_keyed (m_orders (r_oms rc))" using assms turns_wf_books by (auto simp: wf_books_def)
    with P show "?P (snd (adopt_one env sts k rc))"
      by (auto intro: turns_step adopt_one_turn adopt_one_session dest: adopt_one_known)
  qed
  then show ?thesis by blast
qed

lemma settle_loop_turns:
  assumes "wf_books m" "turns sts m (r_oms rc)"
  shows "turns sts m (r_oms (snd (for_each (settle_one env sts) ks rc)))"
proof (rule for_each_inv)
  show "turns sts m (r_oms rc)" by (fact assms(2))
next
  fix k and rc :: "'a recon"
  assume P: "turns sts m (r_oms rc)"
  then have "well_keyed (m_orders (r_oms rc))" using assms(1) turns_wf_books by (auto simp: wf_books_def)
  with P show "turns sts m (r_oms (snd (settle_one env sts k rc)))"
    by (auto intro: turns_step settle_one_turn settle_one_session)
qed

text \<open>The state after \<open>reconcile\<close>, on every path.\<close>

lemma reconcile_turns:
  assumes "wf_books m"
  shows "\<exists>sts. turns sts m (snd (reconcile cfg env m))"
proof (cases "m_closed m")
  case True
  then show ?thesis by (auto simp: reconcile_def intro: turns_refl)
next
  case False
  show ?thesis
  proof (cases "gw_fetch_statuses (c_gw cfg) (m_gateway m) (re_gw env)")
    case (Inl e)
    with False show ?thesis by (auto simp: reconcile_def intro: turns_refl)
  next
    case (Inr sts)
    let ?ks = "dict_keys (m_orders m)" and ?rc0 = "\<lparr>r_oms = m, r_known = known_nos m, r_changed = []\<rparr>"
    obtain r1 rc1 where a: "for_each (adopt_one env sts) ?ks ?rc0 = (r1, rc1)" by fastforce
    obtain r2 rc2 where b: "for_each (settle_one env sts) ?ks rc1 = (r2, rc2)" by fastforce
    have t1: "turns sts m (r_oms rc1)" using adopt_loop_turns [OF assms, of sts env ?ks] a by simp
    have t2: "turns sts m (r_oms rc2)" using settle_loop_turns [OF assms t1, of env ?ks] b by simp
    show ?thesis
      using False Inr a b t1 t2 by (cases r1; cases r2) (auto simp: reconcile_def)
  qed
qed

end
