(* ===== verification/Oms_Safety.thy ===== *)
theory Oms_Safety
  imports Oms_Props
begin

text \<open>
  The operations of the order manager as steps of one machine, and what holds in every state
  the machine reaches: no operation sells what is not held, every fill is booked exactly
  once, orders only move forward, nothing is sent past the gate or past the rate limit. The
  lemmas about sending are proved once for any gateway that keeps the laws of
  \<open>gateway_laws\<close>.
\<close>

section \<open>Client identifiers\<close>

lemma seq_of_client_id [simp]: "seq_of (JStr (client_id_of mode d n)) = Inr n"
proof -
  have digits: "list_all is_digit (zfill 6 (show_nat n))" by (simp add: zfill_digits show_nat_digits)
  then have "CHR ''-'' \<notin> set (zfill 6 (show_nat n))" by (auto simp: list_all_iff)
  then have "rsplit_dash (client_id_of mode d n) = Some (zfill 6 (show_nat n))"
    using rsplit_dash_append [of "zfill 6 (show_nat n)" "mode_value mode @ ''-'' @ strftime_Ymd d"]
    by (simp add: client_id_of_def)
  with digits show ?thesis by (simp add: seq_of_def)
qed

lemma client_id_of_inject: "client_id_of mode d n = client_id_of mode' d' n' \<Longrightarrow> n = n'"
  using seq_of_client_id [of mode d n] seq_of_client_id [of mode' d' n'] by simp

text \<open>The sequence counter is ahead of every registered order.\<close>

definition ids_below :: "'g oms \<Rightarrow> bool" where
  "ids_below m \<longleftrightarrow> (\<forall>k \<in> set (dict_keys (m_orders m)). \<exists>n \<le> m_seq m. seq_of (JStr k) = Inr n)"

definition next_id :: "('g, 'e) oms_cfg \<Rightarrow> 'e submit_env \<Rightarrow> 'g oms \<Rightarrow> string" where
  "next_id cfg env m = client_id_of (gw_mode (c_gw cfg)) (dt_date (se_now_id env)) (Suc (m_seq m))"

lemma next_id_fresh: "ids_below m \<Longrightarrow> map_of (m_orders m) (next_id cfg env m) = None"
  by (fastforce simp: ids_below_def next_id_def map_of_eq_None_iff image_iff)

definition wf_oms :: "'g oms \<Rightarrow> bool" where
  "wf_oms m \<longleftrightarrow> wf_books m \<and> ids_below m"

section \<open>What a submission does\<close>

text \<open>The intent passed the gate at a quote, in the state whose counter was just advanced.\<close>

definition gated :: "('g, 'e) oms_cfg \<Rightarrow> 'e submit_env \<Rightarrow> order_intent \<Rightarrow> 'g oms \<Rightarrow> bool" where
  "gated cfg env intent m \<longleftrightarrow> (\<exists>qt ref. se_quote env = Inr qt \<and> risk_gate cfg env intent qt (m\<lparr>m_seq := Suc (m_seq m)\<rparr>) = Inr ref)"

definition submitted :: "('g, 'e) oms_cfg \<Rightarrow> 'e submit_env \<Rightarrow> order_intent \<Rightarrow> 'g oms \<Rightarrow> order \<Rightarrow> bool" where
  "submitted cfg env intent m ord \<longleftrightarrow> o_client_id ord = next_id cfg env m \<and> o_intent ord = intent \<and> o_filled_qty ord = 0
     \<and> (o_status ord = REJECTED \<or> gated cfg env intent m)"

definition submit_effect :: "('g, 'e) oms_cfg \<Rightarrow> 'e submit_env \<Rightarrow> order_intent \<Rightarrow> 'g oms \<Rightarrow> 'g oms \<Rightarrow> bool" where
  "submit_effect cfg env intent m m' \<longleftrightarrow>
     m_ledger m' = m_ledger m \<and> j_torn (m_journal m') = j_torn (m_journal m) \<and>
     m_closed m' = m_closed m \<and> m_block_reason m' = m_block_reason m \<and>
     (m_submit_times m' = m_submit_times m \<and> m_gateway m' = m_gateway m
      \<or> gated cfg env intent m \<and> m_submit_times m' = m_submit_times m @ [se_now_sent env]) \<and>
     (m_orders m' = m_orders m \<and> m_seq m \<le> m_seq m' \<or>
      m_seq m' = Suc (m_seq m) \<and>
      (\<exists>ord. m_orders m' = AList.update (next_id cfg env m) ord (m_orders m) \<and> submitted cfg env intent m ord))"

lemma risk_gate_admissible:
  assumes "risk_gate cfg env intent qt m = Inr ref"
  shows "\<exists>orderable. admissible intent qt (c_limits cfg) (risk_context_of cfg env intent ref orderable m)
    \<and> reference_price intent qt = Inr ref"
  using assms by (auto simp: risk_gate_def rbind_Inr_iff check_intent_iff)

lemma apply_outcome_frame:
  assumes "apply_outcome oc ord = Inr ord'"
  shows "o_client_id ord' = o_client_id ord \<and> o_intent ord' = o_intent ord \<and> o_filled_qty ord' = o_filled_qty ord"
  using assms by (auto simp: apply_outcome_def rbind_Inr_iff split: outcome_kind.splits)

context gateway_laws
begin

lemma send_order_effect:
  assumes "c_gw cfg = gw" and m': "m' = snd (send_order cfg env ord qt m)"
  shows "m_ledger m' = m_ledger m \<and> j_torn (m_journal m') = j_torn (m_journal m) \<and> m_closed m' = m_closed m
    \<and> m_block_reason m' = m_block_reason m \<and> m_seq m' = m_seq m \<and> m_submit_times m' = m_submit_times m @ [se_now_sent env]
    \<and> (m_orders m' = m_orders m \<or> (\<exists>oc ord'. apply_outcome oc ord = Inr ord'
         \<and> m_orders m' = AList.update (o_client_id ord) ord' (m_orders m)))"
proof -
  obtain out g j where gws: "gw_submit gw (m_gateway m) (m_journal m) (se_gw env) ord qt = (out, g, j)"
    by (cases "gw_submit gw (m_gateway m) (m_journal m) (se_gw env) ord qt") auto
  from submit_journal [of ord "m_journal m" "m_gateway m" "se_gw env" qt]
  have torn: "j_torn j = j_torn (m_journal m)" by (simp add: gws journal_extends_def)
  show ?thesis
  proof (cases out)
    case (Inl e)
    with torn show ?thesis by (simp add: m' send_order_def Let_def assms gws)
  next
    case (Inr oc)
    show ?thesis
    proof (cases "apply_outcome oc ord")
      case (Inl e)
      with torn \<open>out = Inr oc\<close> show ?thesis by (simp add: m' send_order_def Let_def assms gws)
    next
      case (Inr ord')
      with torn \<open>out = Inr oc\<close> apply_outcome_frame [OF Inr] show ?thesis
        by (auto simp: m' send_order_def Let_def assms gws case_prod_beta)
    qed
  qed
qed

lemma submit_has_effect:
  assumes gw: "c_gw cfg = gw" and m': "m' = snd (submit cfg env intent m)"
  shows "submit_effect cfg env intent m m'"
proof (cases "m_closed m \<or> (\<exists>e. se_quote env = Inl e)")
  case True
  then show ?thesis by (auto simp: m' submit_def submit_effect_def)
next
  case False
  then obtain qt where qt: "se_quote env = Inr qt" "\<not> m_closed m" by (cases "se_quote env") auto
  let ?m1 = "m\<lparr>m_seq := Suc (m_seq m)\<rparr>"
  show ?thesis
  proof (cases "risk_gate cfg env intent qt ?m1")
    case (Inl e)
    show ?thesis
    proof (cases "\<exists>code detail. e = RiskRejectedError code detail")
      case True
      with Inl qt show ?thesis
        by (auto simp: m' submit_def reject_intent_def Let_def submit_effect_def submitted_def next_id_def new_order_def
            case_prod_beta)
    next
      case False
      with Inl qt have "m' = ?m1" by (auto simp: m' submit_def Let_def split: exn.splits)
      then show ?thesis by (simp add: submit_effect_def)
    qed
  next
    case (Inr ref)
    with qt have g: "gated cfg env intent m" by (auto simp: gated_def)
    let ?ord = "new_order (next_id cfg env m) intent PENDING_SUBMIT (se_now_created env)"
    let ?app = "record_event (se_ts_intent env) ''intent''
                       [(''client_id'', JStr (next_id cfg env m)), (''intent'', intent_json intent), (''quote'', quote_json qt),
                        (''reference_price'', JInt ref)] (put_order ?ord ?m1)"
    have sub: "submitted cfg env intent m ?ord" using g by (simp add: submitted_def new_order_def)
    show ?thesis
    proof (cases "fst ?app")
      case (Inl e)
      then have "m' = snd ?app" using qt Inr by (simp add: m' submit_def Let_def next_id_def case_prod_beta)
      with sub show ?thesis by (auto simp: submit_effect_def new_order_def)
    next
      case (Inr u)
      then have "m' = snd (send_order cfg env ?ord qt (snd ?app))"
        using qt \<open>risk_gate cfg env intent qt ?m1 = Inr ref\<close>
        by (simp add: m' submit_def Let_def next_id_def case_prod_beta)
      note send = send_order_effect [OF gw this]
      then have "m_orders m' = AList.update (next_id cfg env m) ?ord (m_orders m) \<or>
          (\<exists>ord'. m_orders m' = AList.update (next_id cfg env m) ord' (m_orders m) \<and> submitted cfg env intent m ord')"
        using g by (auto simp: update_last new_order_def submitted_def dest!: apply_outcome_frame)
      with send g sub show ?thesis unfolding submit_effect_def by auto
    qed
  qed
qed

lemma cancel_frame:
  assumes "c_gw cfg = gw" and m': "m' = snd (cancel cfg env cid m)"
  shows "m_orders m' = m_orders m \<and> m_ledger m' = m_ledger m \<and> m_seq m' = m_seq m \<and> m_submit_times m' = m_submit_times m
    \<and> m_closed m' = m_closed m \<and> m_block_reason m' = m_block_reason m \<and> j_torn (m_journal m') = j_torn (m_journal m)"
proof -
  have torn: "j_torn (snd (snd (gw_cancel gw (m_gateway m) (m_journal m) (ce_gw env) ord))) = j_torn (m_journal m)" for ord
    using cancel_journal [of ord "m_journal m" "m_gateway m" "ce_gw env"] by (simp add: journal_extends_def)
  show ?thesis
    unfolding m' cancel_def Let_def assms(1)
    by (simp add: case_prod_beta torn split: option.splits sum.splits)
qed

end

section \<open>What a submission keeps\<close>

lemma gated_qty: "gated cfg env intent m \<Longrightarrow> 1 \<le> i_qty intent"
  by (auto simp: gated_def admissible_def dest!: risk_gate_admissible)

lemma gated_sell:
  "gated cfg env intent m \<Longrightarrow> i_side intent = SELL \<Longrightarrow>
     i_qty intent + open_qty SELL (i_symbol intent) m \<le> ledger_qty (m_ledger m) (i_symbol intent)"
  by (auto simp: gated_def admissible_def within_exposure_def risk_context_of_def open_qty_def open_orders_def
      dest!: risk_gate_admissible)

lemma submitted_wf_order: "submitted cfg env intent m ord \<Longrightarrow> wf_order ord"
  using gated_qty by (fastforce simp: submitted_def wf_order_def TERMINAL_STATUSES_def)

lemma submit_effect_wf:
  assumes "submit_effect cfg env intent m m'" "wf_oms m"
  shows "wf_oms m'"
proof -
  have "wf_books m'"
    using assms submitted_wf_order
    by (fastforce simp: submit_effect_def wf_oms_def wf_books_def submitted_def intro: well_keyed_update)
  moreover have "ids_below m'"
  proof -
    have "\<exists>n \<le> m_seq m'. seq_of (JStr k) = Inr n" if "k \<in> set (dict_keys (m_orders m'))" for k
    proof (cases "k \<in> set (dict_keys (m_orders m))")
      case True
      with assms(2) obtain n where "n \<le> m_seq m" "seq_of (JStr k) = Inr n" by (auto simp: wf_oms_def ids_below_def)
      with assms(1) show ?thesis by (auto simp: submit_effect_def intro!: exI [of _ n])
    next
      case False
      then have "m_orders m' \<noteq> m_orders m" using that by metis
      then obtain ord where "m_seq m' = Suc (m_seq m)" "m_orders m' = AList.update (next_id cfg env m) ord (m_orders m)"
        using assms(1) unfolding submit_effect_def by blast
      with that False have "k = next_id cfg env m" "m_seq m' = Suc (m_seq m)" by (simp_all only: update_keys_set simp_thms)
      then show ?thesis by (simp add: next_id_def)
    qed
    then show ?thesis by (simp add: ids_below_def)
  qed
  ultimately show ?thesis by (simp add: wf_oms_def)
qed

lemma submit_effect_evolves:
  "submit_effect cfg env intent m m' \<Longrightarrow> wf_oms m \<Longrightarrow> orders_evolve (m_orders m) (m_orders m')"
  using next_id_fresh [of m cfg env] by (auto simp: submit_effect_def wf_oms_def intro: orders_evolve_new)

lemma submit_effect_sums:
  assumes "submit_effect cfg env intent m m'" "wf_oms m"
  shows "dict_sum f (m_orders m') = dict_sum f (m_orders m) \<or>
    (\<exists>ord. submitted cfg env intent m ord \<and> dict_sum f (m_orders m') = dict_sum f (m_orders m) + f ord)"
  using assms next_id_fresh [of m cfg env]
  by (auto simp: submit_effect_def wf_oms_def wf_books_def well_keyed_def dict_sum_update simp del: map_of_eq_Some_iff)

lemma submit_effect_opening_qty:
  assumes "submit_effect cfg env intent m m'" "wf_oms m"
  shows "opening_qty sy m' = opening_qty sy m"
  using submit_effect_sums [OF assms, of "net_share sy"] assms(1)
  by (auto simp: opening_qty_def submit_effect_def submitted_def net_share_def signed_qty_def)

lemma submit_effect_no_oversell:
  assumes "submit_effect cfg env intent m m'" "wf_oms m" "no_oversell m"
  shows "no_oversell m'"
proof -
  have "dict_sum (open_share SELL sy) (m_orders m') \<le> ledger_qty (m_ledger m) sy" for sy
  proof (cases "dict_sum (open_share SELL sy) (m_orders m') = dict_sum (open_share SELL sy) (m_orders m)")
    case True
    with assms(3) show ?thesis by (simp add: no_oversell_def open_qty_dict_sum)
  next
    case False
    then obtain ord where ord: "submitted cfg env intent m ord"
      "dict_sum (open_share SELL sy) (m_orders m') = dict_sum (open_share SELL sy) (m_orders m) + open_share SELL sy ord"
      using submit_effect_sums [OF assms(1,2)] by blast
    with False have "open_share SELL sy ord \<noteq> 0" by auto
    with ord(1) have "i_symbol intent = sy" "i_side intent = SELL" "open_share SELL sy ord = i_qty intent" "gated cfg env intent m"
      by (auto simp: open_share_def submitted_def remaining_qty_def OPEN_STATUSES_def split: if_splits)
    with gated_sell [of cfg env intent m] ord(2) show ?thesis by (simp add: open_qty_dict_sum)
  qed
  with assms(1) show ?thesis by (simp add: no_oversell_def open_qty_dict_sum submit_effect_def)
qed

section \<open>Retiring an order of unknown fate\<close>

definition retire :: "order \<Rightarrow> order \<Rightarrow> bool" where
  "retire ord ord' \<longleftrightarrow> o_status ord = UNKNOWN \<and> o_broker_order_no ord = None \<and> o_status ord' = REJECTED
     \<and> o_client_id ord' = o_client_id ord \<and> o_intent ord' = o_intent ord \<and> o_created_at ord' = o_created_at ord
     \<and> o_filled_qty ord' = o_filled_qty ord"

inductive retired :: "'g oms \<Rightarrow> 'g oms \<Rightarrow> bool" where
  retired_none: "m_orders m' = m_orders m \<Longrightarrow> m_ledger m' = m_ledger m \<Longrightarrow> same_session m m' \<Longrightarrow> retired m m'"
| retired_order: "map_of (m_orders m) cid = Some ord \<Longrightarrow> retire ord ord' \<Longrightarrow> m_orders m' = AList.update cid ord' (m_orders m) \<Longrightarrow>
     m_ledger m' = m_ledger m \<Longrightarrow> same_session m m' \<Longrightarrow> retired m m'"

lemma resolve_unknown_retired:
  assumes wf: "wf_books m" and m': "m' = snd (resolve_unknown cfg env ts cid reason m)"
  shows "\<exists>sts m1. turns sts m m1 \<and> retired m1 m'"
proof (cases "m_closed m \<or> map_of (m_orders m) cid = None \<or> (\<exists>ord. map_of (m_orders m) cid = Some ord \<and> o_status ord \<noteq> UNKNOWN)")
  case True
  then have "m' = m" by (auto simp: m' resolve_unknown_def)
  then show ?thesis by (auto intro!: exI [of _ m] turns_refl retired_none)
next
  case False
  obtain r m1 where rec: "reconcile cfg env m = (r, m1)" by (cases "reconcile cfg env m")
  obtain sts where t: "turns sts m m1" using reconcile_turns [OF wf, of cfg env] rec by auto
  have wk: "well_keyed (m_orders m1)" using turns_wf_books [OF t wf] by (simp add: wf_books_def)
  have "retired m1 m'"
  proof (cases "\<exists>u ord1. r = Inr u \<and> map_of (m_orders m1) cid = Some ord1 \<and> o_status ord1 = UNKNOWN \<and> o_broker_order_no ord1 = None")
    case True
    then obtain u ord1 where o: "r = Inr u" "map_of (m_orders m1) cid = Some ord1" "o_status ord1 = UNKNOWN" "o_broker_order_no ord1 = None"
      by blast
    have "transition UNKNOWN REJECTED = Inr REJECTED" by (simp add: transition_def)
    with o False rec well_keyed_id [OF wk o(2)] show ?thesis
      by (intro retired_order [OF o(2), of "ord1\<lparr>o_status := REJECTED, o_reject_code := Some ''unknown_resolved'', o_reject_message := Some reason\<rparr>"])
        (auto simp: m' resolve_unknown_def Let_def case_prod_beta retire_def)
  next
    case no: False
    have "m' = m1"
      using False rec no unfolding m' resolve_unknown_def by (auto split: option.splits sum.splits)
    then show ?thesis by (auto intro: retired_none)
  qed
  with t show ?thesis by blast
qed

lemma retired_evolves: "retired m m' \<Longrightarrow> orders_evolve (m_orders m) (m_orders m')"
  by (induction rule: retired.induct)
    (auto simp: retire_def order_evolves_def TERMINAL_STATUSES_def status_step_iff intro!: orders_evolve_update r_into_rtranclp)

lemma retired_wf_books: "retired m m' \<Longrightarrow> wf_books m \<Longrightarrow> wf_books m'"
proof (induction rule: retired.induct)
  case (retired_none m' m)
  then show ?case by (simp add: wf_books_def same_session_def)
next
  case (retired_order m cid ord ord' m')
  then have "o_client_id ord = cid" "wf_order ord" by (auto simp: wf_books_def dest: well_keyed_id dict_all_lookup)
  with retired_order show ?case
    by (auto simp: wf_books_def same_session_def retire_def wf_order_def TERMINAL_STATUSES_def intro!: well_keyed_update)
qed

lemma retired_keys: "retired m m' \<Longrightarrow> dict_keys (m_orders m') = dict_keys (m_orders m) \<and> m_ledger m' = m_ledger m \<and> same_session m m'"
  by (induction rule: retired.induct) (auto simp: update_keys_at)

lemma retired_sum:
  "retired m m' \<Longrightarrow> wf_books m \<Longrightarrow> (\<And>ord ord'. retire ord ord' \<Longrightarrow> wf_order ord \<Longrightarrow> f ord' \<le> f ord) \<Longrightarrow>
     dict_sum f (m_orders m') \<le> dict_sum f (m_orders m)"
proof (induction rule: retired.induct)
  case (retired_order m cid ord ord' m')
  then have "f ord' \<le> f ord" by (auto simp: wf_books_def dest: dict_all_lookup)
  with retired_order show ?case by (simp add: wf_books_def well_keyed_def dict_sum_update_at del: map_of_eq_Some_iff)
qed simp

lemma retired_opening_qty:
  assumes "retired m m'" "wf_books m"
  shows "opening_qty sy m' = opening_qty sy m"
proof -
  have "dict_sum (net_share sy) (m_orders m') \<le> dict_sum (net_share sy) (m_orders m)"
    by (rule retired_sum [OF assms]) (simp add: retire_def net_share_def)
  moreover have "dict_sum (\<lambda>ord. - net_share sy ord) (m_orders m') \<le> dict_sum (\<lambda>ord. - net_share sy ord) (m_orders m)"
    by (rule retired_sum [OF assms]) (simp add: retire_def net_share_def)
  moreover have "dict_sum (\<lambda>ord. - net_share sy ord) d = - dict_sum (net_share sy) d" for d :: "(string, order) dict"
    by (induction d) simp_all
  ultimately show ?thesis using retired_keys [OF assms(1)] by (simp add: opening_qty_def)
qed

lemma open_share_nonneg: "wf_order ord \<Longrightarrow> 0 \<le> open_share sd sy ord"
  by (auto simp: wf_order_def open_share_def open_terminal remaining_qty_def)

lemma retired_no_oversell:
  assumes "retired m m'" "wf_books m" "no_oversell m"
  shows "no_oversell m'"
proof -
  have "dict_sum (open_share SELL sy) (m_orders m') \<le> dict_sum (open_share SELL sy) (m_orders m)" for sy
    by (rule retired_sum [OF assms(1,2)]) (auto simp: retire_def open_share_def OPEN_STATUSES_def wf_order_def TERMINAL_STATUSES_def remaining_qty_def)
  moreover have "m_ledger m' = m_ledger m" using retired_keys [OF assms(1)] by simp
  ultimately show ?thesis using assms(3) by (fastforce simp: no_oversell_def open_qty_dict_sum intro: order_trans)
qed

section \<open>The machine\<close>

text \<open>
  One call on the manager, whatever it returns or raises. \<open>E\<close> restricts what a submission may
  meet in its environment, \<open>R\<close> what a reconciliation may meet; \<open>await_terminal\<close> is a sequence of reconciliations.
\<close>

inductive oms_step :: "('e submit_env \<Rightarrow> bool) \<Rightarrow> ('e reconcile_env \<Rightarrow> bool) \<Rightarrow> ('g, 'e) oms_cfg \<Rightarrow> 'g oms \<Rightarrow> 'g oms \<Rightarrow> bool" for E R cfg where
  step_submit: "E env \<Longrightarrow> oms_step E R cfg m (snd (submit cfg env intent m))"
| step_cancel: "oms_step E R cfg m (snd (cancel cfg cenv cid m))"
| step_reconcile: "R renv \<Longrightarrow> oms_step E R cfg m (snd (reconcile cfg renv m))"
| step_resolve: "R renv \<Longrightarrow> oms_step E R cfg m (snd (resolve_unknown cfg renv ts cid reason m))"
| step_block: "oms_step E R cfg m (block_submits reason m)"
| step_close: "oms_step E R cfg m (close m)"

abbreviation oms_reach :: "('e submit_env \<Rightarrow> bool) \<Rightarrow> ('e reconcile_env \<Rightarrow> bool) \<Rightarrow> ('g, 'e) oms_cfg \<Rightarrow> 'g oms \<Rightarrow> 'g oms \<Rightarrow> bool" where
  "oms_reach E R cfg \<equiv> (oms_step E R cfg)\<^sup>*\<^sup>*"

lemma frame_keeps:
  assumes "m_orders m' = m_orders m" "m_ledger m' = m_ledger m" "m_seq m' = m_seq m" "j_torn (m_journal m') = j_torn (m_journal m)"
  shows "wf_oms m' = wf_oms m" "no_oversell m' = no_oversell m" "opening_qty sy m' = opening_qty sy m"
    "orders_evolve (m_orders m) (m_orders m')"
  using assms
  by (simp_all add: wf_oms_def wf_books_def ids_below_def no_oversell_def open_qty_dict_sum opening_qty_def)

lemma block_close_frame [simp]:
  "m_orders (block_submits r m) = m_orders m" "m_ledger (block_submits r m) = m_ledger m" "m_seq (block_submits r m) = m_seq m"
  "m_journal (block_submits r m) = m_journal m" "m_submit_times (block_submits r m) = m_submit_times m"
  "m_orders (close m) = m_orders m" "m_ledger (close m) = m_ledger m" "m_seq (close m) = m_seq m"
  "m_journal (close m) = m_journal m" "m_submit_times (close m) = m_submit_times m"
  by (simp_all add: block_submits_def close_def)

lemma turns_wf_oms: "turns sts m m' \<Longrightarrow> wf_oms m \<Longrightarrow> wf_oms m'"
  using turns_keys [of sts m m'] turns_session [of sts m m'] turns_wf_books [of sts m m']
  by (auto simp: wf_oms_def ids_below_def same_session_def simp del: set_map)

lemma retired_wf_oms: "retired m m' \<Longrightarrow> wf_oms m \<Longrightarrow> wf_oms m'"
  using retired_keys [of m m'] retired_wf_books [of m m']
  by (auto simp: wf_oms_def ids_below_def same_session_def simp del: set_map)

text \<open>What a step keeps, in one predicate.\<close>

definition keeps :: "'g oms \<Rightarrow> 'g oms \<Rightarrow> bool" where
  "keeps m m' \<longleftrightarrow> wf_oms m' \<and> orders_evolve (m_orders m) (m_orders m') \<and> book_value (m_ledger m') = book_value (m_ledger m)
     \<and> (\<forall>sy. opening_qty sy m' = opening_qty sy m) \<and> (no_oversell m \<longrightarrow> no_oversell m')"

lemma keeps_refl: "wf_oms m \<Longrightarrow> keeps m m"
  by (simp add: keeps_def)

lemma keeps_trans: "keeps a b \<Longrightarrow> keeps b c \<Longrightarrow> keeps a c"
  by (auto simp: keeps_def intro: orders_evolve_trans)

lemma turns_keeps: "turns sts m m' \<Longrightarrow> wf_oms m \<Longrightarrow> keeps m m'"
  unfolding keeps_def using turns_wf_oms [of sts m m'] turns_evolve [of sts m m']
  by (auto simp: wf_oms_def turns_book_value turns_opening_qty turns_no_oversell)

lemma retired_keeps: "retired m m' \<Longrightarrow> wf_oms m \<Longrightarrow> keeps m m'"
  unfolding keeps_def using retired_wf_oms [of m m'] retired_evolves [of m m']
  by (auto simp: wf_oms_def retired_opening_qty retired_no_oversell retired_keys)

lemma submit_effect_keeps: "submit_effect cfg env intent m m' \<Longrightarrow> wf_oms m \<Longrightarrow> keeps m m'"
  unfolding keeps_def
  using submit_effect_wf submit_effect_evolves submit_effect_opening_qty submit_effect_no_oversell
  by (metis submit_effect_def)

lemma frame_is_kept:
  assumes "m_orders m' = m_orders m" "m_ledger m' = m_ledger m" "m_seq m' = m_seq m" "j_torn (m_journal m') = j_torn (m_journal m)" "wf_oms m"
  shows "keeps m m'"
  unfolding keeps_def using assms frame_keeps [OF assms(1-4)] by simp

lemma reconcile_keeps: "wf_oms m \<Longrightarrow> keeps m (snd (reconcile cfg env m))"
  using reconcile_turns [of m cfg env] turns_keeps by (auto simp: wf_oms_def)

lemma resolve_keeps:
  assumes "wf_oms m"
  shows "keeps m (snd (resolve_unknown cfg env ts cid reason m))"
proof -
  obtain sts m1 where "turns sts m m1" "retired m1 (snd (resolve_unknown cfg env ts cid reason m))"
    using resolve_unknown_retired [OF _ refl, of m cfg env ts cid reason] assms by (auto simp: wf_oms_def)
  with assms show ?thesis by (meson keeps_trans retired_keeps turns_keeps turns_wf_oms)
qed

lemma poll_keeps: "wf_oms m \<Longrightarrow> keeps m (snd (poll cfg env m))"
  using reconcile_keeps [of m cfg env] by (auto simp: poll_def split: prod.splits sum.splits exn.splits)

lemma await_loop_keeps:
  "wf_oms m \<Longrightarrow> await_loop fuel cfg env clock timeout k cid m = Some (r, m') \<Longrightarrow> keeps m m'"
proof (induction fuel arbitrary: k m)
  case 0
  then show ?case by simp
next
  case (Suc fuel)
  obtain p m1 where p: "poll cfg (env k) m = (p, m1)" by (cases "poll cfg (env k) m")
  have k1: "keeps m m1" using poll_keeps [OF Suc.prems(1), of cfg "env k"] p by simp
  then have "wf_oms m1" by (simp add: keeps_def)
  with Suc k1 p keeps_refl [OF Suc.prems(1)] show ?case
    by (auto split: if_splits sum.splits intro: keeps_trans)
qed

lemma await_terminal_keeps:
  assumes "wf_oms m" "await_terminal fuel cfg env clock timeout cid m = Some (r, m')"
  shows "keeps m m'"
proof -
  obtain p m1 where p: "poll cfg (env 0) m = (p, m1)" by (cases "poll cfg (env 0) m")
  have k1: "keeps m m1" using poll_keeps [OF assms(1), of cfg "env 0"] p by simp
  then have "wf_oms m1" by (simp add: keeps_def)
  with assms k1 p keeps_refl [OF assms(1)] show ?thesis
    by (auto simp: await_terminal_def split: if_splits sum.splits intro: keeps_trans dest: await_loop_keeps)
qed

context gateway_laws
begin

lemma step_keeps: "oms_step E R cfg m m' \<Longrightarrow> c_gw cfg = gw \<Longrightarrow> wf_oms m \<Longrightarrow> keeps m m'"
proof (induction rule: oms_step.induct)
  case (step_submit env m intent)
  then show ?case using submit_effect_keeps [OF submit_has_effect [OF step_submit(2) refl]] by blast
next
  case (step_cancel m cenv cid)
  then show ?case using cancel_frame [OF step_cancel(1) refl, of cenv cid m] by (intro frame_is_kept) simp_all
qed (simp_all add: reconcile_keeps resolve_keeps frame_is_kept)

lemma reach_keeps: "oms_reach E R cfg m m' \<Longrightarrow> c_gw cfg = gw \<Longrightarrow> wf_oms m \<Longrightarrow> keeps m m'"
proof (induction rule: rtranclp_induct)
  case base
  then show ?case by (simp add: keeps_refl)
next
  case (step y z)
  then have "keeps m y" by blast
  then have "keeps y z" using step by (auto simp: keeps_def [of m y] intro: step_keeps)
  with \<open>keeps m y\<close> show ?case by (rule keeps_trans)
qed

end

section \<open>The rate limit\<close>

text \<open>No window of sixty seconds, wherever it ends, holds more submissions than the limit allows.\<close>

definition sent_in_window :: "int \<Rightarrow> 'g oms \<Rightarrow> nat" where
  "sent_in_window x m = length (filter (\<lambda>t. x - seconds 60 < utc_us t \<and> utc_us t \<le> x) (m_submit_times m))"

definition rate_ok :: "('g, 'e) oms_cfg \<Rightarrow> 'g oms \<Rightarrow> bool" where
  "rate_ok cfg m \<longleftrightarrow> (\<forall>x. int (sent_in_window x m) \<le> max 0 (max_orders_per_minute (c_limits cfg)))"

text \<open>Within one submission the clock does not run backwards.\<close>

definition clock_forward :: "'e submit_env \<Rightarrow> bool" where
  "clock_forward env \<longleftrightarrow> utc_us (se_now_window env) \<le> utc_us (se_now_sent env)"

lemma gated_rate:
  "gated cfg env intent m \<Longrightarrow>
     int (length (filter (\<lambda>t. utc_us t > utc_us (se_now_window env) - seconds 60) (m_submit_times m))) < max_orders_per_minute (c_limits cfg)"
  by (auto simp: gated_def admissible_def risk_context_of_def dest!: risk_gate_admissible)

lemma submit_effect_rate:
  assumes eff: "submit_effect cfg env intent m m'" and clk: "clock_forward env" and ok: "rate_ok cfg m"
  shows "rate_ok cfg m'"
proof (cases "m_submit_times m' = m_submit_times m")
  case True
  with ok show ?thesis by (simp add: rate_ok_def sent_in_window_def)
next
  case False
  with eff have g: "gated cfg env intent m" and ts: "m_submit_times m' = m_submit_times m @ [se_now_sent env]"
    by (auto simp: submit_effect_def)
  show ?thesis
    unfolding rate_ok_def
  proof
    fix x
    show "int (sent_in_window x m') \<le> max 0 (max_orders_per_minute (c_limits cfg))"
    proof (cases "x - seconds 60 < utc_us (se_now_sent env) \<and> utc_us (se_now_sent env) \<le> x")
      case True
      have "sent_in_window x m \<le> length (filter (\<lambda>t. utc_us t > utc_us (se_now_window env) - seconds 60) (m_submit_times m))"
        unfolding sent_in_window_def using True clk by (intro length_filter_mono) (auto simp: clock_forward_def)
      with gated_rate [OF g] True ts show ?thesis by (simp add: sent_in_window_def)
    next
      case False
      then have "sent_in_window x m' = sent_in_window x m" using ts by (auto simp: sent_in_window_def)
      with ok show ?thesis by (simp add: rate_ok_def)
    qed
  qed
qed

context gateway_laws
begin

lemma step_times:
  "oms_step E R cfg m m' \<Longrightarrow> c_gw cfg = gw \<Longrightarrow> wf_oms m \<Longrightarrow>
     m_submit_times m' = m_submit_times m \<or> (\<exists>env intent. E env \<and> submit_effect cfg env intent m m')"
proof (induction rule: oms_step.induct)
  case (step_submit env m intent)
  then show ?case using submit_has_effect [OF step_submit(2) refl] by blast
next
  case (step_cancel m cenv cid)
  then show ?case using cancel_frame [OF step_cancel(1) refl, of cenv cid m] by simp
next
  case (step_reconcile renv m)
  then show ?case
    using reconcile_turns [of m cfg renv] turns_session by (fastforce simp: wf_oms_def same_session_def)
next
  case (step_resolve renv m ts cid reason)
  then show ?case
    using resolve_unknown_retired [OF _ refl, of m cfg renv ts cid reason] turns_session retired_keys
    by (fastforce simp: wf_oms_def same_session_def)
qed simp_all

lemma reach_rate:
  "oms_reach clock_forward R cfg m m' \<Longrightarrow> c_gw cfg = gw \<Longrightarrow> wf_oms m \<Longrightarrow> rate_ok cfg m \<Longrightarrow> rate_ok cfg m'"
proof (induction rule: rtranclp_induct)
  case base
  then show ?case by simp
next
  case (step y z)
  then have "wf_oms y" using reach_keeps [OF step(1)] by (simp add: keeps_def)
  then consider "m_submit_times z = m_submit_times y" | env intent where "clock_forward env" "submit_effect cfg env intent y z"
    using step_times [OF step(2)] step.prems by blast
  then show ?case
  proof cases
    case 1
    with step show ?thesis by (simp add: rate_ok_def sent_in_window_def)
  next
    case 2
    with step show ?thesis by (blast intro: submit_effect_rate)
  qed
qed

end

section \<open>Fills of reachable states\<close>

lemma open_share_le:
  assumes "wf_books m" "map_of (m_orders m) cid = Some ord" "o_status ord \<notin> TERMINAL_STATUSES"
  shows "remaining_qty ord \<le> open_qty (i_side (o_intent ord)) (i_symbol (o_intent ord)) m"
proof -
  let ?f = "open_share (i_side (o_intent ord)) (i_symbol (o_intent ord))"
  have "?f ord \<le> dict_sum ?f (m_orders m)"
    unfolding dict_sum_def using assms open_share_nonneg
    by (intro order_trans [OF _ sum_list_map_le_member [of "(cid, ord)"]]) (auto simp: wf_books_def dict_all_iff dest: map_of_SomeD)
  with assms show ?thesis by (simp add: open_qty_dict_sum open_share_def open_terminal)
qed

text \<open>A cumulative fill within the order's quantity is always bookable: the position covers it.\<close>

lemma fill_covered:
  assumes "wf_books m" "no_oversell m" "map_of (m_orders m) cid = Some ord" "o_status ord \<notin> TERMINAL_STATUSES"
    and "0 < q" "q \<le> remaining_qty ord" "0 \<le> a"
  shows "\<exists>pnl l. apply_fill (m_ledger m) (i_symbol (o_intent ord)) (i_side (o_intent ord)) q a = Inr (pnl, l)"
proof (rule apply_fill_ok)
  show "q \<le> ledger_qty (m_ledger m) (i_symbol (o_intent ord))" if "i_side (o_intent ord) = SELL"
    using open_share_le [OF assms(1,3,4)] assms(2,6) that by (fastforce simp: no_oversell_def intro: order_trans)
qed (use assms in simp_all)

section \<open>Waiting\<close>

lemma await_loop_returns:
  assumes "clock (k + n) - clock 0 \<ge> timeout"
  shows "\<exists>res. await_loop (Suc n) cfg env clock timeout k cid m = Some res"
  using assms
proof (induction n arbitrary: k m)
  case 0
  then show ?case by simp
next
  case (Suc n)
  then have "\<exists>res. await_loop (Suc n) cfg env clock timeout (Suc k) cid m' = Some res" for m' by simp
  then show ?case
    by (subst await_loop.simps) (auto simp del: await_loop.simps split: prod.splits sum.splits)
qed

lemma await_loop_result:
  "await_loop fuel cfg env clock timeout k cid m = Some (Inr ord, m') \<Longrightarrow>
     map_of (m_orders m') cid = Some ord \<and> (o_status ord \<in> TERMINAL_STATUSES \<or> (\<exists>j \<ge> k. timeout \<le> clock j - clock 0))"
proof (induction fuel arbitrary: k m)
  case 0
  then show ?case by simp
next
  case (Suc fuel)
  show ?case
  proof (cases "clock k - clock 0 < timeout")
    case False
    with Suc.prems show ?thesis by (auto simp: lookup_order_def not_less split: option.splits)
  next
    case True
    obtain r1 m1 where p: "poll cfg (env k) m = (r1, m1)" by (cases "poll cfg (env k) m")
    with True Suc.prems obtain ord1 where "lookup_order cid m1 = Inr ord1" by (auto split: sum.splits)
    with True p Suc.prems Suc.IH [of "Suc k" m1] show ?thesis
      by (auto simp: lookup_order_def split: sum.splits option.splits if_splits intro: Suc_leD)
  qed
qed

end
