(* ===== verification/Oms_Recovery.thy ===== *)
theory Oms_Recovery
  imports Oms_Safety
begin

text \<open>
  The journal is a faithful log of the session: replaying the records written so far rebuilds
  the orders and the ledger of the manager, in every state a session reaches. What a restart
  loses is the orders the gate itself rejected, which were never sent.
\<close>

section \<open>Memory and replayed orders\<close>

text \<open>
  Agreement up to the creation time, which the journal stamps with its own clock reading, and
  the reject texts. An order whose sending was interrupted counts as of unknown fate.
\<close>

definition same_order :: "order \<Rightarrow> order \<Rightarrow> bool" where
  "same_order a b \<longleftrightarrow> o_client_id b = o_client_id a \<and> o_intent b = o_intent a
     \<and> o_status (pending_to_unknown b) = o_status (pending_to_unknown a)
     \<and> o_broker_order_no b = o_broker_order_no a \<and> o_broker_org_no b = o_broker_org_no a
     \<and> o_broker_order_time b = o_broker_order_time a
     \<and> o_filled_qty b = o_filled_qty a \<and> o_filled_amount_krw b = o_filled_amount_krw a"

definition mirror_at :: "order option \<Rightarrow> order option \<Rightarrow> bool" where
  "mirror_at x y = (case y of Some b \<Rightarrow> (\<exists>a. x = Some a \<and> same_order a b)
     | None \<Rightarrow> (\<forall>a. x = Some a \<longrightarrow> o_status a = REJECTED))"

definition mirrors :: "(string, order) dict \<Rightarrow> (string, order) dict \<Rightarrow> bool" where
  "mirrors orders d \<longleftrightarrow> wf_dict d \<and> (\<forall>k. mirror_at (map_of orders k) (map_of d k))"

lemma mirror_at_simps [simp]:
  "mirror_at (Some a) (Some b) = same_order a b"
  "mirror_at (Some a) None \<longleftrightarrow> o_status a = REJECTED"
  "\<not> mirror_at None (Some b)"
  "mirror_at None None"
  by (auto simp: mirror_at_def)

lemma mirrorsD:
  assumes "mirrors orders d" "map_of orders k = Some a" "o_status a \<noteq> REJECTED"
  shows "\<exists>b. map_of d k = Some b \<and> same_order a b"
proof -
  have "mirror_at (Some a) (map_of d k)" using assms(1,2) unfolding mirrors_def by metis
  with assms(3) show ?thesis by (cases "map_of d k") auto
qed

lemma mirrors_update:
  assumes "mirrors orders d" "same_order a b"
  shows "mirrors (AList.update k a orders) (AList.update k b d)"
  using assms unfolding mirrors_def by simp

lemma mirrors_rejected:
  assumes "mirrors orders d" "map_of d k = None" "o_status a = REJECTED"
  shows "mirrors (AList.update k a orders) d"
  using assms unfolding mirrors_def by simp

lemma mirrors_absent:
  assumes "mirrors orders d" "map_of orders k = None"
  shows "map_of d k = None"
proof -
  have "mirror_at None (map_of d k)" using assms unfolding mirrors_def by metis
  then show ?thesis by (cases "map_of d k") auto
qed

section \<open>A journal that tracks a session\<close>

definition ledger_start :: "cost_model \<Rightarrow> jobj list \<Rightarrow> ledger \<Rightarrow> bool" where
  "ledger_start cm recs l0 \<longleftrightarrow> (\<exists>first rest rows ps. filter (\<lambda>r. jget r ''event'' = JStr ''session_start'') recs = first # rest
     \<and> jget first ''holdings'' = JList rows \<and> rfold snapshot_row rows [] = Inr ps \<and> l0 = new_ledger 0 cm ps)"

definition tracks :: "cost_model \<Rightarrow> (string, order) dict \<Rightarrow> ledger \<Rightarrow> nat \<Rightarrow> nat \<Rightarrow> jobj list \<Rightarrow> bool" where
  "tracks cm orders l sq n recs \<longleftrightarrow> (\<exists>d l0 top ts.
     rfold replay_record recs [] = Inr d \<and> mirrors orders d
     \<and> ledger_start cm recs l0 \<and> rfold (replay_ledger_fill d) recs l0 = Inr l
     \<and> rfold scan_record recs (0, []) = Inr (top, ts) \<and> top \<le> sq \<and> length ts = n
     \<and> (\<forall>k \<in> set (dict_keys orders). \<exists>i \<le> top. seq_of (JStr k) = Inr i))"

lemma ledger_start_append: "ledger_start cm recs l0 \<Longrightarrow> ledger_start cm (recs @ rs) l0"
  by (auto simp: ledger_start_def)

text \<open>The replayed fills read the intents only, which never change.\<close>

lemma replay_ledger_intents:
  assumes "\<And>k b. map_of d k = Some b \<Longrightarrow> \<exists>b'. map_of d' k = Some b' \<and> o_intent b' = o_intent b"
    and "rfold (replay_ledger_fill d) recs l0 = Inr l"
  shows "rfold (replay_ledger_fill d') recs l0 = Inr l"
  using assms(2)
proof (induction recs arbitrary: l0)
  case Nil
  then show ?case by simp
next
  case (Cons r recs)
  then obtain l1 where l1: "replay_ledger_fill d r l0 = Inr l1" "rfold (replay_ledger_fill d) recs l1 = Inr l"
    by (auto simp: rbind_Inr_iff)
  have "replay_ledger_fill d' r l0 = Inr l1"
  proof (cases "map_of d (py_str (jget r ''client_id''))")
    case None
    with l1(1) show ?thesis by (auto simp: replay_ledger_fill_def split: if_splits)
  next
    case (Some b)
    with assms(1) [OF Some] l1(1) show ?thesis by (auto simp: replay_ledger_fill_def)
  qed
  with Cons.IH [OF l1(2)] show ?case by simp
qed

text \<open>A record of an order the journal knows, which is neither an intent nor a fill.\<close>

definition order_line :: "string \<Rightarrow> jobj \<Rightarrow> bool" where
  "order_line cid r \<longleftrightarrow> map_of r ''client_id'' = Some (JStr cid)
     \<and> (\<exists>ev. jget r ''event'' = JStr ev \<and> ev \<noteq> ''intent'' \<and> ev \<noteq> ''risk_reject'')"

lemma replay_record_order:
  assumes "order_line cid r" "seq_of (JStr cid) = Inr i" "map_of d cid = Some b" "replay_event r b = Inr b'"
  shows "replay_record r d = Inr (AList.update cid b' d)"
  using assms by (auto simp: order_line_def replay_record_def Let_def jget_def has_key_def)

lemma order_line_skips:
  assumes "order_line cid r"
  shows "scan_record r acc = Inr acc"
    and "jget r ''event'' \<noteq> JStr ''fill'' \<Longrightarrow> replay_ledger_fill d r l = Inr l"
  using assms by (auto simp: order_line_def scan_record_def replay_ledger_fill_def)

lemma update_present: "k \<in> set (dict_keys d) \<Longrightarrow> set (dict_keys (AList.update k v d)) = set (dict_keys d)"
  by (simp only: set_eq_iff update_keys_set) blast

lemma tracks_order_line:
  assumes tr: "tracks cm orders l sq n recs" and line: "order_line cid r"
    and a: "map_of orders cid = Some a" "o_status a \<noteq> REJECTED"
    and ev: "\<And>b. same_order a b \<Longrightarrow> \<exists>b'. replay_event r b = Inr b' \<and> same_order a' b'"
    and fill: "\<And>d b. map_of d cid = Some b \<Longrightarrow> same_order a' b \<Longrightarrow> replay_ledger_fill d r l = Inr l'"
    and intent: "o_intent a' = o_intent a"
  shows "tracks cm (AList.update cid a' orders) l' sq n (recs @ [r])"
proof -
  obtain d l0 top ts where t: "rfold replay_record recs [] = Inr d" "mirrors orders d" "ledger_start cm recs l0"
    "rfold (replay_ledger_fill d) recs l0 = Inr l" "rfold scan_record recs (0, []) = Inr (top, ts)" "top \<le> sq" "length ts = n"
    "\<forall>k \<in> set (dict_keys orders). \<exists>i \<le> top. seq_of (JStr k) = Inr i"
    using tr unfolding tracks_def by blast
  obtain b where b: "map_of d cid = Some b" "same_order a b" using mirrorsD [OF t(2) a] by blast
  obtain b' where b': "replay_event r b = Inr b'" "same_order a' b'" using ev [OF b(2)] by blast
  have key: "cid \<in> set (dict_keys orders)" using a(1) by (rule map_of_key)
  then obtain i where i: "seq_of (JStr cid) = Inr i" using t(8) by blast
  let ?d = "AList.update cid b' d"
  have rep: "rfold replay_record (recs @ [r]) [] = Inr ?d"
    using t(1) replay_record_order [OF line i b(1) b'(1)] by (simp add: rfold_append)
  have led: "rfold (replay_ledger_fill ?d) recs l0 = Inr l"
  proof (rule replay_ledger_intents [OF _ t(4)])
    fix k c
    assume "map_of d k = Some c"
    then show "\<exists>c'. map_of ?d k = Some c' \<and> o_intent c' = o_intent c"
      using b b' intent by (cases "k = cid") (auto simp: same_order_def)
  qed
  have "replay_ledger_fill ?d r l = Inr l'" using fill [of ?d b'] b'(2) by simp
  with led have "rfold (replay_ledger_fill ?d) (recs @ [r]) l0 = Inr l'" by (simp add: rfold_append)
  moreover have "rfold scan_record (recs @ [r]) (0, []) = Inr (top, ts)"
    using t(5) by (simp add: rfold_append order_line_skips(1) [OF line])
  ultimately show ?thesis
    unfolding tracks_def
    using rep mirrors_update [OF t(2) b'(2), of cid] ledger_start_append [OF t(3)] t(6-8) update_present [OF key]
    by (intro exI [of _ ?d] exI [of _ l0] exI [of _ top] exI [of _ ts]) simp
qed

lemma update_same: "wf_dict d \<Longrightarrow> map_of d k = Some v \<Longrightarrow> AList.update k v d = d"
  by (induction d) auto

text \<open>A record that changes no order.\<close>

lemma tracks_neutral:
  assumes "tracks cm orders l sq n recs" "order_line cid r" "map_of orders cid = Some a" "o_status a \<noteq> REJECTED" "wf_dict orders"
    and "\<And>b. replay_event r b = Inr b" "jget r ''event'' \<noteq> JStr ''fill''"
  shows "tracks cm orders l sq n (recs @ [r])"
proof -
  have "tracks cm (AList.update cid a orders) l sq n (recs @ [r])"
    using assms order_line_skips(2) [OF assms(2)] by (intro tracks_order_line [OF assms(1-4)]) auto
  with assms(3,5) show ?thesis by (simp add: update_same del: map_of_eq_Some_iff)
qed

section \<open>The records of the order manager\<close>

lemma tracks_intent:
  assumes tr: "tracks cm orders l sq n recs" and new: "map_of orders cid = None" and "seq_of (JStr cid) = Inr i"
    and "sq \<le> i" "valid_datetime ts"
    and r: "r = append_record mode ts ''intent'' [(''client_id'', JStr cid), (''intent'', intent_json intent),
        (''quote'', quote_json qt), (''reference_price'', JInt ref)]"
  shows "tracks cm (AList.update cid (new_order cid intent PENDING_SUBMIT created) orders) l i (Suc n) (recs @ [r])"
proof -
  obtain d l0 top times where t: "rfold replay_record recs [] = Inr d" "mirrors orders d" "ledger_start cm recs l0"
    "rfold (replay_ledger_fill d) recs l0 = Inr l" "rfold scan_record recs (0, []) = Inr (top, times)" "top \<le> sq" "length times = n"
    "\<forall>k \<in> set (dict_keys orders). \<exists>i \<le> top. seq_of (JStr k) = Inr i"
    using tr unfolding tracks_def by blast
  have absent: "map_of d cid = None" by (rule mirrors_absent [OF t(2) new])
  have fields: "jget r ''event'' = JStr ''intent''" "jget r ''client_id'' = JStr cid" "jget r ''ts'' = JStr (isoformat ts)"
    "jget r ''intent'' = redact (intent_json intent)"
    by (simp_all add: r record_simps)
  let ?b = "new_order cid intent PENDING_SUBMIT ts"
  let ?d = "AList.update cid ?b d"
  have rep: "rfold replay_record (recs @ [r]) [] = Inr ?d"
    using t(1) absent assms(3,5) by (simp add: rfold_append replay_record_def fields intent_of_json parse_ts_isoformat new_order_def)
  have led: "rfold (replay_ledger_fill ?d) recs l0 = Inr l"
    by (rule replay_ledger_intents [OF _ t(4)]) (use absent in auto)
  have led': "rfold (replay_ledger_fill ?d) (recs @ [r]) l0 = Inr l"
    using led by (simp add: rfold_append replay_ledger_fill_def fields)
  have scan: "rfold scan_record (recs @ [r]) (0, []) = Inr (max top i, times @ [ts])"
    using t(5) assms(3,5) by (simp add: rfold_append scan_record_def fields parse_ts_isoformat)
  have keys: "\<exists>j \<le> max top i. seq_of (JStr k) = Inr j" if "k \<in> set (dict_keys (AList.update cid c orders))" for k c
    using that t(8) assms(3) unfolding update_keys_set by (auto intro: le_max_iff_disj [THEN iffD2] simp del: set_map)
  have "mirrors (AList.update cid (new_order cid intent PENDING_SUBMIT created) orders) ?d"
    using t(2) by (rule mirrors_update) (simp add: same_order_def new_order_def pending_to_unknown_def)
  with rep led' scan keys t(3,6,7) assms(4) show ?thesis
    unfolding tracks_def
    by (intro exI [of _ ?d] exI [of _ l0] exI [of _ "max top i"] exI [of _ "times @ [ts]"]) (simp add: ledger_start_append)
qed

lemma tracks_risk_reject:
  assumes tr: "tracks cm orders l sq n recs" and new: "map_of orders cid = None" and "seq_of (JStr cid) = Inr i" "sq \<le> i"
    and r: "r = append_record mode ts ''risk_reject'' [(''client_id'', JStr cid), (''intent'', intent_json intent),
        (''code'', JStr code), (''detail'', JStr detail), (''quote'', quote_json qt)]"
    and ord: "o_status ord = REJECTED"
  shows "tracks cm (AList.update cid ord orders) l i n (recs @ [r])"
proof -
  obtain d l0 top times where t: "rfold replay_record recs [] = Inr d" "mirrors orders d" "ledger_start cm recs l0"
    "rfold (replay_ledger_fill d) recs l0 = Inr l" "rfold scan_record recs (0, []) = Inr (top, times)" "top \<le> sq" "length times = n"
    "\<forall>k \<in> set (dict_keys orders). \<exists>i \<le> top. seq_of (JStr k) = Inr i"
    using tr unfolding tracks_def by blast
  have fields: "jget r ''event'' = JStr ''risk_reject''" "jget r ''client_id'' = JStr cid"
    by (simp_all add: r record_simps)
  have rep: "rfold replay_record (recs @ [r]) [] = Inr d"
    using t(1) by (simp add: rfold_append replay_record_def fields ORDER_EVENTS_def image_iff)
  have led: "rfold (replay_ledger_fill d) (recs @ [r]) l0 = Inr l"
    using t(4) by (simp add: rfold_append replay_ledger_fill_def fields)
  have scan: "rfold scan_record (recs @ [r]) (0, []) = Inr (max top i, times)"
    using t(5) assms(3) by (simp add: rfold_append scan_record_def fields)
  have keys: "\<exists>j \<le> max top i. seq_of (JStr k) = Inr j" if "k \<in> set (dict_keys (AList.update cid ord orders))" for k
    using that t(8) assms(3) unfolding update_keys_set by (auto intro: le_max_iff_disj [THEN iffD2] simp del: set_map)
  have "mirrors (AList.update cid ord orders) d"
    using t(2) mirrors_absent [OF t(2) new] ord by (rule mirrors_rejected)
  with rep led scan keys t(3,6,7) assms(4) show ?thesis
    unfolding tracks_def
    by (intro exI [of _ d] exI [of _ l0] exI [of _ "max top i"] exI [of _ times]) (simp add: ledger_start_append)
qed

lemma gateway_line_neutral:
  assumes "gateway_line mode cid r"
  shows "order_line cid r \<and> (\<forall>b. replay_event r b = Inr b) \<and> jget r ''event'' \<noteq> JStr ''fill''"
  using assms
  by (auto simp: gateway_line_def order_line_def GATEWAY_EVENTS_def replay_event_def jget_def split: option.splits)

lemma tracks_gateway_lines:
  assumes "tracks cm orders l sq n recs" "map_of orders cid = Some a" "o_status a \<noteq> REJECTED" "wf_dict orders"
    and "\<forall>r \<in> set rs. gateway_line mode cid r"
  shows "tracks cm orders l sq n (recs @ rs)"
  using assms
proof (induction rs arbitrary: recs)
  case Nil
  then show ?case by simp
next
  case (Cons r rs)
  then have "tracks cm orders l sq n (recs @ [r])"
    using gateway_line_neutral [of mode cid r] by (intro tracks_neutral [of _ _ _ _ _ _ cid _ a]) auto
  with Cons.IH [of "recs @ [r]"] Cons.prems show ?case by simp
qed

text \<open>Masking leaves the records of the manager as they are.\<close>

lemma redact_outcome: "redact (outcome_json oc) = outcome_json oc"
  by (simp add: outcome_json_def REDACT_KEYS_def lower_def lower_char_def jopt_str_def split: option.splits)

lemma text_opt_jopt [simp]: "text_opt (jopt_str x) = x"
  by (simp add: text_opt_def jopt_str_def split: option.splits)

lemma tracks_submit_result:
  assumes tr: "tracks cm orders l sq n recs" and a: "map_of orders cid = Some (new_order cid intent PENDING_SUBMIT created)"
    and out: "apply_outcome oc (new_order cid intent PENDING_SUBMIT created) = Inr a'" "clean_outcome oc"
    and r: "r = append_record mode ts ''submit_result'' [(''client_id'', JStr cid), (''outcome'', outcome_json oc),
        (''status'', JStr (order_status_value (o_status a'))), (''pretrade_ms'', JFloat x), (''gateway_ms'', JFloat y)]"
  shows "tracks cm (AList.update cid a' orders) l sq n (recs @ [r])"
proof (rule tracks_order_line [OF tr _ a])
  show "order_line cid r" by (simp add: order_line_def r record_simps)
  show "o_status (new_order cid intent PENDING_SUBMIT created) \<noteq> REJECTED" by (simp add: new_order_def)
  show "replay_ledger_fill d r l = Inr l" for d by (simp add: replay_ledger_fill_def r record_simps)
  show "o_intent a' = o_intent (new_order cid intent PENDING_SUBMIT created)" using apply_outcome_frame [OF out(1)] by simp
next
  fix b
  assume b: "same_order (new_order cid intent PENDING_SUBMIT created) b"
  have "jget r ''event'' = JStr ''submit_result''" "jget r ''outcome'' = outcome_json oc"
    "jget r ''status'' = JStr (order_status_value (o_status a'))"
    by (simp_all add: r record_simps redact_outcome)
  with b out show "\<exists>b'. replay_event r b = Inr b' \<and> same_order a' b'"
    by (auto simp: replay_event_def replay_submit_result_def need_def outcome_json_def same_order_def new_order_def
        apply_outcome_def clean_outcome_def unnumbered_def rbind_Inr_iff transition_Inr_iff pending_to_unknown_def
        split: outcome_kind.splits)
qed

section \<open>The session\<close>

definition recs :: "'g oms \<Rightarrow> jobj list" where
  "recs m = map snd (j_lines (m_journal m))"

text \<open>
  What the broker documents of its rows: the cumulative amount belongs to the cumulative
  quantity, so it does not move while the quantity stands still.
\<close>

definition rows_ok :: "(string \<Rightarrow> int \<Rightarrow> int) \<Rightarrow> broker_order_status list \<Rightarrow> bool" where
  "rows_ok amt sts \<longleftrightarrow> (\<forall>st \<in> set sts. s_filled_amount_krw st = amt (s_broker_order_no st) (s_filled_qty st))"

definition amount_ok :: "(string \<Rightarrow> int \<Rightarrow> int) \<Rightarrow> order \<Rightarrow> bool" where
  "amount_ok amt ord \<longleftrightarrow>
     (case o_broker_order_no ord of None \<Rightarrow> o_filled_qty ord = 0 \<and> o_filled_amount_krw ord = 0
      | Some no \<Rightarrow> o_filled_amount_krw ord = amt no (o_filled_qty ord))
     \<and> (o_status ord = UNKNOWN \<longrightarrow> o_filled_qty ord = 0 \<and> o_filled_amount_krw ord = 0)
     \<and> (o_status ord = PENDING_SUBMIT \<longrightarrow> o_broker_order_no ord = None)"

definition moded :: "journal \<Rightarrow> bool" where
  "moded j \<longleftrightarrow> (\<forall>(d, r) \<in> set (j_lines j). jget r ''mode'' = JStr (mode_value (j_mode j)))"

definition journaled :: "cost_model \<Rightarrow> (string \<Rightarrow> int \<Rightarrow> int) \<Rightarrow> 'g oms \<Rightarrow> bool" where
  "journaled cm amt m \<longleftrightarrow> tracks cm (m_orders m) (m_ledger m) (m_seq m) (length (m_submit_times m)) (recs m)
     \<and> dict_all (amount_ok amt) (m_orders m) \<and> moded (m_journal m)"

lemma record_event_recs:
  assumes "j_torn (m_journal m) = []"
  shows "recs (snd (record_event ts ev fs m)) = recs m @ [append_record (j_mode (m_journal m)) ts ev fs]"
    and "fst (record_event ts ev fs m) = Inr ()"
    and "plain_fields fs \<Longrightarrow> moded (m_journal m) \<Longrightarrow> moded (m_journal (snd (record_event ts ev fs m)))"
  using assms by (auto simp: recs_def journal_append_def moded_def jget_append_record)

lemma recs_frame [simp]: "recs (put_order ord m) = recs m" "recs (m\<lparr>m_ledger := l\<rparr>) = recs m"
  by (simp_all add: recs_def)

lemma moded_record:
  assumes "j_torn j = []" "plain_fields fs" "moded j"
  shows "moded (snd (journal_append j ts ev fs))"
  using assms by (auto simp: journal_append_def moded_def jget_append_record)

lemma by_no_row: "by_no sts no = Some st \<Longrightarrow> st \<in> set sts \<and> s_broker_order_no st = no"
  by (auto simp: by_no_def dest!: map_of_SomeD)

lemma amount_ok_lookup: "dict_all (amount_ok amt) d \<Longrightarrow> map_of d k = Some ord \<Longrightarrow> amount_ok amt ord"
  by (rule dict_all_lookup)

text \<open>Adoption of a broker row.\<close>

lemma adopt_one_journaled:
  assumes j: "journaled cm amt (r_oms rc)" and wk: "well_keyed (m_orders (r_oms rc))" and torn: "j_torn (m_journal (r_oms rc)) = []"
    and zero: "\<And>no. amt no 0 = 0"
  shows "journaled cm amt (r_oms (snd (adopt_one env sts cid rc)))"
proof (cases "\<exists>ord. map_of (m_orders (r_oms rc)) cid = Some ord \<and> o_status ord = UNKNOWN \<and> candidates ord (r_known rc) sts \<noteq> []")
  case False
  then have "snd (adopt_one env sts cid rc) = rc" by (auto simp: adopt_one_def split: option.splits list.splits)
  with j show ?thesis by simp
next
  case True
  then obtain ord c cs where o: "map_of (m_orders (r_oms rc)) cid = Some ord" "o_status ord = UNKNOWN"
    "candidates ord (r_known rc) sts = c # cs" by (auto simp: neq_Nil_conv)
  note cid = well_keyed_id [OF wk o(1)]
  let ?m = "r_oms rc" and ?mode = "j_mode (m_journal (r_oms rc))"
  have tr: "tracks cm (m_orders ?m) (m_ledger ?m) (m_seq ?m) (length (m_submit_times ?m)) (recs ?m)"
    and ok: "dict_all (amount_ok amt) (m_orders ?m)" and md: "moded (m_journal ?m)"
    using j by (simp_all add: journaled_def)
  have wf: "wf_dict (m_orders ?m)" using wk by (simp add: well_keyed_def)
  show ?thesis
  proof (cases cs)
    case Nil
    let ?ord' = "ord\<lparr>o_broker_order_no := Some (s_broker_order_no c), o_broker_org_no := Some (s_org_no c),
        o_broker_order_time := Some (s_order_time c)\<rparr>"
    let ?fs = "[(''client_id'', JStr cid), (''broker_order_no'', JStr (s_broker_order_no c)),
        (''broker_org_no'', JStr (s_org_no c)), (''order_time'', JStr (s_order_time c))]"
    have "r_oms (snd (adopt_one env sts cid rc)) = snd (record_event (now_of env (put_order ?ord' ?m)) ''unknown_adopted'' ?fs (put_order ?ord' ?m))"
      using o Nil torn by (simp add: adopt_one_def Let_def case_prod_beta put_r_def mark_changed_def split: sum.splits)
    moreover have "tracks cm (AList.update cid ?ord' (m_orders ?m)) (m_ledger ?m) (m_seq ?m) (length (m_submit_times ?m))
        (recs ?m @ [append_record ?mode ts ''unknown_adopted'' ?fs])" for ts
    proof (rule tracks_order_line [OF tr _ o(1)])
      show "\<exists>b'. replay_event (append_record ?mode ts ''unknown_adopted'' ?fs) b = Inr b' \<and> same_order ?ord' b'"
        if "same_order ord b" for b
        using that by (simp add: replay_event_def record_simps same_order_def text_opt_def pending_to_unknown_def split: if_splits)
    qed (simp_all add: o order_line_def record_simps replay_ledger_fill_def)
    moreover have "amount_ok amt ?ord'"
      using amount_ok_lookup [OF ok o(1)] o(2) zero by (simp add: amount_ok_def)
    ultimately show ?thesis
      using torn cid ok md
      by (simp add: journaled_def record_event_recs(1) dict_all_update moded_record plain_fields_def)
  next
    case (Cons c2 cs')
    let ?fs = "[(''client_id'', JStr cid), (''candidates'', JList (map (\<lambda>st. JStr (s_broker_order_no st)) (c # c2 # cs')))]"
    have "r_oms (snd (adopt_one env sts cid rc)) = snd (record_event (now_of env ?m) ''unknown_ambiguous'' ?fs ?m)"
      using o Cons by (simp add: adopt_one_def)
    moreover have "tracks cm (m_orders ?m) (m_ledger ?m) (m_seq ?m) (length (m_submit_times ?m))
        (recs ?m @ [append_record ?mode ts ''unknown_ambiguous'' ?fs])" for ts
      by (rule tracks_neutral [OF tr _ o(1) _ wf]) (simp_all add: o order_line_def record_simps replay_event_def)
    ultimately show ?thesis
      using torn ok md by (simp add: journaled_def record_event_recs(1) moded_record plain_fields_def)
  qed
qed

text \<open>Booking a fill: the journal is one fill ahead of the order, which is written right after.\<close>

definition with_fill :: "order \<Rightarrow> broker_order_status \<Rightarrow> order" where
  "with_fill ord st = ord\<lparr>o_filled_qty := s_filled_qty st, o_filled_amount_krw := s_filled_amount_krw st\<rparr>"

lemma tracks_fill:
  assumes tr: "tracks cm orders l sq n rs" and ord: "map_of orders cid = Some ord" "o_status ord \<noteq> REJECTED"
    and bounds: "o_filled_qty ord < s_filled_qty st" "s_filled_qty st \<le> i_qty (o_intent ord)"
    and af: "apply_fill l (i_symbol (o_intent ord)) (i_side (o_intent ord)) (s_filled_qty st - o_filled_qty ord)
        (s_filled_amount_krw st - o_filled_amount_krw ord) = Inr (pnl, l')"
    and r: "r = append_record mode ts ''fill'' [(''client_id'', JStr cid), (''delta_qty'', JInt (s_filled_qty st - o_filled_qty ord)),
        (''delta_amount_krw'', JInt (s_filled_amount_krw st - o_filled_amount_krw ord)),
        (''cumulative_qty'', JInt (s_filled_qty st)), (''cumulative_amount_krw'', JInt (s_filled_amount_krw st))]"
  shows "tracks cm (AList.update cid (with_fill ord st) orders) l' sq n (rs @ [r])"
proof (rule tracks_order_line [OF tr _ ord])
  have nonneg: "o_filled_amount_krw ord \<le> s_filled_amount_krw st"
    using af by (auto simp: apply_fill_def split: if_splits)
  have "replay_event r b = replay_fill r b" for b by (simp add: replay_event_def r record_simps)
  moreover have "replay_fill r b = Inr (b\<lparr>o_filled_qty := s_filled_qty st, o_filled_amount_krw := s_filled_amount_krw st\<rparr>)"
    if "same_order ord b" for b
    using that bounds nonneg by (simp add: replay_fill_def has_key_def need_def r record_simps same_order_def)
  ultimately show "\<exists>b'. replay_event r b = Inr b' \<and> same_order (with_fill ord st) b'" if "same_order ord b" for b
    using that by (auto simp: same_order_def with_fill_def pending_to_unknown_def split: if_splits)
  show "replay_ledger_fill d r l = Inr l'" if "map_of d cid = Some b" "same_order (with_fill ord st) b" for d b
    using that af by (auto simp: replay_ledger_fill_def raw_item_def r record_simps same_order_def with_fill_def simp del: map_of_eq_Some_iff)
  show "order_line cid r" by (simp add: order_line_def r record_simps)
qed (simp add: with_fill_def)

lemma book_fill_tracks:
  assumes j: "journaled cm amt (r_oms rc)" and wk: "well_keyed (m_orders (r_oms rc))" and torn: "j_torn (m_journal (r_oms rc)) = []"
    and ord: "map_of (m_orders (r_oms rc)) cid = Some ord" "o_status ord \<notin> TERMINAL_STATUSES"
    and row: "o_broker_order_no ord = Some (s_broker_order_no st)" "s_filled_amount_krw st = amt (s_broker_order_no st) (s_filled_qty st)"
    and bounds: "o_filled_qty ord \<le> s_filled_qty st" "s_filled_qty st \<le> i_qty (o_intent ord)"
    and bf: "book_fill env ord st rc = (Inr u, rc')"
  shows "tracks cm (AList.update cid (with_fill ord st) (m_orders (r_oms rc))) (m_ledger (r_oms rc')) (m_seq (r_oms rc))
      (length (m_submit_times (r_oms rc))) (recs (r_oms rc'))
    \<and> m_orders (r_oms rc') = m_orders (r_oms rc) \<and> moded (m_journal (r_oms rc')) \<and> j_mode (m_journal (r_oms rc')) = j_mode (m_journal (r_oms rc))"
proof -
  let ?m = "r_oms rc"
  have tr: "tracks cm (m_orders ?m) (m_ledger ?m) (m_seq ?m) (length (m_submit_times ?m)) (recs ?m)"
    and ok: "amount_ok amt ord" and md: "moded (m_journal ?m)"
    using j amount_ok_lookup [OF _ ord(1)] by (simp_all add: journaled_def)
  note cid = well_keyed_id [OF wk ord(1)]
  show ?thesis
  proof (cases "o_filled_qty ord < s_filled_qty st")
    case False
    then have q: "s_filled_qty st = o_filled_qty ord" using bounds by simp
    then have "with_fill ord st = ord" using ok row by (simp add: with_fill_def amount_ok_def)
    moreover have "rc' = rc" using bf q by (simp add: book_fill_def)
    ultimately show ?thesis
      using tr md ord(1) wk by (simp add: update_same well_keyed_def del: map_of_eq_Some_iff)
  next
    case True
    then have pos: "0 < s_filled_qty st - o_filled_qty ord" by simp
    obtain pnl l' where af: "apply_fill (m_ledger ?m) (i_symbol (o_intent ord)) (i_side (o_intent ord)) (s_filled_qty st - o_filled_qty ord)
        (s_filled_amount_krw st - o_filled_amount_krw ord) = Inr (pnl, l')"
      using bf pos by (auto simp: book_fill_def Let_def split: sum.splits)
    let ?fs = "[(''client_id'', JStr cid), (''delta_qty'', JInt (s_filled_qty st - o_filled_qty ord)),
        (''delta_amount_krw'', JInt (s_filled_amount_krw st - o_filled_amount_krw ord)),
        (''cumulative_qty'', JInt (s_filled_qty st)), (''cumulative_amount_krw'', JInt (s_filled_amount_krw st))]"
    have rc': "r_oms rc' = snd (record_event (now_of env (?m\<lparr>m_ledger := l'\<rparr>)) ''fill'' ?fs (?m\<lparr>m_ledger := l'\<rparr>))"
      using arg_cong [OF bf, of "\<lambda>x. r_oms (snd x)"] pos af cid by (simp add: book_fill_def Let_def)
    have "o_status ord \<noteq> REJECTED" using ord(2) by (auto simp: TERMINAL_STATUSES_def)
    from tracks_fill [OF tr ord(1) this True bounds(2) af refl] show ?thesis
      unfolding rc' using torn md by (simp add: record_event_recs(1) moded_record plain_fields_def)
  qed
qed

text \<open>The status that follows the fill.\<close>

lemma tracks_status:
  assumes tr: "tracks cm orders l sq n rs" and ord: "map_of orders cid = Some ord" "o_status ord \<noteq> REJECTED"
    and r: "r = append_record mode ts ''status'' [(''client_id'', JStr cid), (''status'', JStr (order_status_value status)),
        (''filled_qty'', JInt (o_filled_qty ord)), (''evidence'', ev)]"
  shows "tracks cm (AList.update cid (ord\<lparr>o_status := status\<rparr>) orders) l sq n (rs @ [r])"
proof (rule tracks_order_line [OF tr _ ord])
  have "replay_event r b = Inr (b\<lparr>o_status := status\<rparr>)" if "same_order ord b" for b
    using that by (simp add: replay_event_def replay_status_def need_def r record_simps same_order_def)
  then show "\<exists>b'. replay_event r b = Inr b' \<and> same_order (ord\<lparr>o_status := status\<rparr>) b'" if "same_order ord b" for b
    using that by (auto simp: same_order_def pending_to_unknown_def split: if_splits)
qed (simp_all add: order_line_def r record_simps replay_ledger_fill_def)

lemma settle_status_journaled:
  assumes tr: "tracks cm (AList.update cid (with_fill ord st) (m_orders (r_oms rc))) (m_ledger (r_oms rc)) (m_seq (r_oms rc))
      (length (m_submit_times (r_oms rc))) (recs (r_oms rc))"
    and ok: "dict_all (amount_ok amt) (m_orders (r_oms rc))" and md: "moded (m_journal (r_oms rc))" and torn: "j_torn (m_journal (r_oms rc)) = []"
    and ord: "o_client_id ord = cid" "o_status ord \<notin> TERMINAL_STATUSES" "o_status ord \<noteq> PENDING_SUBMIT"
    and row: "o_broker_order_no ord = Some (s_broker_order_no st)" "s_filled_amount_krw st = amt (s_broker_order_no st) (s_filled_qty st)"
    and new: "derive_status st child = Inr new"
  shows "journaled cm amt (r_oms (snd (settle_status env ord st child new rc)))"
proof -
  let ?m = "r_oms rc" and ?ord1 = "with_fill ord st"
  have new_known: "new \<noteq> PENDING_SUBMIT \<and> new \<noteq> UNKNOWN" using derive_status_cases [OF new] by simp
  have okay: "amount_ok amt (?ord1\<lparr>o_status := status\<rparr>)" if "status \<noteq> UNKNOWN" "status \<noteq> PENDING_SUBMIT" for status
    using that row by (simp add: amount_ok_def with_fill_def)
  show ?thesis
  proof (cases "transition (o_status ord) new")
    case (Inl e)
    then have "o_status ord \<noteq> UNKNOWN" using new_known by (cases new) (auto simp: transition_def)
    then have "amount_ok amt ?ord1" using okay [of "o_status ord"] ord(3) by (simp add: with_fill_def amount_ok_def)
    moreover have "r_oms (snd (settle_status env ord st child new rc)) = put_order ?ord1 ?m"
      using Inl by (simp add: settle_status_def put_r_def with_fill_def)
    ultimately show ?thesis using tr ok md ord(1) by (simp add: journaled_def with_fill_def dict_all_update)
  next
    case (Inr status)
    then have st: "status \<noteq> UNKNOWN" "status \<noteq> PENDING_SUBMIT" using new_known by (auto simp: transition_Inr_iff)
    let ?ord2 = "?ord1\<lparr>o_status := status\<rparr>"
    have base: "dict_all (amount_ok amt) (AList.update cid ?ord2 (m_orders ?m))"
      using ok okay [OF st] by (rule dict_all_update)
    show ?thesis
    proof (cases "status \<noteq> o_status ord \<or> s_filled_qty st - o_filled_qty ord > 0")
      case False
      then have "?ord2 = ?ord1" by (simp add: with_fill_def)
      moreover have "r_oms (snd (settle_status env ord st child new rc)) = put_order ?ord2 ?m"
        using Inr False by (simp add: settle_status_def put_r_def with_fill_def Let_def)
      ultimately show ?thesis using tr base md ord(1) by (simp add: journaled_def) (simp add: with_fill_def)
    next
      case True
      let ?ev = "JObj [(''cncl_yn'', JBool (s_cancelled st)), (''cancel_child'', JBool child),
          (''rmn_qty'', JInt (s_remaining_qty st)), (''rejected_qty'', JInt (s_rejected_qty st))]"
      let ?fs = "[(''client_id'', JStr cid), (''status'', JStr (order_status_value status)), (''filled_qty'', JInt (s_filled_qty st)), (''evidence'', ?ev)]"
      have eq: "r_oms (snd (settle_status env ord st child new rc)) = snd (record_event (now_of env (put_order ?ord2 ?m)) ''status'' ?fs (put_order ?ord2 ?m))"
        using Inr True ord(1) torn
        by (auto simp: settle_status_def put_r_def with_fill_def Let_def case_prod_beta mark_changed_def split: sum.splits)
      have "o_status ?ord1 \<noteq> REJECTED" using ord(2) by (auto simp: TERMINAL_STATUSES_def with_fill_def)
      from tracks_status [OF tr _ this, where status = status and ev = ?ev and cid = cid]
      have "tracks cm (AList.update cid ?ord2 (m_orders ?m)) (m_ledger ?m) (m_seq ?m) (length (m_submit_times ?m))
          (recs ?m @ [append_record (j_mode (m_journal ?m)) ts ''status'' ?fs])" for ts
        by (simp add: update_last) (simp add: with_fill_def)
      then show ?thesis
        unfolding eq using torn base md ord(1)
        by (simp add: journaled_def record_event_recs(1) moded_record plain_fields_def with_fill_def)
    qed
  qed
qed

lemma settle_one_journaled:
  assumes j: "journaled cm amt (r_oms rc)" and wk: "well_keyed (m_orders (r_oms rc))" and torn: "j_torn (m_journal (r_oms rc)) = []"
    and rows: "rows_ok amt sts"
  shows "journaled cm amt (r_oms (snd (settle_one env sts cid rc)))"
proof (cases "\<exists>ord no st. map_of (m_orders (r_oms rc)) cid = Some ord \<and> o_status ord \<notin> TERMINAL_STATUSES
    \<and> o_broker_order_no ord = Some no \<and> by_no sts no = Some st")
  case False
  then have "snd (settle_one env sts cid rc) = rc"
    by (auto simp: settle_one_def split: option.splits bind_splits)
  with j show ?thesis by simp
next
  case True
  then obtain ord no st where o: "map_of (m_orders (r_oms rc)) cid = Some ord" "o_status ord \<notin> TERMINAL_STATUSES"
    "o_broker_order_no ord = Some no" "by_no sts no = Some st" by blast
  let ?m = "r_oms rc" and ?child = "no \<in> set (child_parents sts)"
  have live: "o_status ord \<noteq> REJECTED" using o(2) by (auto simp: TERMINAL_STATUSES_def)
  note cid = well_keyed_id [OF wk o(1)]
  have row: "o_broker_order_no ord = Some (s_broker_order_no st)" "s_filled_amount_krw st = amt (s_broker_order_no st) (s_filled_qty st)"
    using by_no_row [OF o(4)] rows o(3) by (auto simp: rows_ok_def)
  show ?thesis
  proof (cases "s_filled_qty st < o_filled_qty ord \<or> s_filled_qty st > i_qty (o_intent ord)")
    case True
    let ?fs = "[(''client_id'', JStr cid), (''broker_filled_qty'', JInt (s_filled_qty st)), (''local_filled_qty'', JInt (o_filled_qty ord))]"
    have "r_oms (snd (settle_one env sts cid rc)) = snd (record_event (now_of env ?m) ''integrity_violation'' ?fs ?m)"
      using o True cid by (auto simp: settle_one_def Let_def case_prod_beta split: sum.splits)
    moreover have "tracks cm (m_orders ?m) (m_ledger ?m) (m_seq ?m) (length (m_submit_times ?m))
        (recs ?m @ [append_record (j_mode (m_journal ?m)) ts ''integrity_violation'' ?fs])" for ts
      by (rule tracks_neutral [OF _ _ o(1) live]) (use j wk in \<open>simp_all add: journaled_def well_keyed_def order_line_def record_simps replay_event_def\<close>)
    ultimately show ?thesis
      using torn j by (simp add: journaled_def record_event_recs(1) moded_record plain_fields_def)
  next
    case False
    then have bounds: "o_filled_qty ord \<le> s_filled_qty st" "s_filled_qty st \<le> i_qty (o_intent ord)" by auto
    show ?thesis
    proof (cases "derive_status st ?child")
      case (Inl e)
      then have "snd (settle_one env sts cid rc) = rc" using o bounds by (simp add: settle_one_def)
      with j show ?thesis by simp
    next
      case (Inr new)
      obtain r rc' where bf: "book_fill env ord st rc = (r, rc')" by (cases "book_fill env ord st rc")
      show ?thesis
      proof (cases r)
        case (Inl e)
        then have "snd (settle_one env sts cid rc) = rc'" using o bounds Inr bf by (simp add: settle_one_def)
        moreover have "rc' = rc"
          using bf Inl torn by (auto simp: book_fill_def Let_def journal_append_def record_r_def record_event_def split: if_splits sum.splits)
        ultimately show ?thesis using j by simp
      next
        case (Inr u)
        then have "settle_one env sts cid rc = settle_status env ord st ?child new rc'"
          using o bounds \<open>derive_status st ?child = Inr new\<close> bf by (simp add: settle_one_def)
        moreover have "j_torn (m_journal (r_oms rc')) = []" "m_seq (r_oms rc') = m_seq ?m" "m_submit_times (r_oms rc') = m_submit_times ?m"
          using book_fill_session [of rc env ord st] bf torn by (simp_all add: same_session_def)
        moreover note bt = book_fill_tracks [OF j wk torn o(1,2) row bounds, of env u rc'] Inr bf
        moreover have "o_status ord \<noteq> PENDING_SUBMIT"
          using j amount_ok_lookup [OF _ o(1), of amt] o(3) by (auto simp: journaled_def amount_ok_def)
        ultimately show ?thesis
          using j cid o(2) row \<open>derive_status st ?child = Inr new\<close>
          by (simp only:) (rule settle_status_journaled, auto simp: journaled_def)
      qed
    qed
  qed
qed

section \<open>Every operation\<close>

definition broker_ok :: "(string \<Rightarrow> int \<Rightarrow> int) \<Rightarrow> ('g, 'e) oms_cfg \<Rightarrow> 'e reconcile_env \<Rightarrow> bool" where
  "broker_ok amt cfg env \<longleftrightarrow> (\<forall>g sts. gw_fetch_statuses (c_gw cfg) g (re_gw env) = Inr sts \<longrightarrow> rows_ok amt sts)"

lemma reconcile_journaled:
  assumes j: "journaled cm amt m" and wf: "wf_books m" and rows: "broker_ok amt cfg env" and zero: "\<And>no. amt no 0 = 0"
  shows "journaled cm amt (snd (reconcile cfg env m))"
proof (cases "m_closed m \<or> (\<exists>e. gw_fetch_statuses (c_gw cfg) (m_gateway m) (re_gw env) = Inl e)")
  case True
  with j show ?thesis by (auto simp: reconcile_def)
next
  case False
  then obtain sts where open': "\<not> m_closed m" and sts: "gw_fetch_statuses (c_gw cfg) (m_gateway m) (re_gw env) = Inr sts"
    by (cases "gw_fetch_statuses (c_gw cfg) (m_gateway m) (re_gw env)") auto
  then have rows': "rows_ok amt sts" using rows by (auto simp: broker_ok_def)
  have good: "well_keyed (m_orders m') \<and> j_torn (m_journal m') = []" if "turns sts m m'" for m'
    using turns_wf_books [OF that wf] by (simp add: wf_books_def)
  let ?ks = "dict_keys (m_orders m)" and ?rc0 = "\<lparr>r_oms = m, r_known = known_nos m, r_changed = []\<rparr>"
  let ?P = "\<lambda>rc. turns sts m (r_oms rc) \<and> set (known_nos (r_oms rc)) \<subseteq> set (r_known rc) \<and> journaled cm amt (r_oms rc)"
  have P1: "?P (snd (for_each (adopt_one env sts) ?ks ?rc0))"
  proof (rule for_each_inv)
    show "?P ?rc0" using j by (simp add: turns_refl)
    show "?P (snd (adopt_one env sts k rc))" if "?P rc" for k and rc :: "'a recon"
      using that good [of "r_oms rc"]
      by (auto intro: turns_step adopt_one_turn adopt_one_session adopt_one_journaled zero dest: adopt_one_known)
  qed
  let ?Q = "\<lambda>rc. turns sts m (r_oms rc) \<and> journaled cm amt (r_oms rc)"
  have P2: "?Q (snd (for_each (settle_one env sts) ?ks rc))" if "?Q rc" for rc
  proof (rule for_each_inv)
    show "?Q rc" by (fact that)
    show "?Q (snd (settle_one env sts k rc))" if "?Q rc" for k and rc :: "'a recon"
      using that good [of "r_oms rc"] rows'
      by (auto intro: turns_step settle_one_turn settle_one_session settle_one_journaled)
  qed
  obtain r1 rc1 where a: "for_each (adopt_one env sts) ?ks ?rc0 = (r1, rc1)" by fastforce
  obtain r2 rc2 where b: "for_each (settle_one env sts) ?ks rc1 = (r2, rc2)" by fastforce
  show ?thesis
    using P1 P2 [of rc1] a b open' sts by (cases r1; cases r2) (auto simp: reconcile_def)
qed

lemma resolve_journaled:
  assumes j: "journaled cm amt m" and wf: "wf_books m" and rows: "broker_ok amt cfg env" and zero: "\<And>no. amt no 0 = 0"
  shows "journaled cm amt (snd (resolve_unknown cfg env ts cid reason m))"
proof (cases "\<exists>ord. \<not> m_closed m \<and> map_of (m_orders m) cid = Some ord \<and> o_status ord = UNKNOWN")
  case False
  then have "snd (resolve_unknown cfg env ts cid reason m) = m" by (auto simp: resolve_unknown_def split: option.splits)
  with j show ?thesis by simp
next
  case True
  obtain r m1 where rec: "reconcile cfg env m = (r, m1)" by (cases "reconcile cfg env m")
  then have j1: "journaled cm amt m1" using reconcile_journaled [OF assms] by simp
  obtain sts where t: "turns sts m m1" using reconcile_turns [OF wf, of cfg env] rec by auto
  have wk: "well_keyed (m_orders m1)" and torn: "j_torn (m_journal m1) = []"
    using turns_wf_books [OF t wf] by (simp_all add: wf_books_def)
  show ?thesis
  proof (cases "\<exists>u ord1. r = Inr u \<and> map_of (m_orders m1) cid = Some ord1 \<and> o_status ord1 = UNKNOWN \<and> o_broker_order_no ord1 = None")
    case False
    then have "snd (resolve_unknown cfg env ts cid reason m) = m1"
      using True rec unfolding resolve_unknown_def by (auto split: option.splits sum.splits)
    with j1 show ?thesis by simp
  next
    case retire: True
    then obtain u ord1 where o: "r = Inr u" "map_of (m_orders m1) cid = Some ord1" "o_status ord1 = UNKNOWN" "o_broker_order_no ord1 = None"
      by blast
    let ?ord2 = "ord1\<lparr>o_status := REJECTED, o_reject_code := Some ''unknown_resolved'', o_reject_message := Some reason\<rparr>"
    let ?fs = "[(''client_id'', JStr cid), (''reason'', JStr reason)]"
    have eq: "snd (resolve_unknown cfg env ts cid reason m) = snd (record_event ts ''unknown_resolved'' ?fs (put_order ?ord2 m1))"
      using True rec o by (auto simp: resolve_unknown_def Let_def case_prod_beta transition_def)
    have "tracks cm (AList.update cid ?ord2 (m_orders m1)) (m_ledger m1) (m_seq m1) (length (m_submit_times m1))
        (recs m1 @ [append_record mode ts ''unknown_resolved'' ?fs])" for mode
    proof (rule tracks_order_line [OF _ _ o(2)])
      show "\<exists>b'. replay_event (append_record mode ts ''unknown_resolved'' ?fs) b = Inr b' \<and> same_order ?ord2 b'"
        if "same_order ord1 b" for b
        using that by (simp add: replay_event_def record_simps same_order_def pending_to_unknown_def)
      show "tracks cm (m_orders m1) (m_ledger m1) (m_seq m1) (length (m_submit_times m1)) (recs m1)"
        using j1 by (simp add: journaled_def)
    qed (simp_all add: o order_line_def record_simps replay_ledger_fill_def)
    moreover have "amount_ok amt ?ord2"
      using j1 amount_ok_lookup [OF _ o(2)] by (auto simp: journaled_def amount_ok_def o)
    ultimately show ?thesis
      unfolding eq using torn j1 well_keyed_id [OF wk o(2)]
      by (simp add: journaled_def record_event_recs(1) moded_record plain_fields_def dict_all_update)
  qed
qed

lemma journal_extends_recs:
  assumes "journal_extends cid (m_journal m) j" "moded (m_journal m)"
  shows "\<exists>rs mode. map snd (j_lines j) = recs m @ rs \<and> (\<forall>r \<in> set rs. gateway_line mode cid r) \<and> moded j
    \<and> j_torn j = j_torn (m_journal m) \<and> j_mode j = j_mode (m_journal m)"
proof -
  obtain ls where ls: "j_lines j = j_lines (m_journal m) @ ls" "\<forall>(d, r) \<in> set ls. gateway_line (j_mode (m_journal m)) cid r"
    "j_mode j = j_mode (m_journal m)" "j_torn j = j_torn (m_journal m)"
    using assms(1) by (auto simp: journal_extends_def)
  then have "moded j" using assms(2) by (auto simp: moded_def gateway_line_def)
  with ls show ?thesis
    by (intro exI [of _ "map snd ls"] exI [of _ "j_mode (m_journal m)"]) (auto simp: recs_def)
qed

context gateway_laws
begin

lemma cancel_journaled:
  assumes gw: "c_gw cfg = gw" and j: "journaled cm amt m" and wf: "wf_books m"
  shows "journaled cm amt (snd (cancel cfg env cid m))"
proof (cases "\<exists>ord no. \<not> m_closed m \<and> map_of (m_orders m) cid = Some ord \<and> o_status ord \<notin> TERMINAL_STATUSES
    \<and> o_broker_order_no ord = Some no")
  case False
  then have "snd (cancel cfg env cid m) = m" by (auto simp: cancel_def split: option.splits)
  with j show ?thesis by simp
next
  case True
  then obtain ord no where o: "\<not> m_closed m" "map_of (m_orders m) cid = Some ord" "o_status ord \<notin> TERMINAL_STATUSES"
    "o_broker_order_no ord = Some no" by blast
  have live: "o_status ord \<noteq> REJECTED" using o(3) by (auto simp: TERMINAL_STATUSES_def)
  have wk: "well_keyed (m_orders m)" and torn: "j_torn (m_journal m) = []" using wf by (simp_all add: wf_books_def)
  then have wd: "wf_dict (m_orders m)" and id: "o_client_id ord = cid" using o(2) by (auto simp: well_keyed_def)
  obtain out g j' where gc: "gw_cancel gw (m_gateway m) (m_journal m) (ce_gw env) ord = (out, g, j')"
    by (cases "gw_cancel gw (m_gateway m) (m_journal m) (ce_gw env) ord") auto
  have "journal_extends cid (m_journal m) j'"
    using cancel_journal [of ord "m_journal m" "m_gateway m" "ce_gw env"] gc id by simp
  then obtain rs mode where rs: "map snd (j_lines j') = recs m @ rs" "\<forall>r \<in> set rs. gateway_line mode cid r" "moded j'" "j_torn j' = []"
    using journal_extends_recs [of cid m j'] j torn by (auto simp: journaled_def)
  let ?m1 = "m\<lparr>m_gateway := g, m_journal := j'\<rparr>"
  have t1: "tracks cm (m_orders m) (m_ledger m) (m_seq m) (length (m_submit_times m)) (recs ?m1)"
    using tracks_gateway_lines [OF _ o(2) live wd rs(2)] j rs(1) by (simp add: journaled_def recs_def)
  show ?thesis
  proof (cases out)
    case (Inl e)
    then have "snd (cancel cfg env cid m) = ?m1" using o gc gw by (simp add: cancel_def)
    with t1 j rs(3) show ?thesis by (simp add: journaled_def)
  next
    case (Inr oc)
    let ?fs = "[(''client_id'', JStr cid), (''outcome'', outcome_json oc)]"
    have eq: "snd (cancel cfg env cid m) = snd (record_event (ce_ts env) ''cancel_result'' ?fs ?m1)"
      using o gc gw Inr by (simp add: cancel_def case_prod_beta)
    have "tracks cm (m_orders m) (m_ledger m) (m_seq m) (length (m_submit_times m))
        (recs ?m1 @ [append_record (j_mode j') (ce_ts env) ''cancel_result'' ?fs])"
      by (rule tracks_neutral [OF t1 _ o(2) live wd]) (simp_all add: order_line_def record_simps replay_event_def)
    then show ?thesis
      unfolding eq using j rs
      by (simp add: journaled_def record_event_recs(1) [of ?m1] moded_record plain_fields_def)
  qed
qed

lemma send_journaled:
  assumes gw: "c_gw cfg = gw" and torn: "j_torn (m_journal m) = []" and wd: "wf_dict (m_orders m)" and md: "moded (m_journal m)"
    and tr: "tracks cm (m_orders m) (m_ledger m) (m_seq m) (Suc (length (m_submit_times m))) (recs m)"
    and ord: "ord = new_order cid intent PENDING_SUBMIT created" "map_of (m_orders m) cid = Some ord"
    and ok: "dict_all (amount_ok amt) (m_orders m)" and zero: "\<And>no. amt no 0 = 0"
  shows "journaled cm amt (snd (send_order cfg env ord qt m))"
proof -
  let ?m1 = "m\<lparr>m_submit_times := m_submit_times m @ [se_now_sent env]\<rparr>"
  obtain out g j' where gs: "gw_submit gw (m_gateway m) (m_journal m) (se_gw env) ord qt = (out, g, j')"
    by (cases "gw_submit gw (m_gateway m) (m_journal m) (se_gw env) ord qt") auto
  have id: "o_client_id ord = cid" and live: "o_status ord \<noteq> REJECTED" by (simp_all add: ord(1) new_order_def)
  have "journal_extends cid (m_journal m) j'"
    using submit_journal [of ord "m_journal m" "m_gateway m" "se_gw env" qt] gs id by simp
  then obtain rs mode where rs: "map snd (j_lines j') = recs m @ rs" "\<forall>r \<in> set rs. gateway_line mode cid r" "moded j'" "j_torn j' = []"
    using journal_extends_recs [of cid m j'] md torn by auto
  let ?m2 = "?m1\<lparr>m_gateway := g, m_journal := j'\<rparr>"
  have t2: "tracks cm (m_orders m) (m_ledger m) (m_seq m) (length (m_submit_times ?m2)) (recs ?m2)"
    using tracks_gateway_lines [OF tr ord(2) live wd rs(2)] rs(1) by (simp add: recs_def)
  have j2: "journaled cm amt ?m2" using t2 ok rs(3) by (simp add: journaled_def)
  show ?thesis
  proof (cases out)
    case (Inl e)
    with j2 gs gw show ?thesis by (simp add: send_order_def)
  next
    case (Inr oc)
    show ?thesis
    proof (cases "apply_outcome oc ord")
      case (Inl e)
      with j2 gs gw \<open>out = Inr oc\<close> show ?thesis by (simp add: send_order_def)
    next
      case (Inr ord')
      let ?fs = "[(''client_id'', JStr cid), (''outcome'', outcome_json oc), (''status'', JStr (order_status_value (o_status ord'))),
          (''pretrade_ms'', JFloat (se_pretrade_ms env)), (''gateway_ms'', JFloat (se_gateway_ms env))]"
      have eq: "snd (send_order cfg env ord qt m) = snd (record_event (se_ts_result env) ''submit_result'' ?fs (put_order ord' ?m2))"
        using gs gw \<open>out = Inr oc\<close> Inr id by (simp add: send_order_def case_prod_beta)
      have clean: "clean_outcome oc"
        using submit_number [of "m_gateway m" "m_journal m" "se_gw env" ord qt oc] gs \<open>out = Inr oc\<close> by simp
      have "tracks cm (AList.update cid ord' (m_orders m)) (m_ledger m) (m_seq m) (length (m_submit_times ?m2))
          (recs ?m2 @ [append_record (j_mode j') (se_ts_result env) ''submit_result'' ?fs])"
        by (rule tracks_submit_result [OF t2 _ _ clean refl]) (use ord Inr in simp_all)
      moreover have "amount_ok amt ord'"
        using Inr zero by (auto simp: ord(1) apply_outcome_def rbind_Inr_iff new_order_def amount_ok_def transition_Inr_iff
            split: outcome_kind.splits option.splits)
      moreover have "o_client_id ord' = cid" using apply_outcome_frame [OF Inr] id by simp
      ultimately show ?thesis
        unfolding eq using rs ok
        by (simp add: journaled_def record_event_recs(1) moded_record plain_fields_def dict_all_update)
    qed
  qed
qed

lemma submit_journaled:
  assumes gw: "c_gw cfg = gw" and j: "journaled cm amt m" and wf: "wf_oms m" and ts: "valid_datetime (se_ts_intent env)"
    and zero: "\<And>no. amt no 0 = 0"
  shows "journaled cm amt (snd (submit cfg env intent m))"
proof (cases "m_closed m \<or> (\<exists>e. se_quote env = Inl e)")
  case True
  with j show ?thesis by (auto simp: submit_def)
next
  case False
  then obtain qt where qt: "se_quote env = Inr qt" "\<not> m_closed m" by (cases "se_quote env") auto
  let ?m1 = "m\<lparr>m_seq := Suc (m_seq m)\<rparr>" and ?cid = "next_id cfg env m"
  have fresh: "map_of (m_orders m) ?cid = None" and sq: "seq_of (JStr ?cid) = Inr (Suc (m_seq m))"
    and torn: "j_torn (m_journal m) = []" and wd: "wf_dict (m_orders m)"
    using wf next_id_fresh [of m cfg env] by (simp_all add: wf_oms_def next_id_def wf_books_def well_keyed_def)
  have tr: "tracks cm (m_orders m) (m_ledger m) (m_seq m) (length (m_submit_times m)) (recs m)"
    and ok: "dict_all (amount_ok amt) (m_orders m)" and md: "moded (m_journal m)" using j by (simp_all add: journaled_def)
  have new_ok: "amount_ok amt ord" if "o_broker_order_no ord = None" "o_filled_qty ord = 0" "o_filled_amount_krw ord = 0" for ord :: order
    using that by (simp add: amount_ok_def)
  show ?thesis
  proof (cases "risk_gate cfg env intent qt ?m1")
    case (Inl e)
    show ?thesis
    proof (cases "\<exists>code detail. e = RiskRejectedError code detail")
      case False
      with Inl qt have "snd (submit cfg env intent m) = ?m1" by (auto simp: submit_def Let_def split: exn.splits)
      with tr ok md show ?thesis by (force simp: journaled_def tracks_def recs_def)
    next
      case True
      then obtain code detail where e: "e = RiskRejectedError code detail" by blast
      let ?ord = "(new_order ?cid intent REJECTED (se_now_created env))
            \<lparr>o_reject_code := Some (reject_code_value code), o_reject_message := Some detail\<rparr>"
      let ?fs = "[(''client_id'', JStr ?cid), (''intent'', intent_json intent), (''code'', JStr (reject_code_value code)),
             (''detail'', JStr detail), (''quote'', quote_json qt)]"
      have eq: "snd (submit cfg env intent m) = snd (record_event (se_ts_intent env) ''risk_reject'' ?fs (put_order ?ord ?m1))"
        using Inl qt e by (simp add: submit_def reject_intent_def Let_def next_id_def case_prod_beta)
      have "tracks cm (AList.update ?cid ?ord (m_orders m)) (m_ledger m) (Suc (m_seq m)) (length (m_submit_times m))
          (recs m @ [append_record (j_mode (m_journal m)) (se_ts_intent env) ''risk_reject'' ?fs])"
        by (rule tracks_risk_reject [OF tr fresh sq _ refl]) (simp_all add: new_order_def)
      then show ?thesis
        unfolding eq using torn md ok new_ok [of ?ord]
        by (simp add: journaled_def record_event_recs(1) moded_record plain_fields_def dict_all_update new_order_def)
          (simp add: recs_def)
    qed
  next
    case (Inr ref)
    let ?ord = "new_order ?cid intent PENDING_SUBMIT (se_now_created env)"
    let ?fs = "[(''client_id'', JStr ?cid), (''intent'', intent_json intent), (''quote'', quote_json qt), (''reference_price'', JInt ref)]"
    let ?m2 = "snd (record_event (se_ts_intent env) ''intent'' ?fs (put_order ?ord ?m1))"
    have eq: "snd (submit cfg env intent m) = snd (send_order cfg env ?ord qt ?m2)"
      using qt Inr torn record_event_recs(2) [of "put_order ?ord ?m1" "se_ts_intent env" "''intent''" ?fs]
      by (simp add: submit_def Let_def next_id_def case_prod_beta)
    have r2: "recs ?m2 = recs m @ [append_record (j_mode (m_journal m)) (se_ts_intent env) ''intent'' ?fs]"
      using torn by (simp add: record_event_recs(1)) (simp add: recs_def)
    have "tracks cm (AList.update ?cid ?ord (m_orders m)) (m_ledger m) (Suc (m_seq m)) (Suc (length (m_submit_times m))) (recs ?m2)"
      unfolding r2 by (rule tracks_intent [OF tr fresh sq _ ts refl]) simp
    then show ?thesis
      unfolding eq using torn md wd ok new_ok [of ?ord] zero
      by (intro send_journaled [OF gw, of _ _ _ ?cid intent "se_now_created env"])
        (simp_all add: moded_record plain_fields_def dict_all_update new_order_def)
  qed
qed

end

section \<open>Restoring\<close>

text \<open>What a restored session has of the manager that wrote the journal.\<close>

definition resumes :: "'g oms \<Rightarrow> recovered_session \<Rightarrow> bool" where
  "resumes m rs \<longleftrightarrow> rs_ledger rs = Some (m_ledger m)
     \<and> wf_dict (rs_orders rs) \<and> (\<forall>k. mirror_at (map_of (m_orders m) k) (map_of (rs_orders rs) k))
     \<and> dict_all (\<lambda>ord. o_status ord \<noteq> PENDING_SUBMIT) (rs_orders rs)
     \<and> (\<forall>k \<in> set (dict_keys (m_orders m)). \<exists>i \<le> rs_next_seq rs. seq_of (JStr k) = Inr i) \<and> rs_next_seq rs \<le> m_seq m
     \<and> length (rs_submit_times rs) = length (m_submit_times m)"

lemma map_of_pending: "map_of (map (\<lambda>(cid, ord). (cid, pending_to_unknown ord)) d) k = map_option pending_to_unknown (map_of d k)"
  by (induction d) auto

lemma keys_pending: "dict_keys (map (\<lambda>(cid, ord). (cid, pending_to_unknown ord)) d) = dict_keys d"
  by (induction d) auto

lemma pending_to_unknown_frame [simp]:
  "o_intent (pending_to_unknown ord) = o_intent ord" "o_client_id (pending_to_unknown ord) = o_client_id ord"
  "o_broker_order_no (pending_to_unknown ord) = o_broker_order_no ord" "o_filled_qty (pending_to_unknown ord) = o_filled_qty ord"
  "o_filled_amount_krw (pending_to_unknown ord) = o_filled_amount_krw ord" "o_status (pending_to_unknown ord) \<noteq> PENDING_SUBMIT"
  "pending_to_unknown (pending_to_unknown ord) = pending_to_unknown ord"
  "o_broker_org_no (pending_to_unknown ord) = o_broker_org_no ord" "o_broker_order_time (pending_to_unknown ord) = o_broker_order_time ord"
  by (simp_all add: pending_to_unknown_def)

lemma same_order_pending: "same_order a b \<Longrightarrow> same_order a (pending_to_unknown b)" "same_order (pending_to_unknown b) b"
  by (simp_all add: same_order_def)

lemma mirror_at_pending: "mirror_at x y \<Longrightarrow> mirror_at x (map_option pending_to_unknown y)"
  by (cases x; cases y) (auto intro: same_order_pending)

lemma tracks_restores:
  assumes "tracks cm orders l sq n rs" "mode \<noteq> PAPER"
  shows "\<exists>d top ts. rfold replay_record rs [] = Inr d \<and> mirrors orders d \<and> top \<le> sq \<and> length ts = n
    \<and> (\<forall>k \<in> set (dict_keys orders). \<exists>i \<le> top. seq_of (JStr k) = Inr i)
    \<and> rfold scan_record rs (0, []) = Inr (top, ts)
    \<and> restore_session rs mode cm = Inr \<lparr>rs_orders = map (\<lambda>(cid, ord). (cid, pending_to_unknown ord)) d,
        rs_next_seq = top, rs_submit_times = ts, rs_ledger = Some l\<rparr>"
proof -
  obtain d l0 top ts where t: "rfold replay_record rs [] = Inr d" "mirrors orders d" "ledger_start cm rs l0"
    "rfold (replay_ledger_fill d) rs l0 = Inr l" "rfold scan_record rs (0, []) = Inr (top, ts)" "top \<le> sq" "length ts = n"
    "\<forall>k \<in> set (dict_keys orders). \<exists>i \<le> top. seq_of (JStr k) = Inr i"
    using assms(1) unfolding tracks_def by blast
  let ?d = "map (\<lambda>(cid, ord). (cid, pending_to_unknown ord)) d"
  have "rfold (replay_ledger_fill ?d) rs l0 = Inr l"
    by (rule replay_ledger_intents [OF _ t(4)]) (simp add: map_of_pending)
  then have "replay_ledger rs ?d cm = Inr (Some l)"
    using t(3) by (auto simp: ledger_start_def replay_ledger_def)
  then have "restore_session rs mode cm = Inr \<lparr>rs_orders = ?d, rs_next_seq = top, rs_submit_times = ts, rs_ledger = Some l\<rparr>"
    using t(1,5) assms(2) by (simp add: restore_session_def Let_def)
  with t show ?thesis by blast
qed

lemma journaled_resumes:
  assumes "journaled cm amt m" "mode \<noteq> PAPER"
  shows "\<exists>rs. restore_session (recs m) mode cm = Inr rs \<and> resumes m rs"
proof -
  have "tracks cm (m_orders m) (m_ledger m) (m_seq m) (length (m_submit_times m)) (recs m)"
    using assms(1) by (simp add: journaled_def)
  from tracks_restores [OF this assms(2)] obtain d top ts where t: "mirrors (m_orders m) d" "top \<le> m_seq m"
    "length ts = length (m_submit_times m)" "\<forall>k \<in> set (dict_keys (m_orders m)). \<exists>i \<le> top. seq_of (JStr k) = Inr i"
    "restore_session (recs m) mode cm = Inr \<lparr>rs_orders = map (\<lambda>(cid, ord). (cid, pending_to_unknown ord)) d,
        rs_next_seq = top, rs_submit_times = ts, rs_ledger = Some (m_ledger m)\<rparr>"
    by blast
  have "dict_all (\<lambda>ord. o_status ord \<noteq> PENDING_SUBMIT) (map (\<lambda>(cid, ord). (cid, pending_to_unknown ord)) d)"
    by (induction d) auto
  moreover have "wf_dict (map (\<lambda>(cid, ord). (cid, pending_to_unknown ord)) d)"
    using t(1) unfolding keys_pending by (simp add: mirrors_def)
  ultimately have "resumes m \<lparr>rs_orders = map (\<lambda>(cid, ord). (cid, pending_to_unknown ord)) d,
        rs_next_seq = top, rs_submit_times = ts, rs_ledger = Some (m_ledger m)\<rparr>"
    using t(1-4) by (simp add: resumes_def mirrors_def map_of_pending mirror_at_pending del: map_map)
  with t(5) show ?thesis by blast
qed

context gateway_laws
begin

lemma step_journaled:
  assumes "oms_step E R cfg m m'" "c_gw cfg = gw" "wf_oms m" "journaled cm amt m" and zero: "\<And>no. amt no 0 = 0"
    and E: "\<And>env. E env \<Longrightarrow> valid_datetime (se_ts_intent env)" and R: "\<And>env. R env \<Longrightarrow> broker_ok amt cfg env"
  shows "journaled cm amt m'"
  using assms(1-4)
proof (induction rule: oms_step.induct)
  case (step_submit env m intent)
  then show ?case using E zero by (intro submit_journaled) auto
next
  case (step_cancel m cenv cid)
  then show ?case by (intro cancel_journaled) (auto simp: wf_oms_def)
next
  case (step_reconcile renv m)
  then show ?case using R zero by (intro reconcile_journaled) (auto simp: wf_oms_def)
next
  case (step_resolve renv m ts cid reason)
  then show ?case using R zero by (intro resolve_journaled) (auto simp: wf_oms_def)
qed (auto simp: journaled_def recs_def)

lemma reach_journaled:
  assumes "oms_reach E R cfg m m'" "c_gw cfg = gw" "wf_oms m" "journaled cm amt m" and zero: "\<And>no. amt no 0 = 0"
    and E: "\<And>env. E env \<Longrightarrow> valid_datetime (se_ts_intent env)" and R: "\<And>env. R env \<Longrightarrow> broker_ok amt cfg env"
  shows "journaled cm amt m'"
  using assms(1)
proof (induction rule: rtranclp_induct)
  case base
  then show ?case by (fact assms(4))
next
  case (step y z)
  have "wf_oms y" using reach_keeps [OF step(1) assms(2,3)] by (simp add: keeps_def)
  with step show ?case using step_journaled [OF step(2) assms(2) _ step(3) zero E R] by blast
qed

end

section \<open>Restarting\<close>

lemma dict_sum_keys: "wf_dict d \<Longrightarrow> dict_sum f d = (\<Sum>k \<in> set (dict_keys d). f (the (map_of d k)))"
proof (induction d)
  case Nil
  then show ?case by simp
next
  case (Cons p d)
  have "(\<Sum>k \<in> set (dict_keys d). f (the (map_of (p # d) k))) = (\<Sum>k \<in> set (dict_keys d). f (the (map_of d k)))"
  proof (rule sum.cong [OF refl])
    fix k
    assume "k \<in> set (dict_keys d)"
    then have "fst p \<noteq> k" using Cons.prems by auto
    then show "f (the (map_of (p # d) k)) = f (the (map_of d k))" by (cases p) simp
  qed
  with Cons show ?case by (cases p) simp
qed

lemma mirrored_sum:
  assumes "wf_dict orders" "wf_dict d" "\<And>k. mirror_at (map_of orders k) (map_of d k)"
    and rej: "\<And>ord. o_status ord = REJECTED \<Longrightarrow> f ord = 0" and same: "\<And>a b. same_order a b \<Longrightarrow> f b = f a"
  shows "dict_sum f d = dict_sum f orders"
proof -
  have sub: "set (dict_keys d) \<subseteq> set (dict_keys orders)"
  proof
    fix k
    assume "k \<in> set (dict_keys d)"
    then obtain b where "map_of d k = Some b" by (metis map_of_eq_None_iff not_None_eq list.set_map)
    with assms(3) [of k] show "k \<in> set (dict_keys orders)" by (cases "map_of orders k") (auto dest: map_of_key)
  qed
  have "dict_sum f d = (\<Sum>k \<in> set (dict_keys d). f (the (map_of orders k)))"
    unfolding dict_sum_keys [OF assms(2)]
  proof (rule sum.cong [OF refl])
    fix k
    assume "k \<in> set (dict_keys d)"
    then obtain b where b: "map_of d k = Some b" by (metis map_of_eq_None_iff not_None_eq list.set_map)
    with assms(3) [of k] obtain a where "map_of orders k = Some a" "same_order a b" by (cases "map_of orders k") auto
    with b same show "f (the (map_of d k)) = f (the (map_of orders k))" by simp
  qed
  also have "\<dots> = (\<Sum>k \<in> set (dict_keys orders). f (the (map_of orders k)))"
  proof (rule sum.mono_neutral_left [OF _ sub])
    show "\<forall>k \<in> set (dict_keys orders) - set (dict_keys d). f (the (map_of orders k)) = 0"
    proof
      fix k
      assume k: "k \<in> set (dict_keys orders) - set (dict_keys d)"
      then have "map_of d k = None" by (simp add: map_of_eq_None_iff)
      moreover obtain a where a: "map_of orders k = Some a" using k by (metis DiffD1 map_of_eq_None_iff not_None_eq list.set_map)
      ultimately show "f (the (map_of orders k)) = 0" using assms(3) [of k] rej by simp
    qed
  qed simp
  finally show ?thesis by (simp add: dict_sum_keys [OF assms(1)])
qed

lemma same_order_keeps:
  assumes "same_order a b"
  shows "wf_order a \<Longrightarrow> wf_order b" "amount_ok amt a \<Longrightarrow> amount_ok amt (pending_to_unknown b)"
    "open_share sd sy b = open_share sd sy a" "net_share sy b = net_share sy a"
  using assms
  by (auto simp: same_order_def pending_to_unknown_def wf_order_def amount_ok_def open_share_def net_share_def remaining_qty_def
      OPEN_STATUSES_def TERMINAL_STATUSES_def split: if_splits option.splits)

lemma mirrored_all:
  assumes "wf_dict d" "dict_all P orders" "\<And>k. mirror_at (map_of orders k) (map_of d k)" "\<And>a b. same_order a b \<Longrightarrow> P a \<Longrightarrow> Q b"
  shows "dict_all Q d"
proof -
  have "Q b" if "(k, b) \<in> set d" for k b
  proof -
    have "map_of d k = Some b" using that assms(1) by simp
    with assms(3) [of k] obtain a where "map_of orders k = Some a" "same_order a b" by (cases "map_of orders k") auto
    with assms(2,4) show ?thesis by (meson dict_all_lookup)
  qed
  then show ?thesis by (auto simp: dict_all_iff)
qed

lemma restart_safe:
  assumes res: "resumes m rs" and wf: "wf_oms m" and torn: "j_torn j = []" and m': "m' = new_oms g (m_ledger m) j (Some rs)"
  shows "wf_oms m' \<and> (no_oversell m \<longrightarrow> no_oversell m')"
proof -
  have rs: "wf_dict (rs_orders rs)" "\<And>k. mirror_at (map_of (m_orders m) k) (map_of (rs_orders rs) k)"
    "\<forall>k \<in> set (dict_keys (m_orders m)). \<exists>i \<le> rs_next_seq rs. seq_of (JStr k) = Inr i"
    using res by (auto simp: resumes_def)
  have books: "wf_dict (m_orders m)" "dict_all wf_order (m_orders m)" "wf_ledger (m_ledger m)"
    "\<And>k ord. map_of (m_orders m) k = Some ord \<Longrightarrow> o_client_id ord = k"
    using wf by (auto simp: wf_oms_def wf_books_def well_keyed_def)
  have twin: "\<exists>a. map_of (m_orders m) k = Some a \<and> same_order a b" if "map_of (rs_orders rs) k = Some b" for k b
    using rs(2) [of k] that by (cases "map_of (m_orders m) k") auto
  have "well_keyed (rs_orders rs)"
    unfolding well_keyed_def using rs(1) twin books(4) by (fastforce simp: same_order_def simp del: map_of_eq_Some_iff)
  moreover have "dict_all wf_order (rs_orders rs)"
    by (rule mirrored_all [OF rs(1) books(2) rs(2)]) (rule same_order_keeps(1))
  moreover have "ids_below m'"
    unfolding ids_below_def
  proof
    fix k
    assume "k \<in> set (dict_keys (m_orders m'))"
    then obtain b where "map_of (rs_orders rs) k = Some b" by (metis m' new_oms_def option.simps(5) oms.select_convs(3) map_of_eq_None_iff not_None_eq list.set_map)
    then have "k \<in> set (dict_keys (m_orders m))" using twin by (blast dest: map_of_key)
    with rs(3) have "\<exists>i \<le> rs_next_seq rs. seq_of (JStr k) = Inr i" by blast
    then show "\<exists>n \<le> m_seq m'. seq_of (JStr k) = Inr n" by (simp add: m' new_oms_def)
  qed
  moreover have "no_oversell m'" if "no_oversell m"
  proof -
    have "dict_sum (open_share SELL sy) (rs_orders rs) = dict_sum (open_share SELL sy) (m_orders m)" for sy
      by (rule mirrored_sum [OF books(1) rs(1,2) _ same_order_keeps(3)]) (auto simp: open_share_def OPEN_STATUSES_def)
    with that show ?thesis by (simp add: no_oversell_def open_qty_dict_sum m' new_oms_def)
  qed
  ultimately show ?thesis using books(3) torn by (simp add: wf_oms_def wf_books_def m' new_oms_def)
qed

lemma restart_journaled:
  assumes j: "journaled cm amt m" and rs: "restore_session (recs m) mode cm = Inr rs" "mode \<noteq> PAPER"
  shows "journaled cm amt (new_oms g (m_ledger m) (m_journal m) (Some rs))"
proof -
  have tr: "tracks cm (m_orders m) (m_ledger m) (m_seq m) (length (m_submit_times m)) (recs m)"
    and ok: "dict_all (amount_ok amt) (m_orders m)" and md: "moded (m_journal m)"
    using j by (simp_all add: journaled_def)
  obtain d top ts where t: "rfold replay_record (recs m) [] = Inr d" "mirrors (m_orders m) d"
    "\<forall>k \<in> set (dict_keys (m_orders m)). \<exists>i \<le> top. seq_of (JStr k) = Inr i" "rfold scan_record (recs m) (0, []) = Inr (top, ts)"
    "restore_session (recs m) mode cm = Inr \<lparr>rs_orders = map (\<lambda>(cid, ord). (cid, pending_to_unknown ord)) d,
        rs_next_seq = top, rs_submit_times = ts, rs_ledger = Some (m_ledger m)\<rparr>"
    using tracks_restores [OF tr rs(2)] by blast
  let ?d = "map (\<lambda>(cid, ord). (cid, pending_to_unknown ord)) d"
  have rs_eq: "rs = \<lparr>rs_orders = ?d, rs_next_seq = top, rs_submit_times = ts, rs_ledger = Some (m_ledger m)\<rparr>"
    using rs(1) t(5) by simp
  have self: "mirror_at (map_option pending_to_unknown y) y" for y by (cases y) (auto intro: same_order_pending)
  then have "mirrors ?d d" using t(2) by (simp add: mirrors_def map_of_pending)
  moreover have "\<exists>i \<le> top. seq_of (JStr k) = Inr i" if "k \<in> set (dict_keys ?d)" for k
  proof -
    from that obtain b where b: "map_of d k = Some b" unfolding keys_pending by (metis map_of_eq_None_iff not_None_eq list.set_map)
    have "mirror_at (map_of (m_orders m) k) (Some b)" using t(2) b unfolding mirrors_def by metis
    then have "k \<in> set (dict_keys (m_orders m))" by (cases "map_of (m_orders m) k") (auto dest: map_of_key)
    with t(3) show ?thesis by blast
  qed
  moreover obtain l0 where "ledger_start cm (recs m) l0" "rfold (replay_ledger_fill d) (recs m) l0 = Inr (m_ledger m)"
    using tr t(1) unfolding tracks_def by auto
  ultimately have "tracks cm ?d (m_ledger m) top (length ts) (recs m)"
    unfolding tracks_def using t(1,4) by (intro exI [of _ d] exI [of _ l0] exI [of _ top] exI [of _ ts]) simp
  moreover have "dict_all (amount_ok amt) ?d"
  proof -
    have "dict_all (\<lambda>b. amount_ok amt (pending_to_unknown b)) d"
      using t(2) unfolding mirrors_def by (intro mirrored_all [OF _ ok _ same_order_keeps(2)]) auto
    then show ?thesis by (induction d) auto
  qed
  ultimately show ?thesis using md by (simp add: journaled_def new_oms_def rs_eq recs_def del: map_map)
qed

end
