(* ===== verification/Service.thy ===== *)
theory Service
  imports Oms_Recovery
begin

text \<open>
  Assembling a session, \<open>src/execution/service.py\<close>: the process lock, the journal of the day
  read back, the ledger from the broker's holdings or from the journal, the check of the
  restored positions against the broker, and the opening record. Building the HTTP stack
  (\<open>build_kis_rest_stack\<close>) constructs objects only; its clients are the environment fields.
\<close>

record exec_settings =
  es_mode :: execution_mode
  es_commission_bps :: rat
  es_sell_tax_bps :: rat
  es_paper_initial_cash_krw :: int
  es_max_order_notional_krw :: int
  es_max_position_notional_krw :: int
  es_max_orders_per_minute :: int
  es_max_daily_loss_krw :: int
  es_symbol_whitelist :: "string list"
  es_position_parity_attempts :: nat

definition es_venue :: "exec_settings \<Rightarrow> kis_venue" where
  "es_venue s = (if es_mode s = MOCK then VENUE_MOCK else VENUE_LIVE)"

definition venue_value :: "kis_venue \<Rightarrow> string" where
  "venue_value v = (case v of VENUE_LIVE \<Rightarrow> ''live'' | VENUE_MOCK \<Rightarrow> ''mock'')"

definition costs_of :: "exec_settings \<Rightarrow> cost_model" where
  "costs_of s = \<lparr>commission_bps = es_commission_bps s, sell_tax_bps = es_sell_tax_bps s\<rparr>"

definition limits_of :: "exec_settings \<Rightarrow> risk_limits" where
  "limits_of s = \<lparr>max_order_notional_krw = es_max_order_notional_krw s,
     max_position_notional_krw = es_max_position_notional_krw s, max_orders_per_minute = es_max_orders_per_minute s,
     max_daily_loss_krw = es_max_daily_loss_krw s, symbol_whitelist = set (es_symbol_whitelist s)\<rparr>"

text \<open>
  What one start meets: whether the lock is free, the journal file, the answers to the
  successive balance queries and reconciliations, the clock. \<open>sv_whitelist_text\<close> is Python's
  text of the whitelist's \<open>frozenset\<close>, whose order the language leaves open.
\<close>

record service_env =
  sv_lock_free :: bool
  sv_today :: date
  sv_file :: "jfile option"
  sv_holdings :: "nat \<Rightarrow> nat \<Rightarrow> get_env"
  sv_reconcile :: "nat \<Rightarrow> live_env reconcile_env"
  sv_ts_mismatch :: datetime
  sv_ts_start :: datetime
  sv_whitelist_text :: string

datatype manager = PaperManager "paper_state oms" | LiveManager "live_state oms"

definition live_cfg :: "exec_settings \<Rightarrow> (live_state, live_env) oms_cfg" where
  "live_cfg s = \<lparr>c_gw = live_gateway (es_mode s), c_limits = limits_of s, c_costs = costs_of s\<rparr>"

definition holding_json :: "holding \<Rightarrow> json" where
  "holding_json h = JObj [(''symbol'', JStr (h_symbol h)), (''qty'', JInt (h_qty h)), (''cost_krw'', JInt (h_cost_krw h))]"

definition limits_json :: "service_env \<Rightarrow> risk_limits \<Rightarrow> json" where
  "limits_json env l = JObj [(''max_order_notional_krw'', JInt (max_order_notional_krw l)),
     (''max_position_notional_krw'', JInt (max_position_notional_krw l)),
     (''max_orders_per_minute'', JInt (max_orders_per_minute l)), (''max_daily_loss_krw'', JInt (max_daily_loss_krw l)),
     (''symbol_whitelist'', JStr (sv_whitelist_text env))]"

definition start_fields :: "exec_settings \<Rightarrow> service_env \<Rightarrow> holding list \<Rightarrow> recovered_session \<Rightarrow> jobj" where
  "start_fields s env hs rs =
     [(''venue'', JStr (venue_value (es_venue s))), (''holdings_count'', JInt (int (length hs))),
      (''holdings'', JList (map holding_json hs)), (''restored_orders'', JInt (int (length (rs_orders rs)))),
      (''limits'', limits_json env (limits_of s))]"

definition diff_json :: "string \<times> int \<times> int \<Rightarrow> json" where
  "diff_json x = (case x of (sy, lq, bq) \<Rightarrow> JObj [(''symbol'', JStr sy), (''ledger_qty'', JInt lq), (''broker_qty'', JInt bq)])"

definition diff_text :: "string \<times> int \<times> int \<Rightarrow> string" where
  "diff_text x = (case x of (sy, lq, bq) \<Rightarrow> sy @ '' ledger='' @ show_int lq @ '' broker='' @ show_int bq)"

fun join_text :: "string \<Rightarrow> string list \<Rightarrow> string" where
  "join_text sep [] = []"
| "join_text sep [x] = x"
| "join_text sep (x # xs) = x @ sep @ join_text sep xs"

text \<open>The check of a restored session: reconcile while orders are open, compare with the broker.\<close>

fun parity_loop :: "nat \<Rightarrow> nat \<Rightarrow> (live_state, live_env) oms_cfg \<Rightarrow> service_env \<Rightarrow> (string \<times> int \<times> int) list \<Rightarrow> holding list \<Rightarrow> live_state oms
    \<Rightarrow> ((string \<times> int \<times> int) list \<times> holding list) result \<times> live_state oms" where
  "parity_loop 0 k cfg env dfs hs m = (Inr (dfs, hs), m)"
| "parity_loop (Suc n) k cfg env dfs hs m =
     (let (r, m1) = (if list_ex (\<lambda>ord. o_status ord \<notin> TERMINAL_STATUSES) (dict_values (m_orders m))
                     then reconcile cfg (sv_reconcile env k) m else (Inr [], m))
      in case r of
           Inl e \<Rightarrow> (Inl e, m1)
         | Inr _ \<Rightarrow>
             (case get_holdings (sv_holdings env k) of
                Inl e \<Rightarrow> (Inl e, m1)
              | Inr hs' \<Rightarrow>
                  let ds = position_diffs (m_ledger m1) hs' in
                  if ds = [] then (Inr (ds, hs'), m1) else parity_loop n (Suc k) cfg env ds hs' m1))"

definition positions_of :: "holding list \<Rightarrow> (string, position) dict" where
  "positions_of hs = fold (\<lambda>h ps. AList.update (h_symbol h) \<lparr>p_qty = h_qty h, p_cost_krw = h_cost_krw h\<rparr> ps) hs []"

definition finish :: "exec_settings \<Rightarrow> service_env \<Rightarrow> recovered_session \<Rightarrow> holding list \<Rightarrow> 'g oms \<Rightarrow> 'g oms result \<times> 'g oms" where
  "finish s env rs hs m = (let (r, m1) = record_event (sv_ts_start env) ''session_start'' (start_fields s env hs rs) m
     in (case r of Inl e \<Rightarrow> Inl e | Inr _ \<Rightarrow> Inr m1, m1))"

definition block_on_mismatch :: "service_env \<Rightarrow> (string \<times> int \<times> int) list \<Rightarrow> live_state oms \<Rightarrow> unit result \<times> live_state oms" where
  "block_on_mismatch env dfs m =
     (if dfs = [] then (Inr (), m)
      else let (r, m1) = record_event (sv_ts_mismatch env) ''position_mismatch'' [(''diffs'', JList (map diff_json dfs))] m
           in case r of
                Inl e \<Rightarrow> (Inl e, m1)
              | Inr _ \<Rightarrow> (Inr (), block_submits (''position mismatch: '' @ join_text '', '' (map diff_text dfs)) m1))"

definition build_live :: "exec_settings \<Rightarrow> kis_credentials \<Rightarrow> service_env \<Rightarrow> recovered_session \<Rightarrow> journal \<Rightarrow> live_state oms result \<times> journal" where
  "build_live s creds env rs j =
     (case live_init (es_mode s) (es_venue s) creds of
        Inl e \<Rightarrow> (Inl e, j)
      | Inr g \<Rightarrow>
          (case rs_ledger rs of
             None \<Rightarrow>
               (case get_holdings (sv_holdings env 0) of
                  Inl e \<Rightarrow> (Inl e, j)
                | Inr hs \<Rightarrow>
                    let (r, m) = finish s env rs hs (new_oms g (new_ledger 0 (costs_of s) (positions_of hs)) j (Some rs))
                    in (r, m_journal m))
           | Some l \<Rightarrow>
               (case parity_loop (es_position_parity_attempts s) 0 (live_cfg s) env [] [] (new_oms g l j (Some rs)) of
                  (Inl e, m) \<Rightarrow> (Inl e, m_journal m)
                | (Inr (dfs, hs), m) \<Rightarrow>
                    (case block_on_mismatch env dfs m of
                       (Inl e, m1) \<Rightarrow> (Inl e, m_journal m1)
                     | (Inr _, m1) \<Rightarrow> let (r, m2) = finish s env rs hs m1 in (r, m_journal m2)))))"

definition build_paper :: "exec_settings \<Rightarrow> kis_credentials \<Rightarrow> service_env \<Rightarrow> recovered_session \<Rightarrow> journal \<Rightarrow> paper_state oms result \<times> journal" where
  "build_paper s creds env rs j =
     (case get_holdings (sv_holdings env 0) of
        Inl e \<Rightarrow> (Inl e, j)
      | Inr hs \<Rightarrow>
          let (r, m) = finish s env rs hs
                (new_oms \<lparr>pg_creds = creds, pg_seq = 0, pg_book = []\<rparr> (new_ledger (es_paper_initial_cash_krw s) (costs_of s) []) j (Some rs))
          in (r, m_journal m))"

fun account_error :: "exn \<Rightarrow> exn" where
  "account_error (KisApiError c d) = AccountCheckError (''account self-check failed: '' @ c @ '': '' @ d)"
| "account_error (BrokerIntegrityError d) = AccountCheckError (''account self-check failed: '' @ d)"
| "account_error e = e"

text \<open>The value or exception, the journal as it then is, and whether the lock is held.\<close>

definition build_order_manager :: "exec_settings \<Rightarrow> kis_credentials \<Rightarrow> service_env \<Rightarrow> journal \<Rightarrow> manager result \<times> journal \<times> bool" where
  "build_order_manager s creds env j =
     (if \<not> sv_lock_free env then (Inl (SessionLockError ''order session already active''), j, False)
      else let (rd, j1) = read_day j (sv_file env) (sv_today env)
           in case rbind rd (\<lambda>records. restore_session records (es_mode s) (costs_of s)) of
                Inl e \<Rightarrow> (Inl (account_error e), j1, False)
              | Inr rs \<Rightarrow>
                  if es_mode s = PAPER then
                    (case build_paper s creds env rs j1 of
                       (Inl e, j2) \<Rightarrow> (Inl (account_error e), j2, False)
                     | (Inr m, j2) \<Rightarrow> (Inr (PaperManager m), j2, True))
                  else
                    (case build_live s creds env rs j1 of
                       (Inl e, j2) \<Rightarrow> (Inl (account_error e), j2, False)
                     | (Inr m, j2) \<Rightarrow> (Inr (LiveManager m), j2, True)))"

section \<open>The lock\<close>

lemma build_lock:
  "snd (snd (build_order_manager s creds env j)) \<longleftrightarrow> (\<exists>mgr. fst (build_order_manager s creds env j) = Inr mgr)"
  by (auto simp: build_order_manager_def case_prod_beta Let_def split: sum.splits)

section \<open>The position check\<close>

lemma parity_keeps: "wf_oms m \<Longrightarrow> keeps m (snd (parity_loop n k cfg env dfs hs m))"
proof (induction n arbitrary: k dfs hs m)
  case 0
  then show ?case by (simp add: keeps_refl)
next
  case (Suc n)
  obtain r m1 where step: "(if list_ex (\<lambda>ord. o_status ord \<notin> TERMINAL_STATUSES) (dict_values (m_orders m))
      then reconcile cfg (sv_reconcile env k) m else (Inr [], m)) = (r, m1)" by fastforce
  have k1: "keeps m m1"
    using step reconcile_keeps [OF Suc.prems, of cfg "sv_reconcile env k"] keeps_refl [OF Suc.prems] by (auto split: if_splits)
  then have "wf_oms m1" by (simp add: keeps_def)
  with k1 Suc.IH [OF this] show ?case
    by (auto simp: step Let_def split: sum.splits intro: keeps_trans)
qed

lemma parity_result:
  assumes "parity_loop n k cfg env dfs hs m = (Inr (ds, hs'), m')" "0 < n"
  shows "ds = position_diffs (m_ledger m') hs' \<and> (\<exists>i. get_holdings (sv_holdings env i) = Inr hs')"
  using assms
proof (induction n arbitrary: k dfs hs m)
  case 0
  then show ?case by simp
next
  case (Suc n)
  obtain r m1 where step: "(if list_ex (\<lambda>ord. o_status ord \<notin> TERMINAL_STATUSES) (dict_values (m_orders m))
      then reconcile cfg (sv_reconcile env k) m else (Inr [], m)) = (r, m1)" by fastforce
  with Suc.prems obtain hs1 where hs1: "get_holdings (sv_holdings env k) = Inr hs1" and r: "\<exists>u. r = Inr u"
    by (auto simp: step Let_def split: sum.splits)
  show ?case
  proof (cases "position_diffs (m_ledger m1) hs1 = []")
    case True
    with Suc.prems step hs1 r show ?thesis by (auto simp: Let_def)
  next
    case False
    then have rest: "parity_loop n (Suc k) cfg env (position_diffs (m_ledger m1) hs1) hs1 m1 = (Inr (ds, hs'), m')"
      using Suc.prems step hs1 r by (auto simp: Let_def)
    show ?thesis
    proof (cases n)
      case 0
      with rest hs1 show ?thesis by auto
    next
      case (Suc n')
      with Suc.IH [OF rest] show ?thesis by simp
    qed
  qed
qed

lemma finish_frame:
  assumes "finish s env rs hs m = (Inr m', m1)"
  shows "m' = m1" "m_orders m' = m_orders m" "m_ledger m' = m_ledger m" "m_seq m' = m_seq m"
    "m_block_reason m' = m_block_reason m" "j_torn (m_journal m') = j_torn (m_journal m)" "m_submit_times m' = m_submit_times m"
proof -
  have m1: "m1 = snd (record_event (sv_ts_start env) ''session_start'' (start_fields s env hs rs) m)" and "m' = m1"
    using assms by (auto simp: finish_def Let_def case_prod_beta split: sum.splits)
  then show "m' = m1" "m_orders m' = m_orders m" "m_ledger m' = m_ledger m" "m_seq m' = m_seq m"
    "m_block_reason m' = m_block_reason m" "j_torn (m_journal m') = j_torn (m_journal m)" "m_submit_times m' = m_submit_times m"
    by simp_all
qed

lemma block_frame:
  assumes "block_on_mismatch env dfs m = (Inr u, m')"
  shows "m_orders m' = m_orders m \<and> m_ledger m' = m_ledger m \<and> m_seq m' = m_seq m \<and> j_torn (m_journal m') = j_torn (m_journal m)
    \<and> (m_block_reason m' = None \<longrightarrow> dfs = [])"
  using assms
  by (auto simp: block_on_mismatch_def case_prod_beta block_submits_def split: if_splits sum.splits)

text \<open>A session restored from the journal, when it is handed out.\<close>

lemma build_live_restored:
  assumes b: "build_live s creds env rs j = (Inr m, j')" and l: "rs_ledger rs = Some l" and n: "0 < es_position_parity_attempts s"
    and wf: "\<And>g :: live_state. wf_oms (new_oms g l j (Some rs))"
  shows "\<exists>(g :: live_state) m1. keeps (new_oms g l j (Some rs)) m1 \<and> m_orders m = m_orders m1 \<and> m_ledger m = m_ledger m1
    \<and> m_seq m = m_seq m1 \<and> j_torn (m_journal m) = j_torn (m_journal m1)
    \<and> (m_block_reason m = None \<longrightarrow> (\<exists>i hs. get_holdings (sv_holdings env i) = Inr hs \<and> position_diffs (m_ledger m) hs = []))"
proof -
  obtain g where g: "live_init (es_mode s) (es_venue s) creds = Inr g" using b by (auto simp: build_live_def split: sum.splits)
  let ?m0 = "new_oms g l j (Some rs)"
  obtain ds hs m1 where p: "parity_loop (es_position_parity_attempts s) 0 (live_cfg s) env [] [] ?m0 = (Inr (ds, hs), m1)"
    using b g l by (auto simp: build_live_def split: prod.splits sum.splits)
  obtain u m2 where bl: "block_on_mismatch env ds m1 = (Inr u, m2)"
    using b g l p by (auto simp: build_live_def split: prod.splits sum.splits)
  obtain m3 where f: "finish s env rs hs m2 = (Inr m, m3)"
    using b g l p bl by (cases "finish s env rs hs m2") (auto simp: build_live_def)
  have "keeps ?m0 m1" using parity_keeps [OF wf [of g]] p by (metis snd_conv)
  moreover have "ds = position_diffs (m_ledger m1) hs \<and> (\<exists>i. get_holdings (sv_holdings env i) = Inr hs)"
    using parity_result [OF p n] .
  ultimately show ?thesis
    using finish_frame [OF f] block_frame [OF bl] by (intro exI [of _ g] exI [of _ m1]) (auto simp: conj_commute)
qed

lemma keeps_frame:
  "keeps m0 m1 \<Longrightarrow> m_orders m = m_orders m1 \<Longrightarrow> m_ledger m = m_ledger m1 \<Longrightarrow> m_seq m = m_seq m1 \<Longrightarrow>
     j_torn (m_journal m) = j_torn (m_journal m1) \<Longrightarrow> keeps m0 m"
  unfolding keeps_def using frame_keeps [of m m1] by simp

section \<open>A day's life\<close>

text \<open>All records of the journal are of one day.\<close>

definition on_day :: "date \<Rightarrow> journal \<Rightarrow> bool" where
  "on_day d j \<longleftrightarrow> (\<forall>p \<in> set (j_lines j). fst p = d)"

lemma read_back:
  assumes "on_day d (m_journal m)" "moded (m_journal m)"
  shows "read_day (m_journal m) (Some (day_file (m_journal m) d)) d = (Inr (recs m), m_journal m)"
proof -
  have "filter (\<lambda>(x, _). x = d) (j_lines (m_journal m)) = j_lines (m_journal m)"
    using assms(1) by (auto simp: on_day_def filter_id_conv)
  moreover have "filter (\<lambda>r. jget r ''mode'' = JStr (mode_value (j_mode (m_journal m)))) (recs m) = recs m"
    using assms(2) by (auto simp: moded_def recs_def filter_id_conv)
  ultimately show ?thesis by (simp add: read_day_own_file recs_def)
qed

lemma restart_restored:
  assumes j: "journaled (costs_of s) amt m" and wf: "wf_oms m" and day: "on_day (sv_today env) (m_journal m)"
    and fil: "sv_file env = Some (day_file (m_journal m) (sv_today env))" and mode: "es_mode s \<noteq> PAPER"
    and n: "0 < es_position_parity_attempts s"
    and b: "build_order_manager s creds env (m_journal m) = (Inr (LiveManager m2), j2, held)"
  shows "\<exists>rs m0. resumes m rs \<and> wf_oms m0 \<and> keeps m0 m2 \<and> m_ledger m0 = m_ledger m \<and> m_orders m0 = rs_orders rs
    \<and> (no_oversell m \<longrightarrow> no_oversell m0)
    \<and> (m_block_reason m2 = None \<longrightarrow> (\<exists>i hs. get_holdings (sv_holdings env i) = Inr hs \<and> position_diffs (m_ledger m2) hs = []))"
proof -
  obtain rs where rs: "restore_session (recs m) (es_mode s) (costs_of s) = Inr rs" "resumes m rs"
    using journaled_resumes [OF j mode] by blast
  have torn: "j_torn (m_journal m) = []" using wf by (simp add: wf_oms_def wf_books_def)
  have l: "rs_ledger rs = Some (m_ledger m)" using rs(2) by (simp add: resumes_def)
  have read: "read_day (m_journal m) (sv_file env) (sv_today env) = (Inr (recs m), m_journal m)"
    using read_back [OF day] j fil by (simp add: journaled_def)
  have bl: "build_live s creds env rs (m_journal m) = (Inr m2, j2)"
    using b mode by (auto simp: build_order_manager_def read rs(1) split: if_splits prod.splits sum.splits)
  have wf': "wf_oms (new_oms g (m_ledger m) (m_journal m) (Some rs))" and
    ns: "no_oversell m \<Longrightarrow> no_oversell (new_oms g (m_ledger m) (m_journal m) (Some rs))" for g :: live_state
    using restart_safe [OF rs(2) wf torn refl, of g] by simp_all
  from build_live_restored [OF bl l n wf'] show ?thesis
  proof (elim exE conjE)
    fix g :: live_state and m1
    assume "keeps (new_oms g (m_ledger m) (m_journal m) (Some rs)) m1" "m_orders m2 = m_orders m1" "m_ledger m2 = m_ledger m1"
      "m_seq m2 = m_seq m1" "j_torn (m_journal m2) = j_torn (m_journal m1)"
      "m_block_reason m2 = None \<longrightarrow> (\<exists>i hs. get_holdings (sv_holdings env i) = Inr hs \<and> position_diffs (m_ledger m2) hs = [])"
    then show ?thesis
      using rs(2) wf' ns
      by (intro exI [of _ rs] exI [of _ "new_oms g (m_ledger m) (m_journal m) (Some rs)"])
        (auto simp: new_oms_def intro: keeps_frame)
  qed
qed

section \<open>The first session of a day\<close>

lemma get_holdings_pos: "get_holdings env = Inr hs \<Longrightarrow> \<forall>h \<in> set hs. 0 < h_qty h"
proof -
  assume "get_holdings env = Inr hs"
  then obtain rows os where os: "rmap parse_holding_row rows = Inr os" "hs = List.map_filter id os"
    by (auto simp: get_holdings_def rbind_Inr_iff)
  have "0 < h_qty h" if "Some h \<in> set os" for h
  proof -
    from os(1) that obtain row where "parse_holding_row row = Inr (Some h)"
      by (auto simp: rmap_Inr_iff list_all2_conv_all_nth in_set_conv_nth)
    then show ?thesis by (auto simp: parse_holding_row_def rbind_Inr_iff split: json.splits option.splits if_splits)
  qed
  with os(2) show ?thesis by (auto simp: List.map_filter_def)
qed

definition holding_position :: "holding \<Rightarrow> string \<times> position" where
  "holding_position h = (h_symbol h, \<lparr>p_qty = h_qty h, p_cost_krw = h_cost_krw h\<rparr>)"

lemma positions_of_distinct: "distinct (map h_symbol hs) \<Longrightarrow> positions_of hs = map holding_position hs"
proof -
  have "fold (\<lambda>h ps. AList.update (h_symbol h) \<lparr>p_qty = h_qty h, p_cost_krw = h_cost_krw h\<rparr> ps) hs ps = ps @ map holding_position hs"
    if "distinct (dict_keys ps @ map h_symbol hs)" for ps
    using that
  proof (induction hs arbitrary: ps)
    case Nil
    then show ?case by simp
  next
    case (Cons h hs)
    then have "AList.update (h_symbol h) \<lparr>p_qty = h_qty h, p_cost_krw = h_cost_krw h\<rparr> ps = ps @ [holding_position h]"
      by (simp add: holding_position_def update_append_new map_of_eq_None_iff)
    with Cons show ?case by (simp add: holding_position_def)
  qed
  from this [of "[]"] show "distinct (map h_symbol hs) \<Longrightarrow> ?thesis" by (simp add: positions_of_def)
qed

lemma snapshot_holdings:
  assumes "distinct (dict_keys ps @ map h_symbol hs)" "\<forall>h \<in> set hs. 0 \<le> h_qty h \<and> 0 \<le> h_cost_krw h"
  shows "rfold snapshot_row (map holding_json hs) ps = Inr (ps @ map holding_position hs)"
  using assms
proof (induction hs arbitrary: ps)
  case Nil
  then show ?case by simp
next
  case (Cons h hs)
  then have "snapshot_row (holding_json h) ps = Inr (ps @ [holding_position h])"
    by (simp add: snapshot_row_def holding_json_def need_def holding_position_def update_append_new map_of_eq_None_iff)
  with Cons show ?case by (simp add: holding_position_def)
qed

lemma redact_holdings: "redact (JList (map holding_json hs)) = JList (map holding_json hs)"
  by (simp add: holding_json_def REDACT_KEYS_def lower_def lower_char_def)

lemma start_tracks:
  assumes "distinct (map h_symbol hs)" "\<forall>h \<in> set hs. 0 \<le> h_qty h \<and> 0 \<le> h_cost_krw h"
    and r: "r = append_record mode ts ''session_start'' (start_fields s env hs rs)"
  shows "tracks cm [] (new_ledger 0 cm (map holding_position hs)) 0 0 [r]"
proof -
  have plain: "plain_fields (start_fields s env hs rs)" by (simp add: plain_fields_def start_fields_def)
  have ev: "jget r ''event'' = JStr ''session_start''" "jget r ''holdings'' = JList (map holding_json hs)" "\<not> has_key r ''client_id''"
    using redact_holdings [of hs]
    by (simp_all add: r jget_append_record [OF plain] has_key_def append_record_lookup [OF plain]) (simp_all add: start_fields_def)
  have "ledger_start cm [r] (new_ledger 0 cm (map holding_position hs))"
    using snapshot_holdings [of "[]" hs] assms ev by (simp add: ledger_start_def)
  moreover have "replay_record r [] = Inr []" "scan_record r (0, []) = Inr (0, [])"
    "replay_ledger_fill [] r l = Inr l" for l
    using ev by (simp_all add: replay_record_def scan_record_def replay_ledger_fill_def ORDER_EVENTS_def image_iff)
  ultimately show ?thesis
    unfolding tracks_def
    by (intro exI [of _ "[]"] exI [of _ "new_ledger 0 cm (map holding_position hs)"] exI [of _ 0]) (simp add: mirrors_def)
qed

lemma restore_nothing: "restore_session [] mode cm = Inr \<lparr>rs_orders = [], rs_next_seq = 0, rs_submit_times = [], rs_ledger = None\<rparr>"
  by (simp add: restore_session_def replay_ledger_def)

lemma fresh_start:
  assumes j: "j = \<lparr>j_mode = es_mode s, j_torn = [], j_lines = []\<rparr>" and "sv_file env = None" "es_mode s \<noteq> PAPER"
    and hs: "get_holdings (sv_holdings env 0) = Inr hs" "distinct (map h_symbol hs)" "\<forall>h \<in> set hs. 0 \<le> h_cost_krw h"
    and costs: "wf_costs (costs_of s)"
    and b: "build_order_manager s creds env j = (Inr (LiveManager m), j2, held)"
  shows "wf_oms m" "no_oversell m" "journaled (costs_of s) amt m" "m_orders m = []" "rate_ok cfg m"
proof -
  let ?rs = "\<lparr>rs_orders = [], rs_next_seq = 0, rs_submit_times = [], rs_ledger = None\<rparr>"
  let ?l = "new_ledger 0 (costs_of s) (map holding_position hs)"
  have "build_live s creds env ?rs j = (Inr m, j2)"
    using b assms(2,3) by (auto simp: build_order_manager_def read_day_def restore_nothing split: if_splits prod.splits sum.splits)
  then obtain g m1 where f: "finish s env ?rs hs (new_oms g ?l j (Some ?rs)) = (Inr m, m1)"
    by (auto simp: build_live_def hs(1) positions_of_distinct [OF hs(2)] split: sum.splits prod.splits)
  have frame: "m_orders m = []" "m_ledger m = ?l" "m_seq m = 0" "j_torn (m_journal m) = []" "m_submit_times m = []"
    using finish_frame [OF f] by (simp_all add: new_oms_def j)
  have pos: "\<forall>h \<in> set hs. 0 < h_qty h" using hs(1) by (rule get_holdings_pos)
  have keys: "dict_keys (map holding_position hs) = map h_symbol hs" by (simp add: holding_position_def)
  have wl: "wf_ledger ?l"
    unfolding wf_ledger_def using keys hs(2,3) pos costs
    by (auto simp: new_ledger_def dict_all_iff holding_position_def wf_position_def comp_def)
  then show wf: "wf_oms m"
    by (simp add: wf_oms_def wf_books_def well_keyed_def ids_below_def frame)
  show "no_oversell m" using ledger_qty_nonneg [OF wl] by (simp add: no_oversell_def open_qty_dict_sum frame)
  show "m_orders m = []" by (fact frame(1))
  show "rate_ok cfg m" by (simp add: rate_ok_def sent_in_window_def frame)
  have m: "m = snd (record_event (sv_ts_start env) ''session_start'' (start_fields s env hs ?rs) (new_oms g ?l j (Some ?rs)))"
    using f by (auto simp: finish_def Let_def case_prod_beta split: sum.splits)
  have r: "recs m = [append_record (es_mode s) (sv_ts_start env) ''session_start'' (start_fields s env hs ?rs)]"
    unfolding m by (subst record_event_recs(1)) (simp_all add: new_oms_def j recs_def)
  have "tracks (costs_of s) [] ?l 0 0 (recs m)"
    unfolding r using hs(2,3) pos by (intro start_tracks) (auto intro: less_imp_le)
  moreover have "moded (m_journal m)"
    unfolding m record_event_frame
    by (rule moded_record) (simp_all add: new_oms_def j plain_fields_def start_fields_def moded_def)
  ultimately show "journaled (costs_of s) amt m" by (simp add: journaled_def frame)
qed

section \<open>Trading days\<close>

text \<open>
  A live manager opened at the start of a day: nothing journaled yet, a valid broker balance
  with one row per symbol, non-negative costs.
\<close>

definition opens_day :: "exec_settings \<Rightarrow> kis_credentials \<Rightarrow> service_env \<Rightarrow> live_state oms \<Rightarrow> bool" where
  "opens_day s creds env m \<longleftrightarrow> es_mode s \<noteq> PAPER \<and> wf_costs (costs_of s) \<and> sv_file env = None
     \<and> (\<exists>hs. get_holdings (sv_holdings env 0) = Inr hs \<and> distinct (map h_symbol hs) \<and> (\<forall>h \<in> set hs. 0 \<le> h_cost_krw h))
     \<and> (\<exists>j held. build_order_manager s creds env \<lparr>j_mode = es_mode s, j_torn = [], j_lines = []\<rparr> = (Inr (LiveManager m), j, held))"

text \<open>
  Calls on the manager during the day. The broker reports for an order and a cumulative quantity
  always the same cumulative amount \<open>amt\<close>, and the clock gives valid instants.
\<close>

definition trades :: "exec_settings \<Rightarrow> (string \<Rightarrow> int \<Rightarrow> int) \<Rightarrow> live_state oms \<Rightarrow> live_state oms \<Rightarrow> bool" where
  "trades s amt = oms_reach (\<lambda>env. valid_datetime (se_ts_intent env)) (broker_ok amt (live_cfg s)) (live_cfg s)"

lemma live_cfg_gateway: "c_gw (live_cfg s) = live_gateway (es_mode s)"
  by (simp add: live_cfg_def)

lemma day_state:
  assumes "opens_day s creds env m0" "trades s amt m0 m" "\<And>no. amt no 0 = 0"
  shows "wf_oms m" "no_oversell m" "journaled (costs_of s) amt m" "keeps m0 m" "es_mode s \<noteq> PAPER" "m_orders m0 = []"
proof -
  have start: "wf_oms m0" "no_oversell m0" "journaled (costs_of s) amt m0" "m_orders m0 = []"
    using assms(1) fresh_start [OF refl, where s = s and env = env] by (fastforce simp: opens_day_def)+
  have "keeps m0 m"
    using live_gw.reach_keeps [OF assms(2) [unfolded trades_def] live_cfg_gateway start(1)] .
  with start show "wf_oms m" "no_oversell m" "keeps m0 m" "m_orders m0 = []" by (simp_all add: keeps_def)
  show "journaled (costs_of s) amt m"
    using live_gw.reach_journaled [OF assms(2) [unfolded trades_def] live_cfg_gateway start(1,3)] assms(3) by blast
  show "es_mode s \<noteq> PAPER" using assms(1) by (simp add: opens_day_def)
qed

lemma resumed_orders:
  assumes "resumes m rs" "orders_evolve (rs_orders rs) (m_orders m2)" "map_of (m_orders m) k = Some a" "o_status a \<noteq> REJECTED"
  shows "\<exists>b. map_of (m_orders m2) k = Some b \<and> o_intent b = o_intent a \<and> o_filled_qty a \<le> o_filled_qty b"
proof -
  from assms(1) have "mirror_at (map_of (m_orders m) k) (map_of (rs_orders rs) k)" by (simp add: resumes_def)
  with assms(3,4) obtain c where c: "map_of (rs_orders rs) k = Some c" "same_order a c"
    by (cases "map_of (rs_orders rs) k") auto
  with assms(2) show ?thesis by (fastforce simp: orders_evolve_def order_evolves_def same_order_def)
qed

lemma restart_builds:
  assumes j: "journaled (costs_of s) amt m" and wf: "wf_oms m" and day: "on_day (sv_today env) (m_journal m)"
    and fil: "sv_file env = Some (day_file (m_journal m) (sv_today env))" and mode: "es_mode s \<noteq> PAPER"
    and none: "m_orders m = []" and free: "sv_lock_free env" and hs: "\<And>i. \<exists>hs. get_holdings (sv_holdings env i) = Inr hs"
  shows "\<exists>m2 j2. build_order_manager s creds env (m_journal m) = (Inr (LiveManager m2), j2, True)"
proof -
  obtain rs where rs: "restore_session (recs m) (es_mode s) (costs_of s) = Inr rs" "resumes m rs"
    using journaled_resumes [OF j mode] by blast
  have l: "rs_ledger rs = Some (m_ledger m)" using rs(2) by (simp add: resumes_def)
  have "map_of (rs_orders rs) k = None" for k
    using rs(2) none by (cases "map_of (rs_orders rs) k") (auto simp: resumes_def dest: spec [of _ k])
  then have no: "rs_orders rs = []" by (metis dict_keys_empty)
  obtain g where g: "live_init (es_mode s) (es_venue s) creds = Inr g"
    using mode by (cases "es_mode s") (auto simp: live_init_def es_venue_def)
  have read: "read_day (m_journal m) (sv_file env) (sv_today env) = (Inr (recs m), m_journal m)"
    using read_back [OF day] j fil by (simp add: journaled_def)
  have torn: "j_torn (m_journal m) = []" using wf by (simp add: wf_oms_def wf_books_def)
  have par: "\<exists>ds hs. parity_loop n i cfg env dfs hs0 m' = (Inr (ds, hs), m')" if "m_orders m' = []" for n i cfg dfs hs0 m'
    using that
  proof (induction n arbitrary: i dfs hs0)
    case 0
    then show ?case by simp
  next
    case (Suc n)
    obtain hs where "get_holdings (sv_holdings env i) = Inr hs" using hs by blast
    with Suc show ?case by (simp add: Let_def)
  qed
  let ?m = "new_oms g (m_ledger m) (m_journal m) (Some rs)"
  obtain ds hs where p: "parity_loop (es_position_parity_attempts s) 0 (live_cfg s) env [] [] ?m = (Inr (ds, hs), ?m)"
    using par [of ?m] no by (fastforce simp: new_oms_def)
  have "\<exists>m1. block_on_mismatch env ds ?m = (Inr (), m1) \<and> j_torn (m_journal m1) = []"
    using torn
    by (cases "ds = []") (simp_all add: block_on_mismatch_def record_event_def journal_append_def new_oms_def Let_def block_submits_def)
  then obtain m1 where b: "block_on_mismatch env ds ?m = (Inr (), m1)" "j_torn (m_journal m1) = []" by blast
  obtain m2 where f: "finish s env rs hs m1 = (Inr m2, m2)"
    using b(2) by (auto simp: finish_def record_event_def journal_append_def Let_def)
  have "build_live s creds env rs (m_journal m) = (Inr m2, m_journal m2)"
    by (simp add: build_live_def g l p b(1) f)
  then show ?thesis by (simp add: build_order_manager_def free read rs(1) mode)
qed

end
