(* ===== verification/Demo_Session.thy ===== *)
theory Demo_Session
  imports Service
begin

text \<open>
  A concrete live session: the settings, account, quote and broker answers on which the
  properties of the execution layer are instantiated.
\<close>

definition demo_ts :: datetime where
  "demo_ts = \<lparr>dt_date = \<lparr>d_year = 2026, d_month = 3, d_day = 3\<rparr>, dt_tod = mk_time 9 30 0, dt_off = kst_off\<rparr>"

definition demo_settings :: exec_settings where
  "demo_settings = \<lparr>es_mode = LIVE, es_commission_bps = 36396 / 100000, es_sell_tax_bps = 20,
     es_paper_initial_cash_krw = 10000000, es_max_order_notional_krw = 1000000, es_max_position_notional_krw = 3000000,
     es_max_orders_per_minute = 10, es_max_daily_loss_krw = 300000, es_symbol_whitelist = [], es_position_parity_attempts = 2\<rparr>"

definition demo_creds :: kis_credentials where
  "demo_creds = \<lparr>kis_account_no = ''12345678'', kis_account_product_code = ''01''\<rparr>"

definition demo_get :: "jobj \<Rightarrow> get_env" where
  "demo_get out = \<lparr>ge_auth = (\<lambda>_. AuthOk), ge_reply = (\<lambda>_. GetBody ((''rt_cd'', JStr ''0'') # out) []), ge_refresh = (\<lambda>_. Inr ())\<rparr>"

definition demo_balance :: jobj where
  "demo_balance = [(''output1'', JList [JObj [(''pdno'', JStr ''005930''), (''hldg_qty'', JStr ''7''), (''pchs_amt'', JStr ''490000'')]])]"

definition demo_live_env :: live_env where
  "demo_live_env = \<lparr>lv_ts = demo_ts,
     lv_post = \<lparr>pe_auth = (\<lambda>_. Inr ()), pe_reply = (\<lambda>_. PostBody [(''rt_cd'', JStr ''0''), (''output'', JObj [(''ODNO'', JStr ''0000117'')])]),
                pe_refresh = (\<lambda>_. Inr ())\<rparr>,
     lv_orders = (\<lambda>_. demo_get [(''output1'', JList [])]), lv_cash = demo_get []\<rparr>"

definition demo_reconcile :: "live_env reconcile_env" where
  "demo_reconcile = \<lparr>re_gw = demo_live_env, re_now = (\<lambda>_. demo_ts)\<rparr>"

definition demo_service :: service_env where
  "demo_service = \<lparr>sv_lock_free = True, sv_today = dt_date demo_ts, sv_file = None, sv_holdings = (\<lambda>_ _. demo_get demo_balance),
     sv_reconcile = (\<lambda>_. demo_reconcile), sv_ts_mismatch = demo_ts, sv_ts_start = demo_ts, sv_whitelist_text = ''frozenset()''\<rparr>"

definition demo_journal :: journal where
  "demo_journal = \<lparr>j_mode = LIVE, j_torn = [], j_lines = []\<rparr>"

definition demo_quote :: quote where
  "demo_quote = \<lparr>q_symbol = ''005930'', q_last = 70000, q_upper_limit = 91000, q_lower_limit = 49000, q_tick = 100,
     q_halted = False, q_asks = [(70100, 50)], q_bids = [(70000, 40)]\<rparr>"

definition demo_submit :: "live_env submit_env" where
  "demo_submit = \<lparr>se_quote = Inr demo_quote, se_kill = False, se_cash = demo_live_env, se_gw = demo_live_env,
     se_now_id = demo_ts, se_now_window = demo_ts, se_now_created = demo_ts, se_now_sent = demo_ts,
     se_ts_intent = demo_ts, se_ts_result = demo_ts, se_pretrade_ms = 1, se_gateway_ms = 2\<rparr>"

definition demo_intent :: order_intent where
  "demo_intent = \<lparr>i_symbol = ''005930'', i_side = SELL, i_qty = 3, i_order_type = LIMIT, i_limit_price = Some 70000, i_tag = []\<rparr>"

definition demo_cfg :: "(live_state, live_env) oms_cfg" where
  "demo_cfg = live_cfg demo_settings"

definition demo_gateway :: live_state where
  "demo_gateway = \<lparr>lg_creds = demo_creds, lg_venue = VENUE_LIVE\<rparr>"

definition demo_ledger :: ledger where
  "demo_ledger = new_ledger 0 (costs_of demo_settings) [(''005930'', \<lparr>p_qty = 7, p_cost_krw = 490000\<rparr>)]"

definition demo_start :: "live_state oms" where
  "demo_start = new_oms demo_gateway demo_ledger demo_journal None"

lemma demo_start_wf: "wf_oms demo_start" "no_oversell demo_start" "rate_ok demo_cfg demo_start"
  by (simp_all add: demo_start_def new_oms_def wf_oms_def wf_books_def well_keyed_def ids_below_def demo_ledger_def
      new_ledger_def wf_ledger_def wf_position_def wf_costs_def costs_of_def demo_settings_def demo_journal_def no_oversell_def
      open_qty_dict_sum ledger_qty_def rate_ok_def sent_in_window_def)

lemma demo_cfg_gateway: "c_gw demo_cfg = live_gateway LIVE"
  by (simp add: demo_cfg_def live_cfg_def demo_settings_def)

lemma demo_step: "oms_reach (\<lambda>_. True) (\<lambda>_. True) demo_cfg demo_start (snd (submit demo_cfg env intent demo_start))"
  by (rule r_into_rtranclp, rule step_submit) simp

lemma demo_kis_get:
  "fst (kis_get (demo_get out)) = Inr ((''rt_cd'', JStr ''0'') # out, [])" if "map_of out ''msg_cd'' = None"
  using that
  by (simp add: kis_get_def get_loop.simps [of _ 0 False 0 0] demo_get_def str_get_def jget_def classify_kis_retry_def
      RATE_LIMIT_CODES_def EXPIRED_TOKEN_CODES_def Let_def)

lemma demo_rows: "rmap parse_holding_row [JObj [(''pdno'', JStr ''005930''), (''hldg_qty'', JStr ''7''), (''pchs_amt'', JStr ''490000'')]]
    = Inr [Some \<lparr>h_symbol = ''005930'', h_qty = 7, h_cost_krw = 490000\<rparr>]"
proof -
  let ?r = "[(''pdno'', JStr ''005930''), (''hldg_qty'', JStr ''7''), (''pchs_amt'', JStr ''490000'')]"
  have "strict_int ?r ''hldg_qty'' ep = Inr 7" "strict_int ?r ''pchs_amt'' ep = Inr 490000" for ep
    by (rule strict_int_text, simp add: jget_def show_eval)+
  then show ?thesis by (simp add: parse_holding_row_def first_missing_def jget_def str_get_def)
qed

lemma demo_holdings:
  "get_holdings (\<lambda>_. demo_get demo_balance) = Inr [\<lparr>h_symbol = ''005930'', h_qty = 7, h_cost_krw = 490000\<rparr>]"
proof -
  have "get_paged (\<lambda>_. demo_get demo_balance)
      = Inr [JObj [(''pdno'', JStr ''005930''), (''hldg_qty'', JStr ''7''), (''pchs_amt'', JStr ''490000'')]]"
    unfolding get_paged_def
    using get_pages_success_rows [of 0 "\<lambda>_. demo_get demo_balance" 0
        "\<lambda>_. [JObj [(''pdno'', JStr ''005930''), (''hldg_qty'', JStr ''7''), (''pchs_amt'', JStr ''490000'')]]" MAX_PAGES "[]"]
    by (simp add: demo_kis_get demo_balance_def page_rows_def jget_def MAX_PAGES_def)
  then show ?thesis by (simp add: get_holdings_def demo_rows List.map_filter_def del: rmap.simps)
qed

lemma demo_admissible: "risk_gate demo_cfg demo_submit demo_intent demo_quote (demo_start\<lparr>m_seq := 1\<rparr>) = Inr 70000"
  by (simp add: risk_gate_def reference_price_def demo_intent_def check_intent_def check_limit_price_def check_exposure_def
      risk_context_of_def demo_submit_def demo_quote_def demo_start_def new_oms_def demo_cfg_def live_cfg_def limits_of_def
      demo_settings_def is_tick_aligned_def tick_of_def TICK_TABLE_def open_qty_def open_orders_def demo_ledger_def new_ledger_def ledger_qty_def)

lemma demo_sends: "m_submit_times (snd (submit demo_cfg demo_submit demo_intent demo_start)) = [demo_ts]"
proof -
  have m: "\<not> m_closed demo_start" "m_seq demo_start = 0" "j_torn (m_journal demo_start) = []" "m_submit_times demo_start = []"
    by (simp_all add: demo_start_def new_oms_def demo_journal_def)
  have env: "se_quote demo_submit = Inr demo_quote" "se_now_sent demo_submit = demo_ts" by (simp_all add: demo_submit_def)
  show ?thesis
    using live_gw.send_order_effect [OF demo_cfg_gateway refl, of demo_submit] m env demo_admissible
    by (simp add: submit_def Let_def case_prod_beta record_event_def journal_append_def)
qed

lemma demo_settings_mode: "es_mode demo_settings = LIVE"
  by (simp add: demo_settings_def)

lemma demo_valid: "valid_datetime (se_ts_intent demo_submit)"
  by (simp add: demo_submit_def demo_ts_def valid_datetime_def valid_date_def days_in_month_def mk_time_def kst_off_def)

lemma demo_opens:
  "\<exists>m. opens_day demo_settings demo_creds demo_service m \<and> on_day (dt_date demo_ts) (m_journal m)"
proof -
  have "\<exists>m j. build_order_manager demo_settings demo_creds demo_service \<lparr>j_mode = LIVE, j_torn = [], j_lines = []\<rparr>
      = (Inr (LiveManager m), j, True) \<and> on_day (dt_date demo_ts) (m_journal m)"
    using demo_holdings
    by (simp add: build_order_manager_def demo_service_def demo_settings_def read_day_def restore_nothing build_live_def
        live_init_def es_venue_def finish_def Let_def case_prod_beta new_oms_def record_event_def journal_append_def on_day_def)
  moreover have "wf_costs (costs_of demo_settings)" by (simp add: wf_costs_def costs_of_def demo_settings_def)
  ultimately show ?thesis
    using demo_holdings by (auto simp: opens_day_def demo_settings_mode) (auto simp: demo_service_def)
qed

end
