(* ===== verification/SessionAnchors.thy ===== *)
theory SessionAnchors
  imports Errors Json IsoTime
begin

text \<open>
  Session boundaries of a trading day, \<open>src/core/session_anchors.py\<close>: the validated record, the
  shifts of special days, and its persisted form. Exception texts stop before an interpolated
  \<open>repr\<close>. The anchor file is the parsed document, \<open>None\<close> when reading or decoding it fails.
\<close>

definition STANDARD_REGULAR_OPEN :: time where "STANDARD_REGULAR_OPEN = mk_time 9 0 0"
definition STANDARD_CLOSING_AUCTION :: time where "STANDARD_CLOSING_AUCTION = mk_time 15 20 0"
definition STANDARD_REGULAR_CLOSE :: time where "STANDARD_REGULAR_CLOSE = mk_time 15 30 0"
definition STANDARD_POST_CLOSING_PRICE_OPEN :: time where "STANDARD_POST_CLOSING_PRICE_OPEN = mk_time 15 40 0"
definition STANDARD_NXT_AFTER_MARKET_OPEN :: time where "STANDARD_NXT_AFTER_MARKET_OPEN = mk_time 15 40 0"
definition STANDARD_KRX_AFTER_MARKET_OPEN :: time where "STANDARD_KRX_AFTER_MARKET_OPEN = mk_time 16 0 0"
definition STANDARD_NXT_PREMARKET_OPEN :: time where "STANDARD_NXT_PREMARKET_OPEN = mk_time 8 0 0"
definition STANDARD_NXT_PREMARKET_END :: time where "STANDARD_NXT_PREMARKET_END = mk_time 8 50 0"
definition STANDARD_AFTER_MARKET_END :: time where "STANDARD_AFTER_MARKET_END = mk_time 20 0 0"
definition MAX_SESSION_SHIFT :: timedelta where "MAX_SESSION_SHIFT = seconds 10800"

lemmas standard_times = STANDARD_REGULAR_OPEN_def STANDARD_CLOSING_AUCTION_def STANDARD_REGULAR_CLOSE_def
  STANDARD_POST_CLOSING_PRICE_OPEN_def STANDARD_NXT_AFTER_MARKET_OPEN_def STANDARD_KRX_AFTER_MARKET_OPEN_def
  STANDARD_NXT_PREMARKET_OPEN_def STANDARD_NXT_PREMARKET_END_def STANDARD_AFTER_MARKET_END_def mk_time_def

datatype anchor_source = VENDOR | DEFAULT

fun anchor_source_value :: "anchor_source \<Rightarrow> string" where
  "anchor_source_value VENDOR = ''vendor''"
| "anchor_source_value DEFAULT = ''default''"

definition anchor_source_of_value :: "string \<Rightarrow> anchor_source option" where
  "anchor_source_of_value s = find (\<lambda>a. anchor_source_value a = s) [VENDOR, DEFAULT]"

definition shift_between :: "time \<Rightarrow> time \<Rightarrow> timedelta" where
  "shift_between standard actual = int actual - int standard"

definition shift_time :: "time \<Rightarrow> timedelta \<Rightarrow> time result" where
  "shift_time standard shift = (let moment = int standard + shift in
     if moment < 0 \<or> us_per_day \<le> moment then Inl (SessionAnchorError ''shifted time leaves calendar day'')
     else Inr (nat moment))"

record session_anchors =
  sa_date :: date
  sa_regular_open :: time
  sa_closing_auction_start :: time
  sa_regular_close :: time
  sa_after_market_end :: time
  sa_source :: anchor_source

definition open_shift :: "session_anchors \<Rightarrow> timedelta" where
  "open_shift a = shift_between STANDARD_REGULAR_OPEN (sa_regular_open a)"

definition close_shift :: "session_anchors \<Rightarrow> timedelta" where
  "close_shift a = shift_between STANDARD_REGULAR_CLOSE (sa_regular_close a)"

text \<open>The constructor with its \<open>__post_init__\<close>.\<close>

definition post_init :: "session_anchors \<Rightarrow> session_anchors result" where
  "post_init a =
     (if \<not> (sa_regular_open a < sa_closing_auction_start a \<and> sa_closing_auction_start a < sa_regular_close a
           \<and> sa_regular_close a < sa_after_market_end a)
      then Inl (SessionAnchorError (''anchors out of order for '' @ date_isoformat (sa_date a)))
      else if \<bar>open_shift a\<bar> > MAX_SESSION_SHIFT \<or> \<bar>close_shift a\<bar> > MAX_SESSION_SHIFT
      then Inl (SessionAnchorError (''session shift beyond cap for '' @ date_isoformat (sa_date a)))
      else Inr a)"

definition shift_pre_open :: "session_anchors \<Rightarrow> time \<Rightarrow> time result" where
  "shift_pre_open a standard = shift_time standard (open_shift a)"

definition shift_post_close :: "session_anchors \<Rightarrow> time \<Rightarrow> time result" where
  "shift_post_close a standard = shift_time standard (close_shift a)"

definition standard_session_anchors :: "date \<Rightarrow> session_anchors result" where
  "standard_session_anchors day = post_init
     \<lparr>sa_date = day, sa_regular_open = STANDARD_REGULAR_OPEN, sa_closing_auction_start = STANDARD_CLOSING_AUCTION,
      sa_regular_close = STANDARD_REGULAR_CLOSE, sa_after_market_end = STANDARD_AFTER_MARKET_END, sa_source = DEFAULT\<rparr>"

section \<open>The anchor file\<close>

definition strftime_clock :: "time \<Rightarrow> string" where
  "strftime_clock t = show2 (tod_hour t) @ '':'' @ show2 (tod_minute t) @ '':'' @ show2 (tod_second t)"

definition save_session_anchors :: "session_anchors \<Rightarrow> json" where
  "save_session_anchors a = JObj
     [(''date'', JStr (date_isoformat (sa_date a))),
      (''regular_open'', JStr (strftime_clock (sa_regular_open a))),
      (''closing_auction_start'', JStr (strftime_clock (sa_closing_auction_start a))),
      (''regular_close'', JStr (strftime_clock (sa_regular_close a))),
      (''after_market_end'', JStr (strftime_clock (sa_after_market_end a))),
      (''source'', JStr (anchor_source_value (sa_source a)))]"

text \<open>
  \<open>dt.time.fromisoformat\<close>. A time that carries an offset cannot be compared with a naive one, and
  the naive standard times are compared with all four, so an offset ends in the caught \<open>TypeError\<close>;
  it is refused here already.
\<close>

definition time_fromisoformat :: "string \<Rightarrow> time option" where
  "time_fromisoformat s = (let s1 = (case s of c # r \<Rightarrow> if c = CHR ''T'' then r else s | [] \<Rightarrow> []) in
     case parse_clock s1 of
       Some (h, m, sec, us, []) \<Rightarrow> if h < 24 \<and> m < 60 \<and> sec < 60 then Some (clock_us h m sec us) else None
     | _ \<Rightarrow> None)"

definition time_field :: "jobj \<Rightarrow> string \<Rightarrow> time option" where
  "time_field raw k = Option.bind (map_of raw k) (\<lambda>v. time_fromisoformat (py_str v))"

definition load_session_anchors :: "json option \<Rightarrow> date \<Rightarrow> session_anchors option" where
  "load_session_anchors doc day = (case doc of
       Some (JObj raw) \<Rightarrow>
         if py_str (jget raw ''date'') \<noteq> date_isoformat day then None
         else Option.bind (time_field raw ''regular_open'') (\<lambda>ro.
              Option.bind (time_field raw ''closing_auction_start'') (\<lambda>ca.
              Option.bind (time_field raw ''regular_close'') (\<lambda>rc.
              Option.bind (time_field raw ''after_market_end'') (\<lambda>ae.
              Option.bind (Option.bind (map_of raw ''source'') (\<lambda>v. anchor_source_of_value (py_str v))) (\<lambda>src.
                (case post_init \<lparr>sa_date = day, sa_regular_open = ro, sa_closing_auction_start = ca,
                        sa_regular_close = rc, sa_after_market_end = ae, sa_source = src\<rparr> of
                   Inl _ \<Rightarrow> None | Inr a \<Rightarrow> Some a))))))
     | _ \<Rightarrow> None)"

definition resolve_session_anchors :: "json option \<Rightarrow> date \<Rightarrow> session_anchors result" where
  "resolve_session_anchors doc day = (case load_session_anchors doc day of
       Some a \<Rightarrow> Inr a | None \<Rightarrow> standard_session_anchors day)"

section \<open>Validated anchors\<close>

definition wf_anchors :: "session_anchors \<Rightarrow> bool" where
  "wf_anchors a \<longleftrightarrow> sa_regular_open a < sa_closing_auction_start a \<and> sa_closing_auction_start a < sa_regular_close a
     \<and> sa_regular_close a < sa_after_market_end a
     \<and> \<bar>open_shift a\<bar> \<le> MAX_SESSION_SHIFT \<and> \<bar>close_shift a\<bar> \<le> MAX_SESSION_SHIFT"

lemma post_init_iff: "post_init a = Inr b \<longleftrightarrow> b = a \<and> wf_anchors a"
  by (auto simp: post_init_def wf_anchors_def)

lemma post_init_option: "(case post_init a of Inl _ \<Rightarrow> None | Inr b \<Rightarrow> Some b) = (if wf_anchors a then Some a else None)"
  by (auto simp: post_init_def wf_anchors_def)

lemma standard_wf: "\<exists>a. standard_session_anchors day = Inr a \<and> wf_anchors a \<and> open_shift a = 0 \<and> close_shift a = 0
    \<and> sa_regular_open a = STANDARD_REGULAR_OPEN \<and> sa_closing_auction_start a = STANDARD_CLOSING_AUCTION
    \<and> sa_regular_close a = STANDARD_REGULAR_CLOSE \<and> sa_after_market_end a = STANDARD_AFTER_MARKET_END \<and> sa_date a = day"
  by (simp add: standard_session_anchors_def post_init_iff)
    (simp add: wf_anchors_def open_shift_def close_shift_def shift_between_def standard_times MAX_SESSION_SHIFT_def seconds_def)

lemma load_wf: "load_session_anchors doc day = Some a \<Longrightarrow> wf_anchors a \<and> sa_date a = day"
  by (auto simp: load_session_anchors_def post_init_option bind_eq_Some_conv split: option.splits json.splits if_splits)

text \<open>Boundaries of the contracted windows stay within the day on every admitted special day.\<close>

lemma shift_pre_open_ok:
  assumes "wf_anchors a" "mk_time 3 0 0 \<le> t" "t < mk_time 21 0 0"
  shows "\<exists>u. shift_pre_open a t = Inr u \<and> int u = int t + open_shift a"
  using assms
  by (auto simp: shift_pre_open_def shift_time_def Let_def wf_anchors_def MAX_SESSION_SHIFT_def seconds_def mk_time_def)

lemma shift_post_close_ok:
  assumes "wf_anchors a" "mk_time 3 0 0 \<le> t" "t < mk_time 21 0 0"
  shows "\<exists>u. shift_post_close a t = Inr u \<and> int u = int t + close_shift a"
  using assms
  by (auto simp: shift_post_close_def shift_time_def Let_def wf_anchors_def MAX_SESSION_SHIFT_def seconds_def mk_time_def)

section \<open>Persistence\<close>

definition whole_second :: "time \<Rightarrow> bool" where
  "whole_second t \<longleftrightarrow> t < 86400000000 \<and> t mod 1000000 = 0"

lemma anchor_source_of_value_value [simp]: "anchor_source_of_value (anchor_source_value s) = Some s"
  by (cases s) (simp_all add: anchor_source_of_value_def)

lemma show2_not_T: "n < 100 \<Longrightarrow> \<exists>c r. show2 n = c # r \<and> c \<noteq> CHR ''T''"
proof -
  assume "n < 100"
  then have "length (show2 n) = 2" "list_all is_digit (show2 n)"
    using zfill_length [of 2 n] by (simp_all add: show2_def zfill_digits show_nat_digits)
  then show ?thesis by (cases "show2 n") (auto simp: is_digit_def)
qed

lemma time_fromisoformat_clock:
  assumes "whole_second t"
  shows "time_fromisoformat (strftime_clock t) = Some t"
proof -
  have less: "tod_hour t < 24" "tod_minute t < 60" "tod_second t < 60" using assms tod_parts_less [of t] by (simp_all add: whole_second_def)
  have us: "tod_us t = 0" using assms by (simp add: whole_second_def tod_us_def)
  have "parse_clock (strftime_clock t) = Some (tod_hour t, tod_minute t, tod_second t, 0, [])"
    using parse_clock_show [of "tod_hour t" "tod_minute t" "tod_second t" 0 "[]"] less
    by (simp add: strftime_clock_def clock_end_def)
  moreover obtain c r where "strftime_clock t = c # r" "c \<noteq> CHR ''T''"
    using show2_not_T [of "tod_hour t"] less by (fastforce simp: strftime_clock_def)
  ultimately show ?thesis
    using less clock_us_parts [of t] us by (simp add: time_fromisoformat_def Let_def)
qed

lemma save_load:
  assumes "wf_anchors a" "whole_second (sa_regular_open a)" "whole_second (sa_closing_auction_start a)"
    "whole_second (sa_regular_close a)" "whole_second (sa_after_market_end a)"
  shows "load_session_anchors (Some (save_session_anchors a)) (sa_date a) = Some a"
  using assms
  by (cases a) (simp add: load_session_anchors_def save_session_anchors_def jget_def time_field_def time_fromisoformat_clock post_init_option)

section \<open>Properties\<close>

text \<open>
  Saving and loading anchors gives them back when they lie on whole seconds, and whatever the anchor
  file holds, resolving a day yields valid anchors of that day: ordered, and shifted by at most three hours.
\<close>

theorem anchors_round_trip:
  assumes "wf_anchors a" "whole_second (sa_regular_open a)" "whole_second (sa_closing_auction_start a)"
    "whole_second (sa_regular_close a)" "whole_second (sa_after_market_end a)"
  shows "load_session_anchors (Some (save_session_anchors a)) (sa_date a) = Some a
    \<and> (\<forall>doc day. \<exists>b. resolve_session_anchors doc day = Inr b \<and> wf_anchors b \<and> sa_date b = day)"
proof -
  have "\<exists>b. resolve_session_anchors doc day = Inr b \<and> wf_anchors b \<and> sa_date b = day" for doc day
  proof (cases "load_session_anchors doc day")
    case None
    then show ?thesis unfolding resolve_session_anchors_def using standard_wf [of day] by (simp only: option.case) blast
  next
    case (Some b)
    then show ?thesis unfolding resolve_session_anchors_def using load_wf [OF Some] by simp
  qed
  with save_load [OF assms] show ?thesis by blast
qed

theorem anchors_round_trip_witness:
  "\<forall>day. \<exists>a. standard_session_anchors day = Inr a \<and> load_session_anchors (Some (save_session_anchors a)) day = Some a"
proof
  fix day
  obtain a where a: "standard_session_anchors day = Inr a" "wf_anchors a" "sa_date a = day"
    "sa_regular_open a = STANDARD_REGULAR_OPEN" "sa_closing_auction_start a = STANDARD_CLOSING_AUCTION"
    "sa_regular_close a = STANDARD_REGULAR_CLOSE" "sa_after_market_end a = STANDARD_AFTER_MARKET_END"
    using standard_wf [of day] by blast
  have "whole_second STANDARD_REGULAR_OPEN" "whole_second STANDARD_CLOSING_AUCTION" "whole_second STANDARD_REGULAR_CLOSE"
    "whole_second STANDARD_AFTER_MARKET_END" by (simp_all add: whole_second_def standard_times)
  then have "load_session_anchors (Some (save_session_anchors a)) (sa_date a) = Some a"
    using anchors_round_trip [OF a(2), unfolded a(4-7)] by blast
  with a(1,3) show "\<exists>a. standard_session_anchors day = Inr a \<and> load_session_anchors (Some (save_session_anchors a)) day = Some a" by blast
qed

end
