(* ===== verification/RealtimeContracts.thy ===== *)
theory RealtimeContracts
  imports Prelude
begin

text \<open>
  The vocabulary of the collectors, \<open>src/realtime/contracts.py\<close>: venues, sessions, received frames and
  subscription answers.
\<close>

datatype market_venue = KRX | NXT | VENUE_UNKNOWN

fun market_venue_value :: "market_venue \<Rightarrow> string" where
  "market_venue_value KRX = ''krx''"
| "market_venue_value NXT = ''nxt''"
| "market_venue_value VENUE_UNKNOWN = ''unknown''"

definition venue_of_value :: "string \<Rightarrow> market_venue option" where
  "venue_of_value s = find (\<lambda>v. market_venue_value v = s) [KRX, NXT, VENUE_UNKNOWN]"

lemma venue_of_value_iff: "venue_of_value s = Some v \<longleftrightarrow> s = market_venue_value v"
  by (cases v) (auto simp: venue_of_value_def)

datatype market_session = REGULAR_SESSION | KRX_AFTER | NXT_AFTER | NXT_PRE

fun market_session_value :: "market_session \<Rightarrow> string" where
  "market_session_value REGULAR_SESSION = ''regular''"
| "market_session_value KRX_AFTER = ''krx_after''"
| "market_session_value NXT_AFTER = ''nxt_after''"
| "market_session_value NXT_PRE = ''nxt_pre''"

definition session_of_value :: "string \<Rightarrow> market_session option" where
  "session_of_value s = find (\<lambda>v. market_session_value v = s) [REGULAR_SESSION, KRX_AFTER, NXT_AFTER, NXT_PRE]"

lemma session_of_value_iff: "session_of_value s = Some v \<longleftrightarrow> s = market_session_value v"
  by (cases v) (auto simp: session_of_value_def)

lemma market_venue_value_inject [simp]: "market_venue_value v = market_venue_value w \<longleftrightarrow> v = w"
  by (metis venue_of_value_iff option.inject)

lemma market_session_value_inject [simp]: "market_session_value v = market_session_value w \<longleftrightarrow> v = w"
  by (metis session_of_value_iff option.inject)

record l0_frame =
  f_vendor :: string
  f_stream :: string
  f_symbol :: string
  f_raw :: string
  f_recv_mono_ns :: int
  f_recv_wall_ns :: int
  f_conn_seq :: int
  f_conn_id :: string
  f_venue :: market_venue
  f_session :: market_session
  f_exchange_event_time :: string

record vendor_ack =
  ack_symbol :: string
  ack_stream :: string
  ack_accepted :: bool
  ack_code :: string

end
