(* ===== verification/MarketPhase.thy ===== *)
theory MarketPhase
  imports SessionAnchors RealtimeContracts "HOL-Library.List_Lexorder" "HOL-Library.Char_ord"
begin

text \<open>
  Market phases, \<open>src/storage/market_phase.py\<close>: the contracted windows, their shift on special days,
  the scalar classifier and the column expression that computes the same over a frame.

  The expression is the tree the code builds. Evaluating it is the work of polars, whose documented
  row semantics is the locale \<open>polars\<close>: null-propagating comparisons, Kleene conjunction,
  \<open>when/then/otherwise\<close> that falls through on null, lexicographic string order.
\<close>

section \<open>Windows and the scalar classifier\<close>

datatype market_phase =
    PRE_MARKET_CLOSING_PRICE | OPENING_AUCTION | REGULAR | CLOSING_AUCTION | POST_MARKET_CLOSING_PRICE
  | AFTERMARKET | PREMARKET | UNCLASSIFIED

fun market_phase_value :: "market_phase \<Rightarrow> string" where
  "market_phase_value PRE_MARKET_CLOSING_PRICE = ''pre_closing_price''"
| "market_phase_value OPENING_AUCTION = ''opening_auction''"
| "market_phase_value REGULAR = ''regular''"
| "market_phase_value CLOSING_AUCTION = ''closing_auction''"
| "market_phase_value POST_MARKET_CLOSING_PRICE = ''post_closing_price''"
| "market_phase_value AFTERMARKET = ''aftermarket''"
| "market_phase_value PREMARKET = ''premarket''"
| "market_phase_value UNCLASSIFIED = ''unclassified''"

datatype event_kind = TRADE | QUOTE

record phase_window =
  w_venue :: market_venue
  w_kind :: "event_kind option"
  w_start :: time
  w_end :: time
  w_phase :: market_phase

definition window :: "market_venue \<Rightarrow> event_kind option \<Rightarrow> time \<Rightarrow> time \<Rightarrow> market_phase \<Rightarrow> phase_window" where
  "window v k s e p = \<lparr>w_venue = v, w_kind = k, w_start = s, w_end = e, w_phase = p\<rparr>"

definition STREAM_EVENT_KIND :: "(string, event_kind) dict" where
  "STREAM_EVENT_KIND = [(''H0STCNT0'', TRADE), (''H0NXCNT0'', TRADE), (''H0STASP0'', QUOTE), (''H0NXASP0'', QUOTE)]"

definition MARKET_PHASE_WINDOWS :: "phase_window list" where
  "MARKET_PHASE_WINDOWS =
     [window KRX (Some TRADE) (mk_time 8 30 0) (mk_time 8 40 0) PRE_MARKET_CLOSING_PRICE,
      window KRX None (mk_time 8 30 0) STANDARD_REGULAR_OPEN OPENING_AUCTION,
      window KRX None STANDARD_REGULAR_OPEN STANDARD_CLOSING_AUCTION REGULAR,
      window KRX None STANDARD_CLOSING_AUCTION STANDARD_POST_CLOSING_PRICE_OPEN CLOSING_AUCTION,
      window KRX None STANDARD_POST_CLOSING_PRICE_OPEN STANDARD_KRX_AFTER_MARKET_OPEN POST_MARKET_CLOSING_PRICE,
      window KRX None STANDARD_KRX_AFTER_MARKET_OPEN STANDARD_AFTER_MARKET_END AFTERMARKET,
      window NXT None STANDARD_NXT_PREMARKET_OPEN STANDARD_NXT_PREMARKET_END PREMARKET,
      window NXT None STANDARD_NXT_AFTER_MARKET_OPEN STANDARD_AFTER_MARKET_END AFTERMARKET]"

definition parse_event_time :: "string \<Rightarrow> time option" where
  "parse_event_time s =
     (if length s \<noteq> 6 \<or> \<not> list_all is_digit s then None
      else let hour = parse_nat (take 2 s); minute = parse_nat (take 2 (drop 2 s)); sec = parse_nat (take 2 (drop 4 s))
           in if hour > 23 \<or> minute > 59 \<or> sec > 59 then None else Some (mk_time hour minute sec))"

definition phase_windows_for :: "session_anchors \<Rightarrow> phase_window list result" where
  "phase_windows_for a =
     rbind (shift_pre_open a (mk_time 8 30 0)) (\<lambda>pre830.
     rbind (shift_pre_open a (mk_time 8 40 0)) (\<lambda>pre840.
     rbind (shift_post_close a STANDARD_POST_CLOSING_PRICE_OPEN) (\<lambda>post.
     rbind (shift_post_close a STANDARD_KRX_AFTER_MARKET_OPEN) (\<lambda>krx_after.
     rbind (shift_pre_open a STANDARD_NXT_PREMARKET_OPEN) (\<lambda>nxt_pre.
     rbind (shift_pre_open a STANDARD_NXT_PREMARKET_END) (\<lambda>nxt_pre_end.
     rbind (shift_post_close a STANDARD_NXT_AFTER_MARKET_OPEN) (\<lambda>nxt_after.
       Inr [window KRX (Some TRADE) pre830 pre840 PRE_MARKET_CLOSING_PRICE,
            window KRX None pre830 (sa_regular_open a) OPENING_AUCTION,
            window KRX None (sa_regular_open a) (sa_closing_auction_start a) REGULAR,
            window KRX None (sa_closing_auction_start a) post CLOSING_AUCTION,
            window KRX None post krx_after POST_MARKET_CLOSING_PRICE,
            window KRX None krx_after (sa_after_market_end a) AFTERMARKET,
            window NXT None nxt_pre nxt_pre_end PREMARKET,
            window NXT None nxt_after (sa_after_market_end a) AFTERMARKET])))))))"

text \<open>The loop of the classifier, on a parsed time.\<close>

definition window_matches :: "market_venue \<Rightarrow> time \<Rightarrow> event_kind \<Rightarrow> phase_window \<Rightarrow> bool" where
  "window_matches venue moment kind w \<longleftrightarrow> w_venue w = venue \<and> (w_kind w = None \<or> w_kind w = Some kind)
     \<and> w_start w \<le> moment \<and> moment < w_end w"

fun first_phase :: "(phase_window \<Rightarrow> bool) \<Rightarrow> phase_window list \<Rightarrow> market_phase" where
  "first_phase P [] = UNCLASSIFIED"
| "first_phase P (w # ws) = (if P w then w_phase w else first_phase P ws)"

definition classify_market_phase :: "market_venue \<Rightarrow> string \<Rightarrow> event_kind \<Rightarrow> phase_window list \<Rightarrow> market_phase" where
  "classify_market_phase venue event_time kind windows = (case parse_event_time event_time of
       None \<Rightarrow> UNCLASSIFIED
     | Some moment \<Rightarrow> first_phase (window_matches venue moment kind) windows)"

section \<open>Column expressions\<close>

datatype pexpr =
    PLit string
  | PCol string
  | PExtract pexpr string
  | PFillNull pexpr string
  | PIsIn pexpr "string list"
  | PEq pexpr string
  | PNe pexpr string
  | PGe pexpr string
  | PLt pexpr string
  | PContainsHHMMSS pexpr
  | PAnd pexpr pexpr
  | PWhen pexpr pexpr pexpr

text \<open>
  \<open>PExtract e key\<close> is \<open>str.extract\<close> with the pattern of the JSON text field \<open>key\<close>, \<open>PContainsHHMMSS\<close>
  is \<open>str.contains\<close> with \<open>_VALID_HHMMSS_RE\<close>.
\<close>

definition TRADE_STREAMS :: "string list" where
  "TRADE_STREAMS = map fst (filter (\<lambda>(s, k). k = TRADE) STREAM_EVENT_KIND)"

definition QUOTE_STREAMS :: "string list" where
  "QUOTE_STREAMS = map fst (filter (\<lambda>(s, k). k = QUOTE) STREAM_EVENT_KIND)"

definition event_time_value :: pexpr where
  "event_time_value = PFillNull
     (PWhen (PNe (PFillNull (PCol ''exchange_event_time'') []) [])
        (PCol ''exchange_event_time'')
        (PWhen (PIsIn (PCol ''stream'') TRADE_STREAMS) (PExtract (PCol ''raw'') ''chetime'')
           (PWhen (PIsIn (PCol ''stream'') QUOTE_STREAMS) (PExtract (PCol ''raw'') ''hotime'') (PLit [])))) []"

definition valid_expr :: "phase_window list \<Rightarrow> pexpr" where
  "valid_expr windows = PAnd (PAnd (PContainsHHMMSS (PFillNull event_time_value []))
       (PIsIn (PCol ''stream'') (map fst STREAM_EVENT_KIND)))
     (PIsIn (PCol ''venue'') (sort (remdups (map (\<lambda>w. market_venue_value (w_venue w)) windows))))"

definition window_cond :: "phase_window \<Rightarrow> pexpr" where
  "window_cond w =
     (let cond = PAnd (PAnd (PEq (PCol ''venue'') (market_venue_value (w_venue w)))
             (PGe (PFillNull event_time_value []) (strftime_HMS (w_start w))))
           (PLt (PFillNull event_time_value []) (strftime_HMS (w_end w)))
      in case w_kind w of
           None \<Rightarrow> cond
         | Some kind \<Rightarrow> PAnd cond (PIsIn (PCol ''stream'') (map fst (filter (\<lambda>(s, k). k = kind) STREAM_EVENT_KIND))))"

definition market_phase_expr :: "phase_window list \<Rightarrow> pexpr" where
  "market_phase_expr windows =
     fold (\<lambda>w result. PWhen (PAnd (valid_expr windows) (window_cond w)) (PLit (market_phase_value (w_phase w))) result)
       (rev windows) (PLit (market_phase_value UNCLASSIFIED))"

text \<open>The successive \<open>with_columns\<close> calls of \<open>annotate_market_phase\<close> for a frame with the given columns.\<close>

definition annotate_market_phase :: "string list \<Rightarrow> phase_window list \<Rightarrow> (string \<times> pexpr) list list result" where
  "annotate_market_phase names windows =
     (let venue = (if ''venue'' \<in> set names then [] else [[(''venue'', PLit (market_venue_value KRX))]]);
          eet = (if ''exchange_event_time'' \<in> set names then [] else [[(''exchange_event_time'', PLit [])]]);
          final = [[(''exchange_event_time'', event_time_value), (''market_phase'', market_phase_expr windows)]]
      in if ''stream'' \<in> set names then Inr (venue @ eet @ final)
         else if ''tr_id'' \<notin> set names then Inl (ValueError ''frame has neither stream nor tr_id'')
         else Inr (venue @ [[(''stream'', PCol ''tr_id'')]] @ eet @ final))"

section \<open>Clock text and clock order\<close>

lemma digit_char_val: "is_digit c \<Longrightarrow> digit_char (digit_val c) = c"
  by (simp add: is_digit_def digit_char_def digit_val_def)

lemma digit_char_less: "a < 10 \<Longrightarrow> b < 10 \<Longrightarrow> digit_char a < digit_char b \<longleftrightarrow> a < b"
  by (simp add: digit_char_def less_char_def)

lemma digit_char_inject: "a < 10 \<Longrightarrow> b < 10 \<Longrightarrow> digit_char a = digit_char b \<longleftrightarrow> a = b"
  by (metis digit_val_char)

lemma show2_digits: "n < 100 \<Longrightarrow> show2 n = [digit_char (n div 10), digit_char (n mod 10)]"
  by (cases "n < 10") (simp_all add: show2_def zfill_def show_nat.simps [of n] show_nat.simps [of "n div 10"] digit_chars)

lemma parse_two: "is_digit a \<Longrightarrow> is_digit b \<Longrightarrow> show2 (parse_nat [a, b]) = [a, b] \<and> parse_nat [a, b] < 100"
proof -
  assume d: "is_digit a" "is_digit b"
  then have "digit_val a < 10" "digit_val b < 10" by (auto simp: is_digit_def digit_val_def)
  with d show ?thesis by (simp add: parse_nat_def show2_digits digit_char_val)
qed

lemma list_less_append:
  fixes xs ys :: "'a :: linorder list"
  assumes "length xs = length xs'"
  shows "xs @ ys < xs' @ ys' \<longleftrightarrow> xs < xs' \<or> xs = xs' \<and> ys < ys'"
  using assms by (induction xs xs' rule: list_induct2) auto

lemma show2_less: "a < 100 \<Longrightarrow> b < 100 \<Longrightarrow> show2 a < show2 b \<longleftrightarrow> a < b"
proof -
  assume h: "a < 100" "b < 100"
  then have "a div 10 < 10" "b div 10 < 10" by auto
  moreover have "a < b \<longleftrightarrow> a div 10 < b div 10 \<or> a div 10 = b div 10 \<and> a mod 10 < b mod 10"
    using div_mult_mod_eq [of a 10] div_mult_mod_eq [of b 10] mod_less_divisor [of 10 a] mod_less_divisor [of 10 b]
    by (cases "a div 10" "b div 10" rule: linorder_cases) linarith+
  ultimately show ?thesis using h by (auto simp: show2_digits digit_char_less digit_char_inject)
qed

lemma show2_eq: "a < 100 \<Longrightarrow> b < 100 \<Longrightarrow> show2 a = show2 b \<longleftrightarrow> a = b"
  by (metis show2_less less_irrefl linorder_neqE_nat)

lemma show2_length: "n < 100 \<Longrightarrow> length (show2 n) = 2"
  by (simp add: show2_digits)

lemma mk_time_less:
  assumes "h < 24" "m < 60" "s < 60" "h' < 24" "m' < 60" "s' < 60"
  shows "mk_time h m s < mk_time h' m' s' \<longleftrightarrow> h < h' \<or> h = h' \<and> (m < m' \<or> m = m' \<and> s < s')"
proof -
  have "h * 3600 + m * 60 + s < h' * 3600 + m' * 60 + s' \<longleftrightarrow> h < h' \<or> h = h' \<and> (m < m' \<or> m = m' \<and> s < s')"
    using assms by (cases h h' rule: linorder_cases; cases m m' rule: linorder_cases) simp_all
  then show ?thesis unfolding mk_time_def by (simp only: mult_less_cancel2) simp
qed

lemma clock_text_less:
  assumes "h < 24" "m < 60" "s < 60" "h' < 24" "m' < 60" "s' < 60"
  shows "show2 h @ show2 m @ show2 s < show2 h' @ show2 m' @ show2 s' \<longleftrightarrow> mk_time h m s < mk_time h' m' s'"
  using assms by (simp add: mk_time_less list_less_append show2_length show2_less show2_eq)

lemma HMS_parts:
  assumes "whole_second t"
  shows "\<exists>h m s. h < 24 \<and> m < 60 \<and> s < 60 \<and> t = mk_time h m s \<and> strftime_HMS t = show2 h @ show2 m @ show2 s"
proof -
  have "t = mk_time (tod_hour t) (tod_minute t) (tod_second t)"
    using clock_us_parts [of t] assms by (simp add: whole_second_def clock_us_def tod_us_def mk_time_def)
  then show ?thesis using tod_parts_less [of t] assms by (auto simp: strftime_HMS_def whole_second_def)
qed

lemma HMS_less: "whole_second t \<Longrightarrow> whole_second u \<Longrightarrow> strftime_HMS t < strftime_HMS u \<longleftrightarrow> t < u"
  using HMS_parts [of t] HMS_parts [of u] clock_text_less by fastforce

lemma HMS_le: "whole_second t \<Longrightarrow> whole_second u \<Longrightarrow> strftime_HMS t \<le> strftime_HMS u \<longleftrightarrow> t \<le> u"
  using HMS_less [of u t] by (simp add: linorder_not_less [symmetric])

lemma mk_time_whole: "h < 24 \<Longrightarrow> m < 60 \<Longrightarrow> s < 60 \<Longrightarrow> whole_second (mk_time h m s)"
  by (simp add: whole_second_def mk_time_def)

lemma HMS_mk_time: "h < 24 \<Longrightarrow> m < 60 \<Longrightarrow> s < 60 \<Longrightarrow> strftime_HMS (mk_time h m s) = show2 h @ show2 m @ show2 s"
proof -
  assume b: "h < 24" "m < 60" "s < 60"
  have "mk_time h m s = mk_time h' m' s' \<Longrightarrow> h' < 24 \<Longrightarrow> m' < 60 \<Longrightarrow> s' < 60 \<Longrightarrow> h = h' \<and> m = m' \<and> s = s'" for h' m' s'
    using b mk_time_less [of h m s h' m' s'] mk_time_less [of h' m' s' h m s] by (auto simp: not_less_iff_gr_or_eq)
  with HMS_parts [OF mk_time_whole [OF b]] show ?thesis by fastforce
qed

text \<open>Reading an event time inverts its text: exactly the texts of the seconds of a day are read.\<close>

lemma list6: "length s = 6 \<Longrightarrow> \<exists>a b c d e f. s = [a, b, c, d, e, f]"
  by (auto simp: length_Suc_conv eval_nat_numeral)

lemma parse_event_time_iff: "parse_event_time s = Some t \<longleftrightarrow> whole_second t \<and> s = strftime_HMS t"
proof
  assume p: "parse_event_time s = Some t"
  then obtain a b c d e f where s: "s = [a, b, c, d, e, f]"
    using list6 [of s] by (auto simp: parse_event_time_def split: if_splits)
  with p have dig: "is_digit a" "is_digit b" "is_digit c" "is_digit d" "is_digit e" "is_digit f"
    and t: "parse_nat [a, b] < 24" "parse_nat [c, d] < 60" "parse_nat [e, f] < 60" "t = mk_time (parse_nat [a, b]) (parse_nat [c, d]) (parse_nat [e, f])"
    by (auto simp: parse_event_time_def Let_def split: if_splits)
  with s show "whole_second t \<and> s = strftime_HMS t"
    by (simp add: mk_time_whole HMS_mk_time parse_two)
next
  assume "whole_second t \<and> s = strftime_HMS t"
  then obtain h m x where t: "h < 24" "m < 60" "x < 60" "t = mk_time h m x" "s = show2 h @ show2 m @ show2 x"
    using HMS_parts by blast
  have p2: "parse_nat (show2 n) = n" "list_all is_digit (show2 n)" for n by (simp_all add: show2_def zfill_digits show_nat_digits)
  from t have "length s = 6" "list_all is_digit s" "take 2 s = show2 h" "take 2 (drop 2 s) = show2 m" "take 2 (drop 4 s) = show2 x"
    by (simp_all add: show2_length p2)
  then show "parse_event_time s = Some t" using t(1-4) by (simp add: parse_event_time_def p2 show2_length Let_def)
qed

section \<open>The column expression computes the classifier\<close>

definition kleene_and :: "bool option \<Rightarrow> bool option \<Rightarrow> bool option" where
  "kleene_and x y = (if x = Some False \<or> y = Some False then Some False else if x = None \<or> y = None then None else Some True)"

text \<open>The texts \<open>_VALID_HHMMSS_RE\<close> matches: \<open>[01][0-9]|2[0-3]\<close>, then twice \<open>[0-5][0-9]\<close>.\<close>

definition hhmmss_regex :: "string \<Rightarrow> bool" where
  "hhmmss_regex s = (case s of
       [a, b, c, d, e, f] \<Rightarrow>
         (a \<in> {CHR ''0'', CHR ''1''} \<and> is_digit b \<or> a = CHR ''2'' \<and> b \<in> {CHR ''0'', CHR ''1'', CHR ''2'', CHR ''3''})
         \<and> is_digit c \<and> digit_val c \<le> 5 \<and> is_digit d \<and> is_digit e \<and> digit_val e \<le> 5 \<and> is_digit f
     | _ \<Rightarrow> False)"

locale polars =
  fixes evs :: "pexpr \<Rightarrow> (string \<Rightarrow> string option) \<Rightarrow> string option"
    and evb :: "pexpr \<Rightarrow> (string \<Rightarrow> string option) \<Rightarrow> bool option"
  assumes lit: "evs (PLit s) row = Some s"
    and col: "evs (PCol n) row = row n"
    and fill_null: "evs (PFillNull e d) row = Some (case evs e row of None \<Rightarrow> d | Some s \<Rightarrow> s)"
    and when_then: "evs (PWhen c t e) row = (if evb c row = Some True then evs t row else evs e row)"
    and is_in: "evb (PIsIn e ss) row = map_option (\<lambda>s. s \<in> set ss) (evs e row)"
    and equal: "evb (PEq e v) row = map_option (\<lambda>s. s = v) (evs e row)"
    and greater: "evb (PGe e v) row = map_option (\<lambda>s. v \<le> s) (evs e row)"
    and less: "evb (PLt e v) row = map_option (\<lambda>s. s < v) (evs e row)"
    and contains: "evb (PContainsHHMMSS e) row = map_option hhmmss_regex (evs e row)"
    and conj_null: "evb (PAnd a b) row = kleene_and (evb a row) (evb b row)"

lemma hhmmss_regex_iff: "hhmmss_regex s \<longleftrightarrow> parse_event_time s \<noteq> None"
proof (cases "\<exists>a b c d e f. s = [a, b, c, d, e, f] \<and> list_all is_digit s")
  case True
  then obtain a b c d e f where s: "s = [a, b, c, d, e, f]"
    and dig: "is_digit a" "is_digit b" "is_digit c" "is_digit d" "is_digit e" "is_digit f" by auto
  have v: "digit_val x < 10" if "is_digit x" for x using that by (auto simp: is_digit_def digit_val_def)
  have c2: "x = digit_char n \<longleftrightarrow> digit_val x = n" if "is_digit x" "n < 10" for x n
    using that digit_char_val by force
  have "a \<in> {CHR ''0'', CHR ''1''} \<longleftrightarrow> digit_val a \<le> 1" "a = CHR ''2'' \<longleftrightarrow> digit_val a = 2"
    using c2 [OF dig(1), of 0] c2 [OF dig(1), of 1] c2 [OF dig(1), of 2] by (simp_all add: digit_chars) linarith
  moreover have "b \<in> {CHR ''0'', CHR ''1'', CHR ''2'', CHR ''3''} \<longleftrightarrow> digit_val b \<le> 3"
    using c2 [OF dig(2), of 0] c2 [OF dig(2), of 1] c2 [OF dig(2), of 2] c2 [OF dig(2), of 3]
    by (simp add: digit_chars) linarith
  moreover have "parse_nat [x, y] = digit_val x * 10 + digit_val y" for x y by (simp add: parse_nat_def)
  ultimately show ?thesis
    using dig v [OF dig(1)] v [OF dig(2)] v [OF dig(4)] v [OF dig(6)]
    by (auto simp: s hhmmss_regex_def parse_event_time_def Let_def)
next
  case False
  then have "parse_event_time s = None" using list6 [of s] by (auto simp: parse_event_time_def)
  moreover have "\<not> hhmmss_regex s"
  proof
    assume "hhmmss_regex s"
    then have "\<exists>a b c d e f. s = [a, b, c, d, e, f] \<and> list_all is_digit s"
      by (auto simp: hhmmss_regex_def is_digit_def split: list.splits)
    with False show False by blast
  qed
  ultimately show ?thesis by simp
qed

text \<open>What the scalar classifier answers for a row: rows of an unknown stream or venue are unclassified.\<close>

definition scalar_phase :: "phase_window list \<Rightarrow> string option \<Rightarrow> string option \<Rightarrow> string \<Rightarrow> market_phase" where
  "scalar_phase windows venue stream event =
     (case (Option.bind venue venue_of_value, Option.bind stream (map_of STREAM_EVENT_KIND)) of
        (Some v, Some k) \<Rightarrow> classify_market_phase v event k windows
      | _ \<Rightarrow> UNCLASSIFIED)"

lemma kleene_and_True: "kleene_and x y = Some True \<longleftrightarrow> x = Some True \<and> y = Some True"
  by (cases x; cases y) (auto simp: kleene_and_def)

lemma stream_kind: "map_of STREAM_EVENT_KIND s = Some k \<longleftrightarrow> s \<in> fst ` set (filter (\<lambda>(s, k'). k' = k) STREAM_EVENT_KIND)"
  by (cases k) (auto simp: STREAM_EVENT_KIND_def)

lemma stream_known: "map_of STREAM_EVENT_KIND s = None \<longleftrightarrow> s \<notin> fst ` set STREAM_EVENT_KIND"
  by (simp add: map_of_eq_None_iff)

definition event_text :: "(pexpr \<Rightarrow> (string \<Rightarrow> string option) \<Rightarrow> string option) \<Rightarrow> (string \<Rightarrow> string option) \<Rightarrow> string" where
  "event_text evs row = the (evs event_time_value row)"

lemma first_phase_cong: "(\<And>w. w \<in> set ws \<Longrightarrow> P w = Q w) \<Longrightarrow> first_phase P ws = first_phase Q ws"
  by (induction ws) auto

lemma first_phase_none: "first_phase (\<lambda>_. False) ws = UNCLASSIFIED"
  by (induction ws) auto

context polars
begin

lemma event_filled: "evs (PFillNull event_time_value []) row = Some (event_text evs row)"
  unfolding fill_null event_text_def by (simp add: event_time_value_def fill_null)

lemma valid_iff:
  "evb (valid_expr windows) row = Some True \<longleftrightarrow> parse_event_time (event_text evs row) \<noteq> None
     \<and> (\<exists>s. row ''stream'' = Some s \<and> map_of STREAM_EVENT_KIND s \<noteq> None)
     \<and> (\<exists>v w. row ''venue'' = Some v \<and> w \<in> set windows \<and> v = market_venue_value (w_venue w))"
  by (auto simp: valid_expr_def conj_null kleene_and_True contains event_filled hhmmss_regex_iff is_in col stream_known image_iff)

lemma window_cond_iff:
  assumes "parse_event_time (event_text evs row) = Some t" "row ''stream'' = Some st" "map_of STREAM_EVENT_KIND st = Some k"
    "row ''venue'' = Some (market_venue_value v)" "whole_second (w_start w)" "whole_second (w_end w)"
  shows "evb (window_cond w) row = Some True \<longleftrightarrow> window_matches v t k w"
proof -
  have t: "whole_second t" "event_text evs row = strftime_HMS t" using assms(1) by (simp_all add: parse_event_time_iff)
  have ven: "market_venue_value v = market_venue_value (w_venue w) \<longleftrightarrow> w_venue w = v" by (cases v; cases "w_venue w") simp_all
  have kind: "st \<in> set (map fst (filter (\<lambda>(s, k'). k' = kk) STREAM_EVENT_KIND)) \<longleftrightarrow> k = kk" for kk
    using stream_kind [of st kk] assms(3) by auto
  show ?thesis
    using assms(2,4) t ven kind HMS_le [OF assms(5) t(1)] HMS_less [OF t(1) assms(6)]
    by (cases "w_kind w")
      (auto simp: window_cond_def Let_def conj_null kleene_and_True equal greater less is_in col event_filled window_matches_def
        simp del: set_map set_filter)
qed

lemma nested_when:
  "evs (fold (\<lambda>w result. PWhen (PAnd valid (window_cond w)) (PLit (market_phase_value (w_phase w))) result)
     (rev windows) (PLit (market_phase_value UNCLASSIFIED))) row
   = Some (market_phase_value (first_phase (\<lambda>w. evb valid row = Some True \<and> evb (window_cond w) row = Some True) windows))"
  by (induction windows) (simp_all add: lit when_then conj_null kleene_and_True)

lemma phase_expr_scalar:
  assumes "\<forall>w \<in> set windows. whole_second (w_start w) \<and> whole_second (w_end w)"
  shows "evs (market_phase_expr windows) row
    = Some (market_phase_value (scalar_phase windows (row ''venue'') (row ''stream'') (event_text evs row)))"
proof -
  let ?P = "\<lambda>w. evb (valid_expr windows) row = Some True \<and> evb (window_cond w) row = Some True"
  have "first_phase ?P windows = scalar_phase windows (row ''venue'') (row ''stream'') (event_text evs row)"
  proof (cases "evb (valid_expr windows) row = Some True")
    case True
    then obtain t s k v where h: "parse_event_time (event_text evs row) = Some t" "row ''stream'' = Some s" "map_of STREAM_EVENT_KIND s = Some k"
      "row ''venue'' = Some (market_venue_value v)"
      by (auto simp: valid_iff)
    have "venue_of_value (market_venue_value v) = Some v" by (simp add: venue_of_value_iff)
    with h True window_cond_iff [OF h] assms show ?thesis
      by (auto simp: scalar_phase_def classify_market_phase_def intro!: first_phase_cong)
  next
    case False
    then have "scalar_phase windows (row ''venue'') (row ''stream'') (event_text evs row) = UNCLASSIFIED"
    proof (cases "\<exists>v w. row ''venue'' = Some v \<and> w \<in> set windows \<and> v = market_venue_value (w_venue w)")
      case False
      then have "first_phase (window_matches v t k) windows = UNCLASSIFIED" if "row ''venue'' = Some (market_venue_value v)" for v t k
        using that by (subst first_phase_cong [where Q = "\<lambda>_. False"]) (auto simp: window_matches_def first_phase_none)
      then show ?thesis
        by (auto simp: scalar_phase_def classify_market_phase_def bind_eq_Some_conv venue_of_value_iff split: option.splits)
    qed (auto simp: valid_iff scalar_phase_def classify_market_phase_def bind_eq_Some_conv split: option.splits)
    with False first_phase_none show ?thesis by simp
  qed
  then show ?thesis unfolding market_phase_expr_def nested_when by simp
qed

end

section \<open>A row evaluator\<close>

text \<open>
  An evaluator of the expressions with the semantics above. \<open>extract_field\<close> is the leftmost match of
  the pattern: the quoted key, a colon between optional spaces, a quoted text.
\<close>

definition field_at :: "string \<Rightarrow> string \<Rightarrow> string option" where
  "field_at key s =
     (let k = [CHR 0x22] @ key @ [CHR 0x22] in
      if take (length k) s \<noteq> k then None
      else case dropWhile is_space (drop (length k) s) of
             c # r1 \<Rightarrow> if c \<noteq> CHR '':'' then None
               else (case dropWhile is_space r1 of
                       q # r2 \<Rightarrow> if q = CHR 0x22 \<and> CHR 0x22 \<in> set r2 then Some (takeWhile (\<lambda>x. x \<noteq> CHR 0x22) r2) else None
                     | [] \<Rightarrow> None)
           | [] \<Rightarrow> None)"

fun extract_field :: "string \<Rightarrow> string \<Rightarrow> string option" where
  "extract_field key [] = None"
| "extract_field key (c # s) = (case field_at key (c # s) of Some v \<Rightarrow> Some v | None \<Rightarrow> extract_field key s)"

fun pl_str :: "pexpr \<Rightarrow> (string \<Rightarrow> string option) \<Rightarrow> string option"
  and pl_bool :: "pexpr \<Rightarrow> (string \<Rightarrow> string option) \<Rightarrow> bool option" where
  "pl_str (PLit s) row = Some s"
| "pl_str (PCol n) row = row n"
| "pl_str (PExtract e key) row = Option.bind (pl_str e row) (extract_field key)"
| "pl_str (PFillNull e d) row = Some (case pl_str e row of None \<Rightarrow> d | Some s \<Rightarrow> s)"
| "pl_str (PWhen c t e) row = (if pl_bool c row = Some True then pl_str t row else pl_str e row)"
| "pl_str _ row = None"
| "pl_bool (PIsIn e ss) row = map_option (\<lambda>s. s \<in> set ss) (pl_str e row)"
| "pl_bool (PEq e v) row = map_option (\<lambda>s. s = v) (pl_str e row)"
| "pl_bool (PNe e v) row = map_option (\<lambda>s. s \<noteq> v) (pl_str e row)"
| "pl_bool (PGe e v) row = map_option (\<lambda>s. v \<le> s) (pl_str e row)"
| "pl_bool (PLt e v) row = map_option (\<lambda>s. s < v) (pl_str e row)"
| "pl_bool (PContainsHHMMSS e) row = map_option hhmmss_regex (pl_str e row)"
| "pl_bool (PAnd a b) row = kleene_and (pl_bool a row) (pl_bool b row)"
| "pl_bool _ row = None"

interpretation pl: polars pl_str pl_bool
  by unfold_locales simp_all

section \<open>Properties\<close>

text \<open>
  C17. The vectorised phase column is the scalar classifier, row by row: for windows on whole seconds
  and any row, nulls and unknown streams or venues included, the expression evaluates to the phase the
  scalar function returns for the row's venue, event time and event kind.
\<close>

theorem phase_column_is_scalar:
  assumes "polars evs evb" "\<forall>w \<in> set windows. whole_second (w_start w) \<and> whole_second (w_end w)"
  shows "evs (market_phase_expr windows) row
    = Some (market_phase_value (scalar_phase windows (row ''venue'') (row ''stream'') (event_text evs row)))"
  using assms by (rule polars.phase_expr_scalar)

lemma standard_windows_whole: "\<forall>w \<in> set MARKET_PHASE_WINDOWS. whole_second (w_start w) \<and> whole_second (w_end w)"
  by (simp add: MARKET_PHASE_WINDOWS_def window_def whole_second_def standard_times)

theorem phase_column_is_scalar_witness:
  "let row = map_of [(''venue'', ''krx''), (''stream'', ''H0STCNT0''), (''exchange_event_time'', ''083500'')]
   in pl_str (market_phase_expr MARKET_PHASE_WINDOWS) row = Some ''pre_closing_price''"
proof -
  let ?row = "map_of [(''venue'', ''krx''), (''stream'', ''H0STCNT0''), (''exchange_event_time'', ''083500'')]"
  have "event_text pl_str ?row = ''083500''"
    by (simp add: event_text_def event_time_value_def)
  moreover have "parse_event_time ''083500'' = Some (mk_time 8 35 0)"
    by (simp add: parse_event_time_def is_digit_def parse_nat_def digit_val_def)
  ultimately have "scalar_phase MARKET_PHASE_WINDOWS (?row ''venue'') (?row ''stream'') (event_text pl_str ?row) = PRE_MARKET_CLOSING_PRICE"
    by (simp add: scalar_phase_def venue_of_value_def STREAM_EVENT_KIND_def classify_market_phase_def MARKET_PHASE_WINDOWS_def
        window_matches_def window_def standard_times)
  with phase_column_is_scalar [OF pl.polars_axioms standard_windows_whole, of ?row] show ?thesis by (simp add: Let_def)
qed

lemma phase_windows_total:
  assumes "wf_anchors a"
  shows "\<exists>ws. phase_windows_for a = Inr ws"
  unfolding phase_windows_for_def
  using shift_pre_open_ok [OF assms, of "mk_time 8 30 0"] shift_pre_open_ok [OF assms, of "mk_time 8 40 0"]
    shift_pre_open_ok [OF assms, of STANDARD_NXT_PREMARKET_OPEN] shift_pre_open_ok [OF assms, of STANDARD_NXT_PREMARKET_END]
    shift_post_close_ok [OF assms, of STANDARD_POST_CLOSING_PRICE_OPEN] shift_post_close_ok [OF assms, of STANDARD_KRX_AFTER_MARKET_OPEN]
    shift_post_close_ok [OF assms, of STANDARD_NXT_AFTER_MARKET_OPEN]
  by (auto simp: standard_times)

definition moved_window :: "int \<Rightarrow> phase_window \<Rightarrow> phase_window \<Rightarrow> bool" where
  "moved_window d w w0 \<longleftrightarrow> w_venue w = w_venue w0 \<and> w_kind w = w_kind w0 \<and> w_phase w = w_phase w0
     \<and> int (w_start w) = int (w_start w0) + d \<and> int (w_end w) = int (w_end w0) + d"

lemma moved_window_window: "moved_window d (window v k s e p) (window v' k' s' e' p')
    \<longleftrightarrow> v = v' \<and> k = k' \<and> p = p' \<and> int s = int s' + d \<and> int e = int e' + d"
  by (auto simp: moved_window_def window_def)

lemma moved_first_phase:
  assumes "list_all2 (moved_window d) ws ws0" "int u = int t + d"
  shows "first_phase (window_matches v u k) ws = first_phase (window_matches v t k) ws0"
  using assms(1)
proof (induction rule: list_all2_induct)
  case (Cons w ws w0 ws0)
  then have "window_matches v u k w = window_matches v t k w0" using assms(2) by (auto simp: moved_window_def window_matches_def)
  with Cons show ?case by (simp add: moved_window_def)
qed simp

text \<open>
  A special day is a standard day moved in time: when the session moves as a whole by some amount,
  an event at a time moved by that amount has the phase the unmoved event has on a standard day.
\<close>

theorem shifted_day_phases:
  assumes "wf_anchors a" "open_shift a = d" "close_shift a = d"
    and "int (sa_closing_auction_start a) = int STANDARD_CLOSING_AUCTION + d"
    and "int (sa_after_market_end a) = int STANDARD_AFTER_MARKET_END + d"
    and "whole_second t" "whole_second u" "int u = int t + d"
  shows "\<exists>ws. phase_windows_for a = Inr ws
    \<and> classify_market_phase v (strftime_HMS u) k ws = classify_market_phase v (strftime_HMS t) k MARKET_PHASE_WINDOWS"
proof -
  obtain ws where ws: "phase_windows_for a = Inr ws" using phase_windows_total [OF assms(1)] by blast
  have ro: "int (sa_regular_open a) = int STANDARD_REGULAR_OPEN + d" using assms(2) by (simp add: open_shift_def shift_between_def)
  have shifted: "shift_pre_open a s = Inr x \<Longrightarrow> int x = int s + d" "shift_post_close a s = Inr x \<Longrightarrow> int x = int s + d" for s x
    using assms(2,3) by (auto simp: shift_pre_open_def shift_post_close_def shift_time_def Let_def split: if_splits)
  have "list_all2 (moved_window d) ws MARKET_PHASE_WINDOWS"
    using ws ro assms(4,5) unfolding phase_windows_for_def rbind_Inr_iff MARKET_PHASE_WINDOWS_def
    by (elim exE conjE) (drule shifted, drule shifted, drule shifted, drule shifted, drule shifted, drule shifted, drule shifted,
        clarsimp simp: moved_window_window)
  then have "first_phase (window_matches v u k) ws = first_phase (window_matches v t k) MARKET_PHASE_WINDOWS"
    using assms(8) by (rule moved_first_phase)
  moreover have "parse_event_time (strftime_HMS t) = Some t" "parse_event_time (strftime_HMS u) = Some u"
    using assms(6,7) by (simp_all add: parse_event_time_iff)
  ultimately show ?thesis using ws by (simp add: classify_market_phase_def)
qed

theorem shifted_day_phases_witness:
  "\<exists>a ws. load_session_anchors (Some (JObj [(''date'', JStr (date_isoformat \<lparr>d_year = 2026, d_month = 11, d_day = 19\<rparr>)),
       (''regular_open'', JStr ''10:00''), (''closing_auction_start'', JStr ''16:20''), (''regular_close'', JStr ''16:30''),
       (''after_market_end'', JStr ''21:00''), (''source'', JStr ''vendor'')])) \<lparr>d_year = 2026, d_month = 11, d_day = 19\<rparr> = Some a
     \<and> phase_windows_for a = Inr ws
     \<and> classify_market_phase KRX (strftime_HMS (mk_time 16 25 0)) TRADE ws
        = classify_market_phase KRX (strftime_HMS (mk_time 15 25 0)) TRADE MARKET_PHASE_WINDOWS"
proof -
  let ?a = "\<lparr>sa_date = \<lparr>d_year = 2026, d_month = 11, d_day = 19\<rparr>, sa_regular_open = mk_time 10 0 0, sa_closing_auction_start = mk_time 16 20 0,
    sa_regular_close = mk_time 16 30 0, sa_after_market_end = mk_time 21 0 0, sa_source = VENDOR\<rparr>"
  have wf: "wf_anchors ?a"
    by (simp add: wf_anchors_def open_shift_def close_shift_def shift_between_def standard_times MAX_SESSION_SHIFT_def seconds_def)
  have "time_fromisoformat ''10:00'' = Some (mk_time 10 0 0)" "time_fromisoformat ''16:20'' = Some (mk_time 16 20 0)"
    "time_fromisoformat ''16:30'' = Some (mk_time 16 30 0)" "time_fromisoformat ''21:00'' = Some (mk_time 21 0 0)"
    by (simp_all add: time_fromisoformat_def parse_clock_def take_num_def eat_def is_digit_def parse_nat_def digit_val_def clock_us_def mk_time_def)
  then have load: "load_session_anchors (Some (JObj [(''date'', JStr (date_isoformat \<lparr>d_year = 2026, d_month = 11, d_day = 19\<rparr>)),
       (''regular_open'', JStr ''10:00''), (''closing_auction_start'', JStr ''16:20''), (''regular_close'', JStr ''16:30''),
       (''after_market_end'', JStr ''21:00''), (''source'', JStr ''vendor'')])) \<lparr>d_year = 2026, d_month = 11, d_day = 19\<rparr> = Some ?a"
    using wf by (simp add: load_session_anchors_def jget_def time_field_def anchor_source_of_value_def post_init_option)
  have "open_shift ?a = seconds 3600" "close_shift ?a = seconds 3600"
    "int (sa_closing_auction_start ?a) = int STANDARD_CLOSING_AUCTION + seconds 3600"
    "int (sa_after_market_end ?a) = int STANDARD_AFTER_MARKET_END + seconds 3600"
    "whole_second (mk_time 15 25 0)" "whole_second (mk_time 16 25 0)" "int (mk_time 16 25 0) = int (mk_time 15 25 0) + seconds 3600"
    by (simp_all add: open_shift_def close_shift_def shift_between_def standard_times seconds_def whole_second_def)
  from shifted_day_phases [OF wf this, of KRX TRADE] load show ?thesis by blast
qed

end
