(* ===== verification/Calendar.thy ===== *)
theory Calendar
  imports SessionAnchors
begin

text \<open>
  The daily session state machine of \<open>src/core/calendar.py\<close>: the validated schedule, the state of
  an instant, the time to the next start, and the schedule of a shifted day. The zone
  \<open>Asia/Seoul\<close> is nine hours ahead of UTC without daylight saving, as it has been since 1988.
\<close>

datatype session_state =
    WEEKEND_SLEEP | PRE_MARKET_SLEEP | STREAMER_ACTIVE | FULL_ACTIVE | AFTER_MARKET_ACTIVE | POST_MARKET_EOD | NIGHT_SLEEP

record session_schedule =
  streamer_start :: time
  scanner_start :: time
  market_close :: time
  eod_done :: time
  after_market_enabled :: bool
  after_market_close :: time
  after_market_eod_done :: time

definition schedule_post_init :: "session_schedule \<Rightarrow> session_schedule result" where
  "schedule_post_init s =
     (if \<not> (streamer_start s < scanner_start s \<and> scanner_start s < market_close s \<and> market_close s < eod_done s)
      then Inl (ScheduleOrderError ''schedule must be strictly monotonic'')
      else if \<not> (market_close s < after_market_close s \<and> after_market_close s < after_market_eod_done s)
      then Inl (ValueError ''schedule must be strictly monotonic'')
      else Inr s)"

definition default_schedule :: session_schedule where
  "default_schedule = \<lparr>streamer_start = mk_time 8 20 0, scanner_start = mk_time 8 50 0, market_close = mk_time 15 40 0,
     eod_done = mk_time 16 0 0, after_market_enabled = False, after_market_close = mk_time 20 0 0,
     after_market_eod_done = mk_time 20 30 0\<rparr>"

text \<open>The KST calendar day and weekday of an instant.\<close>

definition kst_day :: "int \<Rightarrow> int" where
  "kst_day u = (u + kst_off) div us_per_day"

definition kst_weekday :: "int \<Rightarrow> int" where
  "kst_weekday u = (kst_day u + 6) mod 7"

definition target_state_at :: "int \<Rightarrow> session_schedule \<Rightarrow> session_state" where
  "target_state_at u s =
     (if kst_weekday u \<in> {5, 6} then WEEKEND_SLEEP
      else let now_time = kst_tod u in
        if now_time < streamer_start s then PRE_MARKET_SLEEP
        else if now_time < scanner_start s then STREAMER_ACTIVE
        else if now_time < market_close s then FULL_ACTIVE
        else if after_market_enabled s then
          (if now_time < after_market_close s then AFTER_MARKET_ACTIVE
           else if now_time < after_market_eod_done s then POST_MARKET_EOD
           else NIGHT_SLEEP)
        else if now_time < eod_done s then POST_MARKET_EOD
        else NIGHT_SLEEP)"

definition get_target_state :: "datetime \<Rightarrow> session_schedule \<Rightarrow> session_state" where
  "get_target_state now s = target_state_at (utc_us now) s"

text \<open>
  The difference in microseconds between the next occurrence of a clock time, its microsecond
  dropped, and now; \<open>total_seconds\<close> is the correctly rounded quotient.
\<close>

definition sleep_us :: "int \<Rightarrow> time \<Rightarrow> int" where
  "sleep_us u target = (let kst = u + kst_off;
       target_dt = kst - kst mod us_per_day + int (mk_time (tod_hour target) (tod_minute target) (tod_second target))
     in (if target_dt \<le> kst then target_dt + us_per_day else target_dt) - kst)"

definition calc_sleep_seconds :: "datetime \<Rightarrow> time \<Rightarrow> rat" where
  "calc_sleep_seconds now target = fl (of_int (sleep_us (utc_us now) target) / 1000000)"

text \<open>\<open>_shift_time\<close> of this module drops the date and so wraps around midnight.\<close>

definition wrap_time :: "time \<Rightarrow> timedelta \<Rightarrow> time" where
  "wrap_time t delta = nat ((int t + delta) mod us_per_day)"

definition schedule_for :: "session_anchors \<Rightarrow> session_schedule \<Rightarrow> session_schedule result" where
  "schedule_for a base =
     (let after_gap = int (after_market_eod_done base) - int (after_market_close base) in
      schedule_post_init \<lparr>streamer_start = streamer_start base, scanner_start = scanner_start base,
        market_close = wrap_time (market_close base) (close_shift a), eod_done = wrap_time (eod_done base) (close_shift a),
        after_market_enabled = after_market_enabled base, after_market_close = sa_after_market_end a,
        after_market_eod_done = wrap_time (sa_after_market_end a) after_gap\<rparr>)"

section \<open>The day as a sequence of states\<close>

definition wf_schedule :: "session_schedule \<Rightarrow> bool" where
  "wf_schedule s \<longleftrightarrow> streamer_start s < scanner_start s \<and> scanner_start s < market_close s \<and> market_close s < eod_done s
     \<and> market_close s < after_market_close s \<and> after_market_close s < after_market_eod_done s"

lemma schedule_post_init_iff: "schedule_post_init s = Inr t \<longleftrightarrow> t = s \<and> wf_schedule s"
  by (auto simp: schedule_post_init_def wf_schedule_def)

fun state_rank :: "session_state \<Rightarrow> nat" where
  "state_rank WEEKEND_SLEEP = 0"
| "state_rank PRE_MARKET_SLEEP = 0"
| "state_rank STREAMER_ACTIVE = 1"
| "state_rank FULL_ACTIVE = 2"
| "state_rank AFTER_MARKET_ACTIVE = 3"
| "state_rank POST_MARKET_EOD = 4"
| "state_rank NIGHT_SLEEP = 5"

lemma kst_tod_mono: "kst_day u = kst_day v \<Longrightarrow> u \<le> v \<Longrightarrow> kst_tod u \<le> kst_tod v"
proof -
  assume d: "kst_day u = kst_day v" and le: "u \<le> v"
  have "(u + kst_off) div us_per_day * us_per_day + (u + kst_off) mod us_per_day = u + kst_off"
    "(v + kst_off) div us_per_day * us_per_day + (v + kst_off) mod us_per_day = v + kst_off" by (rule div_mult_mod_eq)+
  with d le have "(u + kst_off) mod us_per_day \<le> (v + kst_off) mod us_per_day" unfolding kst_day_def by linarith
  then show ?thesis unfolding kst_tod_def by (rule nat_mono)
qed

lemma target_state_progress:
  assumes "kst_day u = kst_day v" "u \<le> v" "wf_schedule s"
  shows "state_rank (target_state_at u s) \<le> state_rank (target_state_at v s)"
  using kst_tod_mono [OF assms(1,2)] assms(1,3)
  by (auto simp: target_state_at_def Let_def kst_weekday_def wf_schedule_def)

section \<open>Waking up\<close>

lemma whole_second_parts: "whole_second t \<Longrightarrow> mk_time (tod_hour t) (tod_minute t) (tod_second t) = t"
  using clock_us_parts [of t] by (simp add: whole_second_def clock_us_def tod_us_def mk_time_def)

lemma sleep_us_bounds:
  assumes "whole_second t"
  shows "0 < sleep_us u t \<and> sleep_us u t \<le> us_per_day \<and> kst_tod (u + sleep_us u t) = t"
proof -
  let ?k = "u + kst_off"
  let ?T = "?k - ?k mod us_per_day + int t"
  have t: "0 \<le> int t" "int t < us_per_day" using assms by (simp_all add: whole_second_def)
  have m: "0 \<le> ?k mod us_per_day" "?k mod us_per_day < us_per_day" by simp_all
  have eq: "sleep_us u t = (if ?T \<le> ?k then ?T + us_per_day else ?T) - ?k"
    by (simp add: sleep_us_def Let_def whole_second_parts [OF assms])
  have q: "?k - ?k mod us_per_day = us_per_day * (?k div us_per_day)" by (simp add: minus_mod_eq_mult_div)
  have "(us_per_day * n + int t) mod us_per_day = int t" for n using t by (simp only: mod_mult_self4 mod_pos_pos_trivial)
  from this [of "?k div us_per_day"] this [of "?k div us_per_day + 1"]
  have "(u + sleep_us u t + kst_off) mod us_per_day = int t"
    by (simp only: eq q split: if_splits) (auto simp: algebra_simps)
  then show ?thesis using t m by (auto simp: eq kst_tod_def)
qed

lemma wake_state:
  assumes "wf_schedule s" "whole_second (streamer_start s)"
  shows "target_state_at (u + sleep_us u (streamer_start s)) s \<in> {STREAMER_ACTIVE, WEEKEND_SLEEP}"
  using sleep_us_bounds [OF assms(2), of u] assms(1) by (auto simp: target_state_at_def Let_def wf_schedule_def)

section \<open>Shifted days\<close>

lemma wrap_time_in_day: "0 \<le> int t + d \<Longrightarrow> int t + d < us_per_day \<Longrightarrow> int (wrap_time t d) = int t + d"
  by (simp add: wrap_time_def)

lemma schedule_for_standard:
  assumes "standard_session_anchors day = Inr a" "wf_schedule base" "after_market_close base = STANDARD_AFTER_MARKET_END"
    "after_market_eod_done base < 86400000000" "eod_done base < 86400000000"
  shows "schedule_for a base = Inr base"
proof -
  from standard_wf [of day] assms(1) have a: "close_shift a = 0" "sa_after_market_end a = STANDARD_AFTER_MARKET_END" by auto
  have "wrap_time t 0 = t" if "t < 86400000000" for t using that by (simp add: wrap_time_def)
  moreover have "market_close base < 86400000000" using assms(2,5) by (simp add: wf_schedule_def)
  moreover have "wrap_time STANDARD_AFTER_MARKET_END (int (after_market_eod_done base) - int (after_market_close base)) = after_market_eod_done base"
    using assms(3,4) by (simp add: wrap_time_def)
  ultimately show ?thesis using assms a by (simp add: schedule_for_def Let_def schedule_post_init_iff wf_schedule_def)
qed

section \<open>Properties\<close>

text \<open>
  The day runs forward and sleeping ends in the session: within one KST day the state never goes
  back, and sleeping until the streamer start lasts more than nothing and at most a day and ends at
  an instant whose state is the active streamer, or the weekend.
\<close>

theorem day_runs_forward:
  assumes "wf_schedule s" "whole_second (streamer_start s)"
  shows "(\<forall>u v. kst_day u = kst_day v \<and> u \<le> v \<longrightarrow> state_rank (target_state_at u s) \<le> state_rank (target_state_at v s))
    \<and> (\<forall>u. 0 < sleep_us u (streamer_start s) \<and> sleep_us u (streamer_start s) \<le> us_per_day
         \<and> target_state_at (u + sleep_us u (streamer_start s)) s \<in> {STREAMER_ACTIVE, WEEKEND_SLEEP})"
  using target_state_progress [OF _ _ assms(1)] sleep_us_bounds [OF assms(2)] wake_state [OF assms] by blast

theorem day_runs_forward_witness:
  "\<forall>u. target_state_at (u + sleep_us u (streamer_start default_schedule)) default_schedule \<in> {STREAMER_ACTIVE, WEEKEND_SLEEP}"
proof -
  have "wf_schedule default_schedule" "whole_second (streamer_start default_schedule)"
    by (simp_all add: wf_schedule_def default_schedule_def mk_time_def whole_second_def)
  from day_runs_forward [OF this] show ?thesis by blast
qed

end
