(* ===== verification/DeployGate.thy ===== *)
theory DeployGate
  imports Calendar
begin

text \<open>
  The deploy gate of \<open>src/orchestration/deploy_gate.py\<close>: a push may recreate the collector only outside
  the collection session. The reason texts are kept; parsing the command line is not modelled.
\<close>

datatype deploy_action = PROCEED | DEFER

record deploy_decision =
  dd_action :: deploy_action
  dd_reason :: string

definition EXIT_PROCEED :: int where "EXIT_PROCEED = 0"
definition EXIT_DEFER :: int where "EXIT_DEFER = 10"
definition DEPLOY_BUSY_LEAD :: timedelta where "DEPLOY_BUSY_LEAD = seconds 600"
definition DEFERRED_RECREATE_KST :: time where "DEFERRED_RECREATE_KST = mk_time 22 0 0"

text \<open>Instants of one KST day are compared as offsets from its midnight.\<close>

definition decide_deploy :: "int \<Rightarrow> session_schedule \<Rightarrow> deploy_decision" where
  "decide_deploy u s =
     (if kst_weekday u \<in> {5, 6} then \<lparr>dd_action = PROCEED, dd_reason = ''weekend''\<rparr>
      else let start = int (streamer_start s) - DEPLOY_BUSY_LEAD; fin = int DEFERRED_RECREATE_KST in
        if start \<le> int (kst_tod u) \<and> int (kst_tod u) < fin then \<lparr>dd_action = DEFER, dd_reason = ''session_busy''\<rparr>
        else \<lparr>dd_action = PROCEED, dd_reason = ''outside_session''\<rparr>)"

definition deploy_exit_code :: "deploy_decision \<Rightarrow> int" where
  "deploy_exit_code d = (if dd_action d = PROCEED then EXIT_PROCEED else EXIT_DEFER)"

text \<open>
  C19. No deploy interrupts a session: whenever the daemon's state at an instant is an active one or the
  end-of-day work, or a session starts within the next ten minutes, the gate defers.
\<close>

theorem deploy_never_interrupts:
  assumes "wf_schedule s" "eod_done s \<le> DEFERRED_RECREATE_KST" "after_market_eod_done s \<le> DEFERRED_RECREATE_KST"
    and "target_state_at u s \<in> {STREAMER_ACTIVE, FULL_ACTIVE, AFTER_MARKET_ACTIVE, POST_MARKET_EOD}
      \<or> target_state_at u s = PRE_MARKET_SLEEP \<and> int (streamer_start s) \<le> int (kst_tod u) + DEPLOY_BUSY_LEAD"
  shows "deploy_exit_code (decide_deploy u s) = EXIT_DEFER"
proof -
  have "0 \<le> DEPLOY_BUSY_LEAD" by (simp add: DEPLOY_BUSY_LEAD_def seconds_def)
  with assms show ?thesis
    by (auto simp: target_state_at_def Let_def decide_deploy_def deploy_exit_code_def wf_schedule_def split: if_splits)
qed

theorem deploy_never_interrupts_witness:
  "let u = (8 * us_per_day + int (mk_time 9 0 0)) - kst_off in
   target_state_at u default_schedule = FULL_ACTIVE \<and> deploy_exit_code (decide_deploy u default_schedule) = EXIT_DEFER"
proof -
  let ?u = "(8 * us_per_day + int (mk_time 9 0 0)) - kst_off"
  have st: "target_state_at ?u default_schedule = FULL_ACTIVE"
    by (simp add: target_state_at_def kst_weekday_def kst_day_def kst_tod_def mk_time_def default_schedule_def Let_def)
  have "wf_schedule default_schedule" "eod_done default_schedule \<le> DEFERRED_RECREATE_KST"
    "after_market_eod_done default_schedule \<le> DEFERRED_RECREATE_KST"
    by (simp_all add: wf_schedule_def default_schedule_def mk_time_def DEFERRED_RECREATE_KST_def)
  from deploy_never_interrupts [OF this, of ?u] st show ?thesis by (simp add: Let_def)
qed

end
