(* ===== verification/Floats.thy ===== *)
theory Floats
  imports Prelude
begin

text \<open>
  Facts on the rounding \<open>fl\<close> that the timing components rely on: its relative error is at most
  \<open>2 ^ -53\<close>, it is monotone, it keeps signs, and it is exact on the integers a float can hold.
\<close>

section \<open>Exponents\<close>

lemma powi_mono: "(a::int) \<le> b \<Longrightarrow> (2::rat) powi a \<le> 2 powi b"
  by (simp add: power_int_increasing)

lemma quotient_bits:
  assumes "0 < n" "0 < d"
  shows "(2::rat) powi (bitlen n - bitlen d - 1) \<le> of_int n / of_int d"
proof -
  have n: "2 ^ nat (bitlen n - 1) \<le> n" using bitlen_bounds [OF assms(1)] by simp
  have d: "d < 2 ^ nat (bitlen d)" using bitlen_bounds [OF assms(2)] by simp
  have pos: "0 < bitlen n" "0 < bitlen d" using assms bitlen_nonneg [of n] bitlen_nonneg [of d] bitlen_eq_zero_iff [of n] bitlen_eq_zero_iff [of d] by linarith+
  have "(2::rat) powi (bitlen n - 1) = of_int (2 ^ nat (bitlen n - 1))" using pos by (simp add: power_int_def)
  also have "\<dots> \<le> of_int n" using n by (simp only: of_int_le_iff)
  finally have n': "(2::rat) powi (bitlen n - 1) \<le> of_int n" .
  have "(of_int d :: rat) \<le> of_int (2 ^ nat (bitlen d))" using d by (simp only: of_int_le_iff)
  also have "\<dots> = 2 powi bitlen d" using pos by (simp add: power_int_def)
  finally have d': "(of_int d :: rat) \<le> 2 powi bitlen d" .
  have "(2::rat) powi (bitlen n - bitlen d - 1) = 2 powi (bitlen n - 1) / 2 powi bitlen d"
    by (simp add: power_int_diff [symmetric] algebra_simps)
  also have "\<dots> \<le> of_int n / of_int d" using n' d' assms by (intro frac_le) simp_all
  finally show ?thesis .
qed

lemma ilog2_le: "0 < x \<Longrightarrow> 2 powi ilog2 x \<le> x"
proof -
  assume x: "0 < x"
  obtain n d where q: "quotient_of x = (n, d)" by (cases "quotient_of x")
  then have d: "0 < d" and eq: "x = of_int n / of_int d" by (simp_all add: quotient_of_denom_pos quotient_of_div)
  with x have n: "0 < n" by (simp add: zero_less_divide_iff)
  show ?thesis using quotient_bits [OF n d] unfolding ilog2_def q by (simp add: Let_def eq [symmetric])
qed

lemma quotient_bits_less:
  assumes "0 < n" "0 < d"
  shows "of_int n / of_int d < (2::rat) powi (bitlen n - bitlen d + 1)"
proof -
  have n: "n < 2 ^ nat (bitlen n)" using bitlen_bounds [OF assms(1)] by simp
  have d: "2 ^ nat (bitlen d - 1) \<le> d" using bitlen_bounds [OF assms(2)] by simp
  have pos: "0 < bitlen n" "0 < bitlen d" using assms bitlen_nonneg [of n] bitlen_nonneg [of d] bitlen_eq_zero_iff [of n] bitlen_eq_zero_iff [of d] by linarith+
  have "(of_int n :: rat) < of_int (2 ^ nat (bitlen n))" using n by (simp only: of_int_less_iff)
  also have "\<dots> = 2 powi bitlen n" using pos by (simp add: power_int_def)
  finally have n': "(of_int n :: rat) < 2 powi bitlen n" .
  have "(2::rat) powi (bitlen d - 1) = of_int (2 ^ nat (bitlen d - 1))" using pos by (simp add: power_int_def)
  also have "\<dots> \<le> of_int d" using d by (simp only: of_int_le_iff)
  finally have d': "(2::rat) powi (bitlen d - 1) \<le> of_int d" .
  have "of_int n / of_int d < (2::rat) powi bitlen n / 2 powi (bitlen d - 1)" using n' d' assms by (intro frac_less) simp_all
  also have "\<dots> = 2 powi (bitlen n - bitlen d + 1)" by (simp add: power_int_diff [symmetric] algebra_simps)
  finally show ?thesis .
qed

lemma ilog2_less: "0 < x \<Longrightarrow> x < 2 powi (ilog2 x + 1)"
proof -
  assume x: "0 < x"
  obtain n d where q: "quotient_of x = (n, d)" by (cases "quotient_of x")
  then have d: "0 < d" and eq: "x = of_int n / of_int d" by (simp_all add: quotient_of_denom_pos quotient_of_div)
  with x have n: "0 < n" by (simp add: zero_less_divide_iff)
  show ?thesis using quotient_bits_less [OF n d] unfolding ilog2_def q by (simp add: Let_def eq [symmetric])
qed

lemma ilog2_mono: "0 < x \<Longrightarrow> x \<le> y \<Longrightarrow> ilog2 x \<le> ilog2 y"
proof (rule ccontr)
  assume x: "0 < x" "x \<le> y" and "\<not> ilog2 x \<le> ilog2 y"
  then have "(2::rat) powi (ilog2 y + 1) \<le> 2 powi ilog2 x" by (intro powi_mono) simp
  with ilog2_le [OF x(1)] ilog2_less [of y] x show False by linarith
qed

section \<open>Rounding\<close>

lemma rne_mono: "p \<le> q \<Longrightarrow> rne p \<le> rne q"
proof -
  assume le: "p \<le> q"
  have b: "\<lfloor>p\<rfloor> \<le> \<lfloor>q\<rfloor>" using le by (rule floor_mono)
  have r: "\<lfloor>x\<rfloor> \<le> rne x" "rne x \<le> \<lfloor>x\<rfloor> + 1" for x by (auto simp: rne_def Let_def)
  show ?thesis
  proof (cases "\<lfloor>p\<rfloor> = \<lfloor>q\<rfloor>")
    case True
    then show ?thesis using le by (auto simp: rne_def Let_def)
  next
    case False
    with b r(2) [of p] r(1) [of q] show ?thesis by linarith
  qed
qed

lemma rne_uminus: "rne (- q) = - rne q"
proof (cases "q = of_int \<lfloor>q\<rfloor>")
  case True
  then show ?thesis by (metis of_int_minus rne_of_int)
next
  case False
  then have "of_int \<lfloor>q\<rfloor> < q" using of_int_floor_le [of q] by linarith
  then have f: "\<lfloor>- q\<rfloor> = - \<lfloor>q\<rfloor> - 1" by linarith
  have "q < of_int \<lfloor>q\<rfloor> + 1" by linarith
  with \<open>of_int \<lfloor>q\<rfloor> < q\<close> show ?thesis unfolding rne_def Let_def f by (auto split: if_splits)
qed

lemma fl_uminus: "fl (- x) = - fl x"
  by (simp add: fl_def Let_def rne_uminus)

lemma rne_error: "\<bar>of_int (rne q) - q\<bar> \<le> 1 / 2"
proof -
  have "of_int \<lfloor>q\<rfloor> \<le> q" "q < of_int \<lfloor>q\<rfloor> + 1" by linarith+
  then show ?thesis unfolding rne_def Let_def by (auto simp: abs_le_iff algebra_simps)
qed

lemma fl_error: "\<bar>fl x - x\<bar> \<le> \<bar>x\<bar> / 2 ^ 53"
proof (cases "x = 0")
  case False
  let ?e = "ilog2 \<bar>x\<bar> - 52"
  let ?p = "(2::rat) powi ?e"
  have p: "0 < ?p" by simp
  have "fl x - x = (of_int (rne (x / ?p)) - x / ?p) * ?p"
    using False p by (simp add: fl_def Let_def left_diff_distrib)
  then have "\<bar>fl x - x\<bar> = \<bar>of_int (rne (x / ?p)) - x / ?p\<bar> * ?p" using p by (simp add: abs_mult)
  also have "\<dots> \<le> 1 / 2 * ?p" using rne_error p by (intro mult_right_mono) simp_all
  also have "\<dots> = 2 powi ilog2 \<bar>x\<bar> / 2 ^ 53" by (simp add: power_int_diff)
  also have "\<dots> \<le> \<bar>x\<bar> / 2 ^ 53" using ilog2_le [of "\<bar>x\<bar>"] False by (simp add: divide_right_mono)
  finally show ?thesis .
qed simp

lemma fl_pos_mono:
  assumes "0 < x" "x \<le> y"
  shows "fl x \<le> fl y"
proof -
  let ?e = "ilog2 x - 52" and ?f = "ilog2 y - 52"
  have y: "0 < y" using assms by simp
  have fx: "fl x = of_int (rne (x / 2 powi ?e)) * 2 powi ?e" and fy: "fl y = of_int (rne (y / 2 powi ?f)) * 2 powi ?f"
    using assms y by (simp_all add: fl_def Let_def)
  show ?thesis
  proof (cases "ilog2 x = ilog2 y")
    case True
    have "rne (x / 2 powi ?e) \<le> rne (y / 2 powi ?e)" using assms by (intro rne_mono divide_right_mono) simp_all
    then show ?thesis unfolding fx fy True [symmetric] by (intro mult_right_mono) simp_all
  next
    case False
    then have less: "ilog2 x + 1 \<le> ilog2 y" using ilog2_mono [OF assms] by linarith
    have "x / 2 powi ?e \<le> 2 powi (ilog2 x + 1) / 2 powi ?e" using ilog2_less [OF assms(1)] by (intro divide_right_mono) simp_all
    also have "\<dots> = of_int (2 ^ 53)" by (simp add: power_int_diff [symmetric])
    finally have "rne (x / 2 powi ?e) \<le> 2 ^ 53" using rne_mono by (metis rne_of_int)
    then have "fl x \<le> of_int (2 ^ 53) * 2 powi ?e" unfolding fx by (intro mult_right_mono) (simp only: of_int_le_iff, simp)
    also have "\<dots> = 2 powi (ilog2 x + 1)" by (simp add: power_int_diff power_int_add)
    also have "\<dots> \<le> 2 powi ilog2 y" using less by (rule powi_mono)
    also have "\<dots> = of_int (2 ^ 52) * 2 powi ?f" by (simp add: power_int_diff)
    also have "\<dots> \<le> fl y"
    proof -
      have "of_int (2 ^ 52) = (2::rat) powi ilog2 y / 2 powi ?f" by (simp add: power_int_diff [symmetric])
      also have "\<dots> \<le> y / 2 powi ?f" using ilog2_le [OF y] by (intro divide_right_mono) simp_all
      finally have "2 ^ 52 \<le> rne (y / 2 powi ?f)" using rne_mono by (metis rne_of_int)
      then show ?thesis unfolding fy by (intro mult_right_mono) (simp only: of_int_le_iff, simp)
    qed
    finally show ?thesis .
  qed
qed

lemma fl_nonpos: "x \<le> 0 \<Longrightarrow> fl x \<le> 0"
  using fl_nonneg [of "- x"] by (simp add: fl_uminus)

lemma fl_mono: "x \<le> y \<Longrightarrow> fl x \<le> fl y"
proof -
  assume le: "x \<le> y"
  consider "0 < x" | "y < 0" | "x \<le> 0" "0 \<le> y" by linarith
  then show ?thesis
  proof cases
    case 1
    with le show ?thesis by (simp add: fl_pos_mono)
  next
    case 2
    with le fl_pos_mono [of "- y" "- x"] show ?thesis by (simp add: fl_uminus)
  next
    case 3
    with fl_nonpos [of x] fl_nonneg [of y] show ?thesis by simp
  qed
qed

section \<open>Exact results\<close>

lemma fl_exact:
  assumes "x = of_int j * 2 powi (ilog2 \<bar>x\<bar> - 52)"
  shows "fl x = x"
proof (cases "x = 0")
  case False
  have "x / 2 powi (ilog2 \<bar>x\<bar> - 52) = of_int j" using assms by (metis nonzero_mult_div_cancel_right power_int_not_zero zero_neq_numeral)
  then show ?thesis using False assms by (simp add: fl_def Let_def)
qed simp

lemma of_int_scaled: "(of_int i :: rat) = of_int (i * 2 ^ k) * 2 powi (- int k)"
  by (simp add: power_int_minus divide_inverse)

lemma fl_of_int:
  assumes "\<bar>i\<bar> \<le> 2 ^ 53"
  shows "fl (of_int i) = of_int i"
proof (cases "i = 0")
  case False
  let ?x = "of_int i :: rat"
  let ?l = "ilog2 \<bar>?x\<bar>"
  have x: "0 < \<bar>?x\<bar>" using False by simp
  have "2 powi ?l \<le> \<bar>?x\<bar>" using ilog2_le [OF x] .
  also have "\<dots> = of_int \<bar>i\<bar>" by simp
  also have "\<dots> \<le> of_int (2 ^ 53)" using assms by (simp only: of_int_le_iff)
  finally have "2 powi ?l \<le> (2::rat) powi 53" by simp
  then have l: "?l \<le> 53" by (rule_tac ccontr) (use power_int_strict_increasing [of 53 ?l "2::rat"] in linarith)
  show ?thesis
  proof (cases "?l = 53")
    case True
    then have "(2::rat) ^ 53 \<le> of_int \<bar>i\<bar>" using \<open>2 powi ?l \<le> \<bar>?x\<bar>\<close> by simp
    then have "of_int (2 ^ 53) \<le> (of_int \<bar>i\<bar> :: rat)" by simp
    then have "2 ^ 53 \<le> \<bar>i\<bar>" by (simp only: of_int_le_iff)
    with assms have "\<bar>i\<bar> = 2 ^ 53" by linarith
    then have "i = 2 ^ 53 \<or> i = - (2 ^ 53)" by linarith
    then have "\<exists>j. ?x = of_int j * 2 powi (?l - 52)" using True by (auto intro: exI [of _ "2 ^ 52"] exI [of _ "- (2 ^ 52)"])
    then show ?thesis using fl_exact by blast
  next
    case less: False
    with l have "?l - 52 \<le> 0" by linarith
    then have k: "- int (nat (52 - ?l)) = ?l - 52" by simp
    have "?x = of_int (i * 2 ^ nat (52 - ?l)) * 2 powi (?l - 52)" using of_int_scaled [of i "nat (52 - ?l)"] unfolding k .
    then show ?thesis by (rule fl_exact)
  qed
qed simp

end
