(* ===== verification/Pacing.thy ===== *)
theory Pacing
  imports Errors Floats
begin

text \<open>
  Request spacing, \<open>src/brokers/kis/rate.py\<close>: the process-private limiter and the host-wide one that
  books slots in a shared file under a lock. Clock readings are rationals, sums and differences are
  rounded by \<open>fl\<close>. The file holds the next free instant as text that \<open>repr\<close> and \<open>float\<close> carry
  exactly; an empty or unreadable file is \<open>None\<close>. A pacer grants each request a slot; the locale
  \<open>pacer\<close> is the contract both limiters meet, and spacing is proved from it once.
\<close>

section \<open>The process-private limiter\<close>

text \<open>\<open>next_allowed = None\<close> is \<open>float('-inf')\<close>. \<open>acquire\<close> returns the sleep it makes, if any.\<close>

record rate_limiter =
  rl_interval :: rat
  rl_next_allowed :: "rat option"

definition new_rate_limiter :: "rat \<Rightarrow> rate_limiter" where
  "new_rate_limiter rate_per_s = \<lparr>rl_interval = fl (1 / rate_per_s), rl_next_allowed = None\<rparr>"

definition rl_acquire :: "rate_limiter \<Rightarrow> rat \<Rightarrow> rat option \<times> rate_limiter" where
  "rl_acquire l now = (case rl_next_allowed l of
       Some nxt \<Rightarrow> if now < nxt then (Some (fl (nxt - now)), l\<lparr>rl_next_allowed := Some (fl (nxt + rl_interval l))\<rparr>)
                  else (None, l\<lparr>rl_next_allowed := Some (fl (now + rl_interval l))\<rparr>)
     | None \<Rightarrow> (None, l\<lparr>rl_next_allowed := Some (fl (now + rl_interval l))\<rparr>))"

section \<open>The host-wide limiter\<close>

text \<open>
  The pacing file of a credential. \<open>sha\<close> is the hexadecimal SHA-256 of a text. \<open>_NAME_RE\<close> is used with
  \<open>match\<close>, whose \<open>$\<close> also accepts one line feed at the end.
\<close>

definition name_char :: "char \<Rightarrow> bool" where
  "name_char c \<longleftrightarrow> (let n = (of_char c :: nat) in
     65 \<le> n \<and> n \<le> 90 \<or> 97 \<le> n \<and> n \<le> 122 \<or> 48 \<le> n \<and> n \<le> 57 \<or> c = CHR ''_'' \<or> c = CHR ''-'')"

definition NAME_RE :: "string \<Rightarrow> bool" where
  "NAME_RE s \<longleftrightarrow> (let t = (if s \<noteq> [] \<and> last s = CHR 0x0A then butlast s else s) in t \<noteq> [] \<and> list_all name_char t)"

definition host_state_path :: "(string \<Rightarrow> string) \<Rightarrow> string \<Rightarrow> string \<Rightarrow> string option \<Rightarrow> string result" where
  "host_state_path sha vendor credential scope =
     (if \<not> NAME_RE vendor then Inl (ValueError ''invalid vendor'')
      else if credential = [] then Inl (ValueError ''credential must be non-empty'')
      else if (case scope of Some sc \<Rightarrow> \<not> NAME_RE sc | None \<Rightarrow> False) then Inl (ValueError ''invalid scope'')
      else let digest = take 12 (sha credential) in
        Inr (case scope of None \<Rightarrow> ''admission_'' @ vendor @ ''_'' @ digest @ ''.state''
             | Some sc \<Rightarrow> ''admission_'' @ vendor @ ''_'' @ digest @ ''_'' @ sc @ ''.state''))"

definition kis_state_path :: "(string \<Rightarrow> string) \<Rightarrow> string \<Rightarrow> string result" where
  "kis_state_path sha app_key =
     (if app_key = [] then Inl (ValueError ''app_key must be non-empty'')
      else Inr (''tps_'' @ take 12 (sha app_key) @ ''.state''))"

datatype pace_error = RateNotPositive | LeadNotPositive | HostPacingNotShared

record host_limiter =
  hl_interval :: rat
  hl_max_lead :: "rat option"

definition new_host_limiter :: "rat \<Rightarrow> rat option \<Rightarrow> bool \<Rightarrow> bool \<Rightarrow> pace_error + host_limiter" where
  "new_host_limiter rate max_lead in_container marker =
     (if rate \<le> 0 then Inl RateNotPositive
      else if (case max_lead of Some m \<Rightarrow> m \<le> 0 | None \<Rightarrow> False) then Inl LeadNotPositive
      else if in_container \<and> \<not> marker then Inl HostPacingNotShared
      else Inr \<lparr>hl_interval = fl (1 / rate), hl_max_lead = max_lead\<rparr>)"

definition read_next_free :: "rat option \<Rightarrow> rat" where
  "read_next_free content = (case content of None \<Rightarrow> 0 | Some v \<Rightarrow> v)"

definition book_unconditional :: "host_limiter \<Rightarrow> rat option \<Rightarrow> rat \<Rightarrow> rat \<times> rat option" where
  "book_unconditional h content now =
     (let slot = max now (read_next_free content) in (fl (slot - now), Some (fl (slot + hl_interval h))))"

definition try_book_or_wait :: "host_limiter \<Rightarrow> rat \<Rightarrow> rat option \<Rightarrow> rat \<Rightarrow> (bool \<times> rat) \<times> rat option" where
  "try_book_or_wait h lead content now =
     (let slot = max now (read_next_free content) in
      if fl (slot - now) \<le> lead then ((True, fl (slot - now)), Some (fl (slot + hl_interval h)))
      else ((False, max (fl (fl (slot - now) - lead)) (hl_interval h)), content))"

text \<open>
  \<open>acquire\<close>. Other processes use the file between two attempts: attempt \<open>k\<close> finds the content
  \<open>file k\<close> and the clock \<open>clock k\<close>. The result is the list of sleeps and what the granting attempt
  wrote; fuel bounds the attempts and running out of it is \<open>None\<close>.
\<close>

definition sleep_if :: "rat \<Rightarrow> rat list" where
  "sleep_if d = (if d > 0 then [d] else [])"

fun acquire_loop :: "nat \<Rightarrow> host_limiter \<Rightarrow> rat \<Rightarrow> (nat \<Rightarrow> rat option) \<Rightarrow> (nat \<Rightarrow> rat) \<Rightarrow> nat \<Rightarrow> rat list \<Rightarrow> (rat list \<times> rat option) option" where
  "acquire_loop 0 h lead file clock k sleeps = None"
| "acquire_loop (Suc n) h lead file clock k sleeps =
     (case try_book_or_wait h lead (file k) (clock k) of
        ((True, wait), content) \<Rightarrow> Some (sleeps @ sleep_if wait, content)
      | ((False, wait), content) \<Rightarrow> acquire_loop n h lead file clock (Suc k) (sleeps @ sleep_if wait))"

definition host_acquire :: "nat \<Rightarrow> host_limiter \<Rightarrow> (nat \<Rightarrow> rat option) \<Rightarrow> (nat \<Rightarrow> rat) \<Rightarrow> (rat list \<times> rat option) option" where
  "host_acquire fuel h file clock = (case hl_max_lead h of
       None \<Rightarrow> (let (delay, content) = book_unconditional h (file 0) (clock 0) in Some (sleep_if delay, content))
     | Some lead \<Rightarrow> acquire_loop fuel h lead file clock 0 [])"

section \<open>The contract of a pacer\<close>

text \<open>
  \<open>grant\<close> is the slot a request gets at a clock reading, \<open>free_at\<close> the instant before which the state
  grants nothing.
\<close>

fun grants :: "('s \<Rightarrow> rat \<Rightarrow> rat \<times> 's) \<Rightarrow> 's \<Rightarrow> rat list \<Rightarrow> rat list" where
  "grants grant s [] = []"
| "grants grant s (now # nows) = fst (grant s now) # grants grant (snd (grant s now)) nows"

locale pacer =
  fixes grant :: "'s \<Rightarrow> rat \<Rightarrow> rat \<times> 's"
    and free_at :: "'s \<Rightarrow> rat option"
    and interval :: rat
  assumes not_early: "free_at s = Some f \<Longrightarrow> f \<le> fst (grant s now)"
    and not_before_now: "now \<le> fst (grant s now)"
    and books_next: "free_at (snd (grant s now)) = Some (fl (fst (grant s now) + interval))"
begin

lemma next_slot: "Suc i < length nows \<Longrightarrow> fl (grants grant s nows ! i + interval) \<le> grants grant s nows ! Suc i"
proof (induction nows arbitrary: s i)
  case Nil
  then show ?case by simp
next
  case (Cons now nows)
  show ?case
  proof (cases i)
    case 0
    with Cons.prems obtain now' nows' where "nows = now' # nows'" by (cases nows) auto
    with 0 not_early [OF books_next] show ?thesis by simp
  next
    case (Suc j)
    with Cons show ?thesis by simp
  qed
qed

text \<open>Up to instants of \<open>2 ^ 33\<close> seconds, neighbouring slots are an interval apart up to a microsecond.\<close>

lemma slots_spaced:
  assumes "Suc i < length nows" "\<bar>grants grant s nows ! i + interval\<bar> \<le> 2 ^ 33"
  shows "grants grant s nows ! i + interval - 1 / 2 ^ 20 \<le> grants grant s nows ! Suc i"
proof -
  have "\<bar>grants grant s nows ! i + interval\<bar> / 2 ^ 53 \<le> 2 ^ 33 / 2 ^ 53" using assms(2) by (intro divide_right_mono) simp_all
  then have "\<bar>fl (grants grant s nows ! i + interval) - (grants grant s nows ! i + interval)\<bar> \<le> 1 / 2 ^ 20"
    using fl_error [of "grants grant s nows ! i + interval"] by simp
  with next_slot [OF assms(1), of s] show ?thesis by linarith
qed

end

text \<open>
  The slot a limiter grants is the clock reading after its sleep; the state is the next allowed instant,
  held in the object by the one and in the shared file by the other.
\<close>

definition rl_grant :: "rat \<Rightarrow> rat option \<Rightarrow> rat \<Rightarrow> rat \<times> rat option" where
  "rl_grant ival nxt now = ((case nxt of Some f \<Rightarrow> max now f | None \<Rightarrow> now),
     rl_next_allowed (snd (rl_acquire \<lparr>rl_interval = ival, rl_next_allowed = nxt\<rparr> now)))"

definition host_grant :: "host_limiter \<Rightarrow> rat option \<Rightarrow> rat \<Rightarrow> rat \<times> rat option" where
  "host_grant h content now = (max now (read_next_free content), snd (book_unconditional h content now))"

interpretation rl: pacer "rl_grant ival" "\<lambda>nxt. nxt" ival
  by unfold_locales (auto simp: rl_grant_def rl_acquire_def max_def split: option.splits)

interpretation host: pacer "host_grant h" "\<lambda>content. content" "hl_interval h"
  by unfold_locales (auto simp: host_grant_def book_unconditional_def read_next_free_def Let_def)

text \<open>A bounded-lead attempt that books writes what an unconditional booking writes.\<close>

lemma try_book_grants:
  assumes "try_book_or_wait h lead content now = ((True, wait), content')"
  shows "content' = snd (host_grant h content now) \<and> wait = fst (book_unconditional h content now) \<and> wait \<le> lead"
  using assms by (auto simp: try_book_or_wait_def host_grant_def book_unconditional_def Let_def split: if_splits)

lemma acquire_loop_returns:
  assumes "fl (max (clock (k + n)) (read_next_free (file (k + n))) - clock (k + n)) \<le> lead"
  shows "\<exists>ss i. acquire_loop (Suc n) h lead file clock k sleeps = Some (ss, snd (host_grant h (file i) (clock i)))"
  using assms
proof (induction n arbitrary: k sleeps)
  case 0
  then show ?case by (auto simp: try_book_or_wait_def Let_def host_grant_def book_unconditional_def)
next
  case (Suc n)
  obtain b wait c where t: "try_book_or_wait h lead (file k) (clock k) = ((b, wait), c)"
    by (metis prod.collapse)
  show ?case
  proof (cases b)
    case True
    with t try_book_grants [of h lead "file k" "clock k" wait c] show ?thesis by auto
  next
    case False
    with Suc.IH [of "Suc k"] Suc.prems t show ?thesis by (auto simp del: acquire_loop.simps simp: acquire_loop.simps(2) [of "Suc n"])
  qed
qed

section \<open>Properties\<close>



end
