(* ===== verification/CollectionWindows.thy ===== *)
theory CollectionWindows
  imports Calendar RealtimeContracts
begin

text \<open>
  When collectors run and when their silence counts: \<open>src/orchestration/premarket.py\<close>,
  \<open>src/orchestration/regular_kis.py\<close>, the silence limits of \<open>src/realtime/streamer.py\<close> and \<open>shard_window\<close>
  of \<open>src/orchestration/shard_watchdog.py\<close>. An instant is its UTC microsecond, a date-time in the
  zone is its local microsecond, and a number of seconds given as an argument is a \<open>timedelta\<close>.
\<close>

section \<open>Local time\<close>

definition kst_us :: "int \<Rightarrow> int" where
  "kst_us u = u + kst_off"

definition combine :: "int \<Rightarrow> time \<Rightarrow> int" where
  "combine day t = day * us_per_day + int t"

lemma kst_us_combine: "kst_us u = combine (kst_day u) (kst_tod u)"
proof -
  have "0 \<le> (u + kst_off) mod us_per_day" by simp
  then show ?thesis by (simp add: kst_us_def combine_def kst_day_def kst_tod_def)
qed

lemma kst_weekday_nonneg: "0 \<le> kst_weekday u" "kst_weekday u \<le> 6"
  by (simp_all add: kst_weekday_def)

section \<open>The premarket collector\<close>

definition PREMARKET_POLL_S :: timedelta where "PREMARKET_POLL_S = seconds 10"

definition premarket_window :: "session_anchors \<Rightarrow> (time \<times> time) result" where
  "premarket_window a = rbind (shift_pre_open a STANDARD_NXT_PREMARKET_OPEN) (\<lambda>start.
     rbind (shift_pre_open a STANDARD_NXT_PREMARKET_END) (\<lambda>stop. Inr (start, stop)))"

definition premarket_collection_due :: "int \<Rightarrow> session_anchors \<Rightarrow> timedelta \<Rightarrow> bool result" where
  "premarket_collection_due now a start_lead =
     (if 5 \<le> kst_weekday now then Inr False
      else if open_shift a \<noteq> 0 then Inr False
      else rbind (premarket_window a) (\<lambda>(start, stop).
        let start_dt = combine (kst_day now) start - start_lead; end_dt = combine (kst_day now) stop in
        Inr (start_dt \<le> kst_us now \<and> kst_us now < end_dt)))"

definition premarket_pool_due :: "int \<Rightarrow> session_anchors \<Rightarrow> timedelta \<Rightarrow> bool" where
  "premarket_pool_due now a settle =
     (if 5 \<le> kst_weekday now then False
      else let due_dt = combine (kst_day now) (sa_after_market_end a) + settle in
        if due_dt div us_per_day \<noteq> kst_day now then False else due_dt \<le> kst_us now)"

definition premarket_wake_cap :: "int \<Rightarrow> session_anchors \<Rightarrow> timedelta \<Rightarrow> timedelta option result" where
  "premarket_wake_cap now a start_lead =
     (if 5 \<le> kst_weekday now then Inr None
      else if open_shift a \<noteq> 0 then Inr None
      else rbind (premarket_window a) (\<lambda>(start, stop).
        let start_dt = combine (kst_day now) start - start_lead; end_dt = combine (kst_day now) stop in
        if kst_us now < start_dt then
          (let midnight = combine (kst_day now + 1) 0 in Inr (Some (max 0 (min (start_dt - kst_us now) (midnight - kst_us now)))))
        else if kst_us now < end_dt then Inr (Some PREMARKET_POLL_S)
        else Inr None))"

section \<open>The regular KIS shards\<close>

definition regular_kis_collection_due :: "int \<Rightarrow> session_anchors \<Rightarrow> timedelta \<Rightarrow> timedelta \<Rightarrow> bool" where
  "regular_kis_collection_due now a start_lead close_grace =
     (if 5 \<le> kst_weekday now then False
      else let start_dt = combine (kst_day now) (sa_regular_open a) - start_lead;
               end_dt = combine (kst_day now) (sa_regular_close a) + close_grace in
        start_dt \<le> kst_us now \<and> kst_us now < end_dt)"

section \<open>Silence limits\<close>

text \<open>Each limit is \<open>limit_s\<close> while the watch is armed and \<open>None\<close> while it is not.\<close>

definition regular_session_silence_limit :: "int \<Rightarrow> session_anchors \<Rightarrow> rat \<Rightarrow> rat option" where
  "regular_session_silence_limit now a limit_s =
     (if sa_regular_open a \<le> kst_tod now \<and> kst_tod now < sa_regular_close a then Some limit_s else None)"

fun aftermarket_open_time :: "market_venue \<Rightarrow> session_anchors \<Rightarrow> time result" where
  "aftermarket_open_time NXT a = shift_post_close a STANDARD_NXT_AFTER_MARKET_OPEN"
| "aftermarket_open_time KRX a = shift_post_close a STANDARD_KRX_AFTER_MARKET_OPEN"
| "aftermarket_open_time VENUE_UNKNOWN a = Inl (ValueError ''no aftermarket open for venue'')"

definition aftermarket_silence_limit :: "int \<Rightarrow> market_venue \<Rightarrow> session_anchors \<Rightarrow> rat \<Rightarrow> rat option result" where
  "aftermarket_silence_limit now venue a limit_s = rbind (aftermarket_open_time venue a) (\<lambda>open_t.
     Inr (if open_t \<le> kst_tod now \<and> kst_tod now < sa_after_market_end a then Some limit_s else None))"

definition premarket_silence_limit :: "int \<Rightarrow> session_anchors \<Rightarrow> rat \<Rightarrow> rat option result" where
  "premarket_silence_limit now a limit_s = rbind (shift_pre_open a STANDARD_NXT_PREMARKET_OPEN) (\<lambda>start.
     rbind (shift_pre_open a STANDARD_NXT_PREMARKET_END) (\<lambda>stop.
     Inr (if start \<le> kst_tod now \<and> kst_tod now < stop then Some limit_s else None)))"

definition regular_kis_silence_limit :: "int \<Rightarrow> session_anchors \<Rightarrow> rat \<Rightarrow> rat option" where
  "regular_kis_silence_limit now a limit_s =
     (if sa_regular_open a \<le> kst_tod now \<and> kst_tod now < sa_closing_auction_start a then Some limit_s else None)"

section \<open>The window of a shard\<close>

definition shard_times :: "market_venue \<Rightarrow> market_session \<Rightarrow> session_anchors \<Rightarrow> (time \<times> time) result" where
  "shard_times venue session a =
     (case session of
        NXT_PRE \<Rightarrow> if venue \<noteq> NXT then Inl (ValueError ''no premarket window for venue'') else premarket_window a
      | NXT_AFTER \<Rightarrow> if venue \<noteq> NXT then Inl (ValueError ''no nxt_after window for venue'')
          else rbind (aftermarket_open_time venue a) (\<lambda>start. Inr (start, sa_after_market_end a))
      | KRX_AFTER \<Rightarrow> if venue \<noteq> KRX then Inl (ValueError ''no krx_after window for venue'')
          else rbind (aftermarket_open_time venue a) (\<lambda>start. Inr (start, sa_after_market_end a))
      | REGULAR_SESSION \<Rightarrow> if venue \<noteq> KRX then Inl (ValueError ''no regular window for venue'')
          else Inr (sa_regular_open a, sa_closing_auction_start a))"

definition shard_window :: "market_venue \<Rightarrow> market_session \<Rightarrow> int \<Rightarrow> session_anchors \<Rightarrow> (int \<times> int) result" where
  "shard_window venue session day a = rbind (shard_times venue session a) (\<lambda>(start, stop). Inr (combine day start, combine day stop))"

section \<open>The windows of valid anchors\<close>

lemma shift_pre_open_unshifted: "open_shift a = 0 \<Longrightarrow> int t < us_per_day \<Longrightarrow> shift_pre_open a t = Inr t"
  by (simp add: shift_pre_open_def shift_time_def)

lemma premarket_window_unshifted: "open_shift a = 0 \<Longrightarrow> premarket_window a = Inr (STANDARD_NXT_PREMARKET_OPEN, STANDARD_NXT_PREMARKET_END)"
  by (simp add: premarket_window_def shift_pre_open_unshifted standard_times)

lemma combine_le: "combine d s \<le> combine d t \<longleftrightarrow> s \<le> t" "combine d s < combine d t \<longleftrightarrow> s < t"
  by (simp_all add: combine_def)

lemma premarket_due_iff:
  "open_shift a = 0 \<Longrightarrow> kst_weekday u < 5 \<Longrightarrow> premarket_collection_due u a lead
     = Inr (combine (kst_day u) STANDARD_NXT_PREMARKET_OPEN - lead \<le> kst_us u \<and> kst_us u < combine (kst_day u) STANDARD_NXT_PREMARKET_END)"
  by (simp add: premarket_collection_due_def premarket_window_unshifted)

lemma premarket_armed_due:
  assumes "premarket_silence_limit u a l = Inr (Some x)" "open_shift a = 0" "kst_weekday u < 5" "0 \<le> lead"
  shows "premarket_collection_due u a lead = Inr True"
proof -
  have "STANDARD_NXT_PREMARKET_OPEN \<le> kst_tod u" "kst_tod u < STANDARD_NXT_PREMARKET_END"
    using assms(1,2) by (auto simp: premarket_silence_limit_def shift_pre_open_unshifted standard_times split: if_splits)
  then have "combine (kst_day u) STANDARD_NXT_PREMARKET_OPEN \<le> kst_us u" "kst_us u < combine (kst_day u) STANDARD_NXT_PREMARKET_END"
    by (simp_all add: kst_us_combine combine_le)
  with assms show ?thesis by (simp add: premarket_due_iff)
qed

lemma regular_armed_due:
  assumes "regular_kis_silence_limit u a l = Some x" "wf_anchors a" "kst_weekday u < 5" "0 \<le> lead" "0 \<le> grace"
  shows "regular_kis_collection_due u a lead grace"
proof -
  have "sa_regular_open a \<le> kst_tod u" "kst_tod u < sa_regular_close a"
    using assms(1,2) by (auto simp: regular_kis_silence_limit_def wf_anchors_def split: if_splits)
  then have "combine (kst_day u) (sa_regular_open a) \<le> kst_us u" "kst_us u < combine (kst_day u) (sa_regular_close a)"
    by (simp_all add: kst_us_combine combine_le)
  with assms show ?thesis by (simp add: regular_kis_collection_due_def Let_def)
qed

text \<open>Sleeping for the cap wakes at the collector's start, unless midnight comes first.\<close>

lemma kst_us_bounds: "combine (kst_day u) 0 \<le> kst_us u" "kst_us u < combine (kst_day u + 1) 0"
  using kst_tod_less [of u] by (simp_all add: kst_us_combine) (simp_all add: combine_def algebra_simps)

lemma kst_day_eq: "kst_day u = kst_us u div us_per_day"
  by (simp add: kst_day_def kst_us_def)

lemma day_of_local: "combine d 0 \<le> x \<Longrightarrow> x < combine (d + 1) 0 \<Longrightarrow> x div us_per_day = d"
  by (rule int_div_pos_eq [of _ _ _ "x - d * us_per_day"]) (simp_all add: combine_def algebra_simps)

lemma wake_cap_start:
  assumes cap: "premarket_wake_cap u a lead = Inr (Some c)" "kst_us u < combine (kst_day u) STANDARD_NXT_PREMARKET_OPEN - lead"
    and lead: "0 \<le> lead"
  shows "0 < c \<and> premarket_collection_due (u + c) a lead = Inr True"
proof -
  have wd: "kst_weekday u < 5" and sh: "open_shift a = 0" using cap(1) by (auto simp: premarket_wake_cap_def split: if_splits)
  let ?s = "combine (kst_day u) STANDARD_NXT_PREMARKET_OPEN - lead"
  have day: "?s < combine (kst_day u + 1) 0" "combine (kst_day u) 0 \<le> ?s" using lead kst_us_bounds [of u] cap(2) by (simp_all add: combine_def standard_times)
  then have c: "c = ?s - kst_us u" using cap wd sh by (simp add: premarket_wake_cap_def premarket_window_unshifted Let_def min_def max_def)
  then have at: "kst_us (u + c) = ?s" by (simp add: kst_us_def)
  then have "kst_day (u + c) = kst_day u" unfolding kst_day_eq [of "u + c"] at using day by (intro day_of_local) simp_all
  moreover from this have "kst_weekday (u + c) = kst_weekday u" by (simp add: kst_weekday_def)
  ultimately show ?thesis using c cap(2) wd sh at lead by (simp add: premarket_due_iff) (simp add: combine_def standard_times)
qed



end
