(* ===== verification/Supervisor.thy ===== *)
theory Supervisor
  imports Errors Floats
begin

text \<open>
  Child supervision, \<open>src/orchestration/supervisor.py\<close>: the restart circuit breaker and the supervisor
  that restarts a dead collector under it, arms restart reasons and stops its child. What the operating
  system answers is an argument: the exit status a poll finds (\<open>None\<close> while the child lives), whether
  \<open>Popen\<close> raises, and what waiting returns. Once a child has exited every later poll finds the same status.
\<close>

section \<open>The circuit breaker\<close>

record breaker =
  cb_max_restarts :: int
  cb_window :: rat
  cb_probe_base :: rat
  cb_probe_max :: rat
  cb_timestamps :: "rat list"

definition PROBE_BASE_INTERVAL_S :: rat where "PROBE_BASE_INTERVAL_S = 60"

definition PROBE_MAX_INTERVAL_S :: rat where "PROBE_MAX_INTERVAL_S = 300"

definition new_breaker :: "int \<Rightarrow> rat \<Rightarrow> rat \<Rightarrow> rat \<Rightarrow> breaker result" where
  "new_breaker max_restarts window_s probe_base probe_max =
     (if max_restarts < 1 then Inl (ValueError ''max_restarts must be >= 1'')
      else if window_s \<le> 0 then Inl (ValueError ''window_s must be positive'')
      else if probe_base \<le> 0 then Inl (ValueError ''probe_base_interval_s must be positive'')
      else if probe_max \<le> 0 then Inl (ValueError ''probe_max_interval_s must be positive'')
      else if probe_max < probe_base then Inl (ValueError ''probe_max_interval_s must be >= probe_base_interval_s'')
      else Inr \<lparr>cb_max_restarts = max_restarts, cb_window = window_s, cb_probe_base = probe_base,
                cb_probe_max = probe_max, cb_timestamps = []\<rparr>)"

definition prune :: "rat \<Rightarrow> breaker \<Rightarrow> breaker" where
  "prune now b = (let cutoff = fl (now - cb_window b) in b\<lparr>cb_timestamps := filter (\<lambda>t. t > cutoff) (cb_timestamps b)\<rparr>)"

definition allow_restart :: "rat \<Rightarrow> breaker \<Rightarrow> bool \<times> breaker" where
  "allow_restart now b = (let b = prune now b in (int (length (cb_timestamps b)) < cb_max_restarts b, b))"

text \<open>The spacing a probe has to keep when the window holds \<open>n\<close> attempts; \<open>2 ** beyond\<close> is exact as a float.\<close>

definition probe_spacing :: "breaker \<Rightarrow> int \<Rightarrow> rat" where
  "probe_spacing b n = min (cb_probe_max b) (fl (cb_probe_base b * 2 ^ nat (n - cb_max_restarts b)))"

definition allow_probe :: "rat \<Rightarrow> breaker \<Rightarrow> bool \<times> breaker" where
  "allow_probe now b = (let b = prune now b; n = int (length (cb_timestamps b)) in
     if n < cb_max_restarts b then (False, b)
     else (probe_spacing b n \<le> fl (now - Max (set (cb_timestamps b))), b))"

definition is_open :: "rat \<Rightarrow> breaker \<Rightarrow> bool \<times> breaker" where
  "is_open now b = (let b = prune now b in (cb_max_restarts b \<le> int (length (cb_timestamps b)), b))"

definition record_restart :: "rat \<Rightarrow> breaker \<Rightarrow> breaker" where
  "record_restart now b = (let b = prune now b in b\<lparr>cb_timestamps := cb_timestamps b @ [now]\<rparr>)"

section \<open>The supervisor\<close>

record proc =
  p_argv :: "string list"

record supervisor =
  sp_cmd :: "string list"
  sp_breaker :: "breaker option"
  sp_proc :: "proc option"
  sp_last_exit_code :: "int option"
  sp_open_alerted :: bool
  sp_started_at_wall :: "rat option"
  sp_armed_reason :: "string option"

definition new_supervisor :: "string list \<Rightarrow> breaker option \<Rightarrow> supervisor" where
  "new_supervisor cmd breaker = \<lparr>sp_cmd = cmd, sp_breaker = breaker, sp_proc = None, sp_last_exit_code = None,
     sp_open_alerted = False, sp_started_at_wall = None, sp_armed_reason = None\<rparr>"

definition arm_restart_reason :: "string \<Rightarrow> supervisor \<Rightarrow> unit result \<times> supervisor" where
  "arm_restart_reason reason s =
     (if reason = [] \<or> hd reason = CHR ''-'' then (Inl (ValueError ''restart reason must be non-empty and not start with -''), s)
      else (Inr (), s\<lparr>sp_armed_reason := Some reason\<rparr>))"

definition next_cmd :: "supervisor \<Rightarrow> string list" where
  "next_cmd s = (case sp_armed_reason s of None \<Rightarrow> sp_cmd s | Some r \<Rightarrow> sp_cmd s @ [''--restart-reason'', r])"

definition is_running :: "int option \<Rightarrow> supervisor \<Rightarrow> bool" where
  "is_running poll s \<longleftrightarrow> sp_proc s \<noteq> None \<and> poll = None"

datatype run_result = Started | Running | Restarted | CircuitOpen

record ensure_env =
  en_now :: rat
  en_poll :: "int option"
  en_popen :: "unit result"
  en_wall :: rat

definition restart :: "ensure_env \<Rightarrow> supervisor \<Rightarrow> run_result result \<times> supervisor" where
  "restart env s = (case en_popen env of
       Inl e \<Rightarrow> (Inl e, s)
     | Inr _ \<Rightarrow> (Inr Restarted, s\<lparr>sp_proc := Some \<lparr>p_argv = next_cmd s\<rparr>, sp_armed_reason := None, sp_started_at_wall := Some (en_wall env)\<rparr>))"

definition refresh_alert :: "rat \<Rightarrow> supervisor \<Rightarrow> supervisor" where
  "refresh_alert now s = (case sp_breaker s of
       None \<Rightarrow> s
     | Some b \<Rightarrow> (let (opened, b') = is_open now b in
         s\<lparr>sp_breaker := Some b', sp_open_alerted := opened \<and> sp_open_alerted s\<rparr>))"

definition restart_dead :: "ensure_env \<Rightarrow> supervisor \<Rightarrow> run_result result \<times> supervisor" where
  "restart_dead env s = (case sp_breaker s of
       None \<Rightarrow> restart env s
     | Some b \<Rightarrow> (let (fast, b1) = allow_restart (en_now env) b in
         if fast then restart env (s\<lparr>sp_breaker := Some (record_restart (en_now env) b1)\<rparr>)
         else let (probe, b2) = allow_probe (en_now env) b1 in
           if probe then restart env (s\<lparr>sp_breaker := Some (record_restart (en_now env) b2)\<rparr>)
           else (Inr CircuitOpen, s\<lparr>sp_breaker := Some b2\<rparr>)))"

definition ensure_running :: "ensure_env \<Rightarrow> supervisor \<Rightarrow> run_result result \<times> supervisor" where
  "ensure_running env s = (let s = refresh_alert (en_now env) s in
     case sp_proc s of
       None \<Rightarrow> (case en_popen env of
           Inl e \<Rightarrow> (Inl e, s)
         | Inr _ \<Rightarrow> (Inr Started, s\<lparr>sp_proc := Some \<lparr>p_argv = sp_cmd s\<rparr>, sp_started_at_wall := Some (en_wall env)\<rparr>))
     | Some p \<Rightarrow> if en_poll env = None then (Inr Running, s)
         else restart_dead env (s\<lparr>sp_last_exit_code := en_poll env\<rparr>))"

definition take_circuit_alert :: "rat \<Rightarrow> supervisor \<Rightarrow> bool \<times> supervisor" where
  "take_circuit_alert now s = (case sp_breaker s of
       None \<Rightarrow> (False, s)
     | Some b \<Rightarrow> (let (opened, b') = is_open now b; s = s\<lparr>sp_breaker := Some b'\<rparr> in
         if \<not> opened then (False, s\<lparr>sp_open_alerted := False\<rparr>)
         else if sp_open_alerted s then (False, s)
         else (True, s\<lparr>sp_open_alerted := True\<rparr>)))"

section \<open>Stopping\<close>

datatype stop_result = Graceful | Killed | Not_running

text \<open>
  \<open>request_stop\<close> is whether a signal was sent. \<open>wait_stopped\<close> polls, waits up to the timeout
  (\<open>se_wait = None\<close> is \<open>TimeoutExpired\<close>), kills and waits without limit, and polls once more.
\<close>

record stop_env =
  se_check_poll :: "int option"
  se_request_poll :: "int option"
  se_wait_poll :: "int option"
  se_wait :: "int option"
  se_kill_wait :: int
  se_final_poll :: "int option"
  se_clock :: rat

definition request_stop :: "stop_env \<Rightarrow> supervisor \<Rightarrow> bool" where
  "request_stop env s \<longleftrightarrow> \<not> (sp_proc s = None \<or> se_request_poll env \<noteq> None)"

definition exit_code :: "stop_env \<Rightarrow> int \<Rightarrow> int option" where
  "exit_code env ret = (case se_final_poll env of Some code \<Rightarrow> Some code | None \<Rightarrow> Some ret)"

definition wait_stopped :: "stop_env \<Rightarrow> supervisor \<Rightarrow> stop_result \<times> supervisor" where
  "wait_stopped env s =
     (if sp_proc s = None \<or> se_wait_poll env \<noteq> None then (Not_running, s)
      else case se_wait env of
        Some ret \<Rightarrow> (Graceful, s\<lparr>sp_last_exit_code := exit_code env ret\<rparr>)
      | None \<Rightarrow> (Killed, s\<lparr>sp_last_exit_code := exit_code env (se_kill_wait env)\<rparr>))"

definition stop :: "stop_env \<Rightarrow> supervisor \<Rightarrow> stop_result \<times> supervisor" where
  "stop env s = (if \<not> request_stop env s then (Not_running, s) else wait_stopped env s)"

definition stop_for_restart :: "stop_env \<Rightarrow> string \<Rightarrow> supervisor \<Rightarrow> stop_result result \<times> supervisor" where
  "stop_for_restart env reason s =
     (if reason = [] \<or> hd reason = CHR ''-'' then (Inl (ValueError ''restart reason must be non-empty and not start with -''), s)
      else if sp_proc s = None \<or> se_check_poll env \<noteq> None then (Inr Not_running, s)
      else case stop env s of (result, s') \<Rightarrow>
        if result \<noteq> Not_running then (case arm_restart_reason reason s' of (Inl e, s'') \<Rightarrow> (Inl e, s'') | (Inr _, s'') \<Rightarrow> (Inr result, s''))
        else (Inr result, s'))"

text \<open>
  \<open>stop_supervisors\<close>: every child is signalled, then every child is awaited for what is left of the
  common deadline. The result has the signals sent, the timeouts given and the three counts.
\<close>

definition remaining :: "rat \<Rightarrow> rat \<Rightarrow> rat" where
  "remaining deadline now = (let r = fl (deadline - now) in if r < 0 then 0 else r)"

record stop_counts =
  graceful :: nat
  killed :: nat
  not_running :: nat

fun count_result :: "stop_result \<Rightarrow> stop_counts \<Rightarrow> stop_counts" where
  "count_result Graceful c = c\<lparr>graceful := graceful c + 1\<rparr>"
| "count_result Killed c = c\<lparr>killed := killed c + 1\<rparr>"
| "count_result Not_running c = c\<lparr>not_running := not_running c + 1\<rparr>"

fun await_all :: "rat \<Rightarrow> (stop_env \<times> supervisor) list \<Rightarrow> stop_counts \<Rightarrow> stop_counts \<times> rat list \<times> supervisor list" where
  "await_all deadline [] c = (c, [], [])"
| "await_all deadline ((env, s) # rest) c =
     (case wait_stopped env s of (result, s') \<Rightarrow>
      case await_all deadline rest (count_result result c) of (c', waits, sups) \<Rightarrow>
        (c', remaining deadline (se_clock env) # waits, s' # sups))"

definition stop_supervisors :: "rat \<Rightarrow> rat \<Rightarrow> (stop_env \<times> supervisor) list \<Rightarrow> bool list \<times> stop_counts \<times> rat list \<times> supervisor list" where
  "stop_supervisors now deadline_s sups =
     (let deadline = fl (now + deadline_s) in
      (map (\<lambda>(env, s). request_stop env s) sups,
       await_all deadline sups \<lparr>graceful = 0, killed = 0, not_running = 0\<rparr>))"

section \<open>What the breaker remembers\<close>

text \<open>
  The breaker's timestamps stand for the whole history \<open>hist\<close> of attempts from an instant on: pruned at
  any later instant, both give the same list.
\<close>

definition remembers :: "rat list \<Rightarrow> rat \<Rightarrow> breaker \<Rightarrow> bool" where
  "remembers hist now b \<longleftrightarrow> (\<forall>later \<ge> now. filter (\<lambda>t. t > fl (later - cb_window b)) (cb_timestamps b)
     = filter (\<lambda>t. t > fl (later - cb_window b)) hist)"

definition in_window :: "rat \<Rightarrow> rat \<Rightarrow> rat list \<Rightarrow> rat list" where
  "in_window w now hist = filter (\<lambda>t. t > fl (now - w)) hist"

lemma prune_sel [simp]:
  "cb_max_restarts (prune now b) = cb_max_restarts b" "cb_window (prune now b) = cb_window b"
  "cb_probe_base (prune now b) = cb_probe_base b" "cb_probe_max (prune now b) = cb_probe_max b"
  by (simp_all add: prune_def Let_def)

lemma prune_prune [simp]: "prune now (prune now b) = prune now b"
  by (simp add: prune_def Let_def)

lemma remembers_later: "remembers hist now b \<Longrightarrow> now \<le> later \<Longrightarrow> remembers hist later b"
  unfolding remembers_def by (meson order_trans)

lemma remembers_window: "remembers hist now b \<Longrightarrow> now \<le> later \<Longrightarrow> cb_timestamps (prune later b) = in_window (cb_window b) later hist"
  by (simp add: remembers_def prune_def in_window_def Let_def)

lemma remembers_prune: "remembers hist now b \<Longrightarrow> now \<le> later \<Longrightarrow> remembers hist later (prune later b)"
proof -
  assume r: "remembers hist now b" "now \<le> later"
  have "filter (\<lambda>t. t > fl (u - cb_window b)) (filter (\<lambda>t. t > fl (later - cb_window b)) (cb_timestamps b))
      = filter (\<lambda>t. t > fl (u - cb_window b)) hist" if "later \<le> u" for u
  proof -
    have "fl (later - cb_window b) \<le> fl (u - cb_window b)" using that by (intro fl_mono) simp
    then have "filter (\<lambda>t. t > fl (u - cb_window b)) (filter (\<lambda>t. t > fl (later - cb_window b)) (cb_timestamps b))
        = filter (\<lambda>t. t > fl (u - cb_window b)) (cb_timestamps b)" by (auto intro: filter_cong)
    with r that show ?thesis by (simp add: remembers_def)
  qed
  then show ?thesis by (simp add: remembers_def prune_def Let_def)
qed

lemma remembers_record: "remembers hist now b \<Longrightarrow> now \<le> later \<Longrightarrow> remembers (hist @ [later]) later (record_restart later b)"
  using remembers_prune [of hist now b later] by (simp add: record_restart_def Let_def remembers_def)

lemma filter_last_max:
  "sorted hist \<Longrightarrow> filter (\<lambda>t. c < t) hist \<noteq> [] \<Longrightarrow> Max (set (filter (\<lambda>t. c < t) hist)) = last (hist :: rat list)"
proof (induction hist rule: rev_induct)
  case (snoc x xs)
  have le: "\<forall>y \<in> set xs. y \<le> x" using snoc.prems(1) by (simp add: sorted_append)
  show ?case
  proof (cases "c < x")
    case True
    with le show ?thesis by (auto intro!: Max_eqI)
  next
    case False
    with le snoc.prems(2) show ?thesis by (auto simp: filter_empty_conv)
  qed
qed simp

section \<open>Runs of a supervisor\<close>

text \<open>
  A restart is attempted by a call that reports it, or by a call for a child started before that ends
  with the exception of \<open>Popen\<close>. \<open>attempts\<close> lists the instants of the attempts of a run.
\<close>

definition attempted :: "ensure_env \<Rightarrow> supervisor \<Rightarrow> bool" where
  "attempted env s \<longleftrightarrow> (case fst (ensure_running env s) of
     Inr Restarted \<Rightarrow> True | Inl _ \<Rightarrow> sp_proc s \<noteq> None | _ \<Rightarrow> False)"

fun attempts :: "ensure_env list \<Rightarrow> supervisor \<Rightarrow> rat list" where
  "attempts [] s = []"
| "attempts (env # envs) s = (if attempted env s then [en_now env] else []) @ attempts envs (snd (ensure_running env s))"

text \<open>Attempts are paced when each follows few attempts in its window, or its predecessor after the probe interval.\<close>

definition paced_at :: "breaker \<Rightarrow> rat list \<Rightarrow> rat \<Rightarrow> bool" where
  "paced_at b hist t \<longleftrightarrow> (let n = int (length (in_window (cb_window b) t hist)) in
     n < cb_max_restarts b \<or> hist \<noteq> [] \<and> probe_spacing b n \<le> fl (t - last hist))"

definition same_limits :: "breaker \<Rightarrow> breaker \<Rightarrow> bool" where
  "same_limits b c \<longleftrightarrow> cb_max_restarts b = cb_max_restarts c \<and> cb_window b = cb_window c
     \<and> cb_probe_base b = cb_probe_base c \<and> cb_probe_max b = cb_probe_max c"

lemma same_limits_trans: "same_limits a b \<Longrightarrow> same_limits b c \<Longrightarrow> same_limits a c"
  by (simp add: same_limits_def)

lemma same_limits_intros [simp]: "same_limits b b" "same_limits (prune now b) b" "same_limits (record_restart now b) b"
  by (simp_all add: same_limits_def record_restart_def Let_def)

lemma paced_at_limits: "same_limits b c \<Longrightarrow> paced_at b hist t = paced_at c hist t"
  by (simp add: same_limits_def paced_at_def probe_spacing_def)

lemma allowed_paced:
  assumes r: "remembers hist now b" "now \<le> t" "sorted hist" and max: "0 < cb_max_restarts b"
    and ok: "fst (allow_restart t b) \<or> fst (allow_probe t b)"
  shows "paced_at b hist t"
proof -
  let ?ts = "in_window (cb_window b) t hist"
  have ts: "cb_timestamps (prune t b) = ?ts" using r(1,2) by (rule remembers_window)
  show ?thesis
  proof (cases "int (length ?ts) < cb_max_restarts b")
    case False
    with max have "?ts \<noteq> []" by auto
    with r(3) have m: "Max (set ?ts) = last hist" unfolding in_window_def by (rule filter_last_max)
    have "hist \<noteq> []" using \<open>?ts \<noteq> []\<close> by (auto simp: in_window_def)
    then show ?thesis using ok False ts m
      by (auto simp: allow_restart_def allow_probe_def Let_def paced_at_def probe_spacing_def)
  qed (simp add: paced_at_def)
qed

lemma restart_breaker: "sp_breaker (snd (restart env s)) = sp_breaker s"
  by (cases "en_popen env") (simp_all add: restart_def)

lemma restart_attempt: "fst (restart env s) \<noteq> Inr CircuitOpen" "fst (restart env s) \<noteq> Inr Running" "fst (restart env s) \<noteq> Inr Started"
  by (cases "en_popen env"; simp add: restart_def)+

lemma ensure_running_breaker:
  assumes b: "sp_breaker s = Some b" and r: "remembers hist now b" "now \<le> en_now env" "sorted hist" and max: "0 < cb_max_restarts b"
  defines "s' \<equiv> snd (ensure_running env s)"
  shows "\<exists>b'. sp_breaker s' = Some b' \<and> same_limits b' b
    \<and> remembers (hist @ (if attempted env s then [en_now env] else [])) (en_now env) b'
    \<and> (attempted env s \<longrightarrow> paced_at b hist (en_now env))"
proof -
  let ?t = "en_now env" and ?b = "prune (en_now env) b" and ?s = "refresh_alert (en_now env) s"
  have rb: "remembers hist ?t ?b" using r(1,2) by (rule remembers_prune)
  have sb: "sp_breaker ?s = Some ?b" and sp: "sp_proc ?s = sp_proc s" using b by (simp_all add: refresh_alert_def is_open_def Let_def)
  have rr: "remembers (hist @ [?t]) ?t (record_restart ?t ?b)" using remembers_record [OF rb order_refl] .
  consider "sp_proc s = None" | p where "sp_proc s = Some p" "en_poll env = None" | p x where "sp_proc s = Some p" "en_poll env = Some x" by fastforce
  then show ?thesis
  proof cases
    case 1
    then have "\<not> attempted env s" by (cases "en_popen env") (simp_all add: attempted_def ensure_running_def Let_def sp)
    moreover have "sp_breaker s' = Some ?b" using 1 by (cases "en_popen env") (simp_all add: s'_def ensure_running_def Let_def sp sb)
    ultimately show ?thesis using rb by auto
  next
    case 2
    then show ?thesis using rb by (simp add: s'_def attempted_def ensure_running_def Let_def sp sb)
  next
    case 3
    let ?d = "?s\<lparr>sp_last_exit_code := en_poll env\<rparr>"
    have e: "ensure_running env s = restart_dead env ?d" using 3 by (simp add: ensure_running_def Let_def sp)
    have pr: "paced_at b hist ?t" if "fst (allow_restart ?t b) \<or> fst (allow_probe ?t b)" using allowed_paced [OF r max that] .
    consider "fst (allow_restart ?t ?b) \<or> fst (allow_probe ?t ?b)" | "\<not> fst (allow_restart ?t ?b)" "\<not> fst (allow_probe ?t ?b)" by blast
    then show ?thesis
    proof cases
      case 1
      then have "restart_dead env ?d = restart env (?d\<lparr>sp_breaker := Some (record_restart ?t ?b)\<rparr>)"
        by (auto simp: restart_dead_def sb allow_restart_def allow_probe_def Let_def)
      then have "sp_breaker s' = Some (record_restart ?t ?b)" "attempted env s"
        using 3 restart_attempt by (auto simp: s'_def e restart_breaker attempted_def split: sum.split run_result.split)
      moreover have "paced_at b hist ?t" using 1 pr by (simp add: allow_restart_def allow_probe_def Let_def probe_spacing_def)
      moreover have "same_limits (record_restart ?t ?b) b" using same_limits_trans [of _ ?b b] by simp
      ultimately show ?thesis using rr by auto
    next
      case 2
      then have "restart_dead env ?d = (Inr CircuitOpen, ?d\<lparr>sp_breaker := Some ?b\<rparr>)"
        by (auto simp: restart_dead_def sb allow_restart_def allow_probe_def Let_def)
      then show ?thesis using rb by (simp add: s'_def e attempted_def)
    qed
  qed
qed

lemma attempts_after: "sorted (map en_now envs) \<Longrightarrow> \<forall>env \<in> set envs. now \<le> en_now env \<Longrightarrow> \<forall>t \<in> set (attempts envs s). now \<le> t"
  by (induction envs arbitrary: s) auto

lemma attempts_paced:
  assumes "sp_breaker s = Some b" "remembers hist now b" "sorted hist" "\<forall>t \<in> set hist. t \<le> now" "0 < cb_max_restarts b"
    and "sorted (map en_now envs)" "\<forall>env \<in> set envs. now \<le> en_now env" "i < length (attempts envs s)"
  shows "paced_at b (hist @ take i (attempts envs s)) (attempts envs s ! i)"
  using assms
proof (induction envs arbitrary: s b hist now i)
  case Nil
  then show ?case by simp
next
  case (Cons env envs)
  let ?t = "en_now env" and ?a = "attempted env s" and ?s = "snd (ensure_running env s)"
  let ?h = "hist @ (if ?a then [?t] else [])"
  have t: "now \<le> ?t" using Cons.prems(7) by simp
  obtain b' where b': "sp_breaker ?s = Some b'" "same_limits b' b" "remembers ?h ?t b'" "?a \<longrightarrow> paced_at b hist ?t"
    using ensure_running_breaker [OF Cons.prems(1,2) t Cons.prems(3,5)] by blast
  have h: "sorted ?h" "\<forall>u \<in> set ?h. u \<le> ?t" using Cons.prems(3,4) t by (auto simp: sorted_append intro: order_trans)
  have later: "sorted (map en_now envs)" "\<forall>env \<in> set envs. ?t \<le> en_now env" using Cons.prems(6) by auto
  have max: "0 < cb_max_restarts b'" using b'(2) Cons.prems(5) by (simp add: same_limits_def)
  note ih = Cons.IH [OF b'(1,3) h max later]
  show ?case
  proof (cases "?a \<and> i = 0")
    case True
    then show ?thesis using b'(4) by simp
  next
    case False
    let ?j = "if ?a then i - 1 else i"
    have "?j < length (attempts envs ?s)" using Cons.prems(8) False by (auto split: if_splits)
    from ih [OF this] have "paced_at b (?h @ take ?j (attempts envs ?s)) (attempts envs ?s ! ?j)" using paced_at_limits [OF b'(2)] by simp
    moreover have "hist @ take i (attempts (env # envs) s) = ?h @ take ?j (attempts envs ?s)" "attempts (env # envs) s ! i = attempts envs ?s ! ?j"
      using False by (cases i; auto)+
    ultimately show ?thesis by simp
  qed
qed

section \<open>One alert per episode\<close>

text \<open>Between two alerts the breaker was found closed: the latch is only released by a closed breaker.\<close>

lemma alert_latches: "fst (take_circuit_alert now s) \<Longrightarrow> sp_open_alerted (snd (take_circuit_alert now s)) \<and> \<not> sp_open_alerted s"
  by (auto simp: take_circuit_alert_def Let_def split: option.splits prod.splits if_splits)

lemma latched_no_alert: "sp_open_alerted s \<Longrightarrow> \<not> fst (take_circuit_alert now s)"
  by (auto simp: take_circuit_alert_def Let_def split: option.splits prod.splits)

lemma restart_dead_alerted: "sp_open_alerted (snd (restart_dead env s)) = sp_open_alerted s"
  by (auto simp: restart_dead_def restart_def Let_def split: option.splits prod.splits sum.splits)

lemma ensure_running_latch:
  "sp_breaker s = Some b \<Longrightarrow> fst (is_open (en_now env) b) \<Longrightarrow> sp_open_alerted (snd (ensure_running env s)) = sp_open_alerted s"
  by (auto simp: ensure_running_def refresh_alert_def restart_dead_alerted Let_def split: option.splits prod.splits sum.splits)

lemma take_circuit_alert_latch:
  "sp_breaker s = Some b \<Longrightarrow> fst (is_open now b) \<Longrightarrow> sp_open_alerted s \<Longrightarrow> sp_open_alerted (snd (take_circuit_alert now s))"
  by (auto simp: take_circuit_alert_def Let_def split: prod.splits)

section \<open>Stopping all children\<close>

lemma count_result_sum: "graceful (count_result r c) + killed (count_result r c) + not_running (count_result r c)
    = graceful c + killed c + not_running c + 1"
  by (cases r) simp_all

lemma await_all_counts:
  "await_all deadline sups c = (c', waits, sups') \<Longrightarrow>
   graceful c' + killed c' + not_running c' = graceful c + killed c + not_running c + length sups
   \<and> length waits = length sups \<and> length sups' = length sups"
proof (induction sups arbitrary: c c' waits sups')
  case (Cons es sups)
  obtain env s where es: "es = (env, s)" by (cases es)
  obtain r s' where w: "wait_stopped env s = (r, s')" by (cases "wait_stopped env s")
  obtain d ws ss where a: "await_all deadline sups (count_result r c) = (d, ws, ss)" by (cases "await_all deadline sups (count_result r c)") auto
  from Cons.IH [OF a] Cons.prems show ?case using count_result_sum [of r c] by (auto simp: es w a)
qed simp

lemma await_all_waits: "await_all deadline sups c = (c', waits, sups') \<Longrightarrow> \<forall>w \<in> set waits. 0 \<le> w"
proof (induction sups arbitrary: c c' waits sups')
  case (Cons es sups)
  obtain env s where es: "es = (env, s)" by (cases es)
  obtain r s' where w: "wait_stopped env s = (r, s')" by (cases "wait_stopped env s")
  obtain d ws ss where a: "await_all deadline sups (count_result r c) = (d, ws, ss)" by (cases "await_all deadline sups (count_result r c)") auto
  from Cons.IH [OF a] Cons.prems show ?case by (auto simp: es w a remaining_def Let_def)
qed simp

lemma stop_for_restart_arms:
  "fst (stop_for_restart env reason s) = Inr r \<Longrightarrow> r \<noteq> Not_running \<Longrightarrow> sp_armed_reason (snd (stop_for_restart env reason s)) = Some reason"
  by (auto simp: stop_for_restart_def arm_restart_reason_def split: if_splits prod.splits)

lemma restart_uses_reason_once:
  "sp_armed_reason s = Some reason \<Longrightarrow> en_popen env = Inr () \<Longrightarrow>
   sp_proc (snd (restart env s)) = Some \<lparr>p_argv = sp_cmd s @ [''--restart-reason'', reason]\<rparr> \<and> next_cmd (snd (restart env s)) = sp_cmd s"
  by (simp add: restart_def next_cmd_def)

section \<open>The restart budget\<close>

text \<open>
  C20. Restarts are budgeted: over any run of a supervisor whose clock does not go back, children dying
  and \<open>Popen\<close> failing as they may, an attempt that finds the budget of its window spent comes at
  least the probe interval after the attempt before it.
\<close>

theorem restarts_budgeted:
  assumes "new_breaker max_restarts window_s base probe_max = Inr b" "fl base = base"
    and "sorted (map en_now envs)" "attempts envs (new_supervisor cmd (Some b)) = ts" "i < length ts"
    and "max_restarts \<le> int (length (in_window window_s (ts ! i) (take i ts)))"
  shows "0 < i \<and> base \<le> fl (ts ! i - ts ! (i - 1))"
proof -
  have b: "cb_max_restarts b = max_restarts" "cb_window b = window_s" "cb_probe_base b = base" "cb_probe_max b = probe_max"
    "cb_timestamps b = []" "0 < max_restarts" "base \<le> probe_max" "0 < base"
    using assms(1) by (auto simp: new_breaker_def split: if_splits)
  have "\<exists>now. \<forall>env \<in> set envs. now \<le> en_now env" using assms(3) by (cases envs) auto
  then obtain now where now: "\<forall>env \<in> set envs. now \<le> en_now env" by blast
  have r: "remembers [] now b" by (simp add: remembers_def b)
  have "paced_at b ([] @ take i ts) (ts ! i)"
    using attempts_paced [of "new_supervisor cmd (Some b)" b "[]" now envs i] r now assms b by (auto simp: new_supervisor_def)
  with assms(6) b have p: "take i ts \<noteq> []" "probe_spacing b (int (length (in_window window_s (ts ! i) (take i ts)))) \<le> fl (ts ! i - last (take i ts))"
    by (auto simp: paced_at_def Let_def)
  have "fl base \<le> fl (base * 2 ^ k)" for k using b(8) by (intro fl_mono) simp
  then have "base \<le> probe_spacing b n" for n using b assms(2) by (simp add: probe_spacing_def)
  moreover have "last (take i ts) = ts ! (i - 1)" using p(1) assms(5) by (simp add: last_conv_nth)
  ultimately show ?thesis using p by (metis order_trans take_eq_Nil gr0I)
qed

text \<open>One fast restart and, ten seconds later, a probe; the call in between finds the circuit open.\<close>

definition demo_envs :: "ensure_env list" where
  "demo_envs = map (\<lambda>t. \<lparr>en_now = t, en_poll = Some 1, en_popen = Inr (), en_wall = t\<rparr>) [0, 1, 5, 11]"

definition demo_breaker :: breaker where
  "demo_breaker = \<lparr>cb_max_restarts = 1, cb_window = 100, cb_probe_base = 10, cb_probe_max = 10, cb_timestamps = []\<rparr>"

lemma demo_attempts: "attempts demo_envs (new_supervisor [''collect''] (Some demo_breaker)) = [1, 11]"
  by code_simp

lemma demo_window: "length (in_window 100 11 [1]) = 1"
  by code_simp

theorem restarts_budgeted_witness:
  "new_breaker 1 100 10 10 = Inr demo_breaker
   \<and> attempts demo_envs (new_supervisor [''collect''] (Some demo_breaker)) = [1, 11] \<and> 10 \<le> fl ([1, 11] ! 1 - [1, 11] ! 0)"
proof -
  have b: "new_breaker 1 100 10 10 = Inr demo_breaker" by (simp add: new_breaker_def demo_breaker_def)
  have f: "fl 10 = 10" using fl_of_int [of 10] by simp
  have s: "sorted (map en_now demo_envs)" by (simp add: demo_envs_def)
  show ?thesis using restarts_budgeted [OF b f s demo_attempts, of 1] b demo_attempts demo_window by simp
qed

end
