(* ===== verification/Layout.thy ===== *)
theory Layout
  imports RealtimeContracts Errors IsoTime
begin

text \<open>
  Partition paths, \<open>src/storage/layout.py\<close>: where the journal of a stream and day lives, which archive
  object supersedes it, and the way back. A pure POSIX path is its list of components with a flag for
  the root; components that are empty or a single point are dropped, as \<open>pathlib\<close> does.
\<close>

section \<open>Paths\<close>

fun split_on :: "char \<Rightarrow> string \<Rightarrow> string list" where
  "split_on c [] = [[]]"
| "split_on c (x # xs) = (if x = c then [] # split_on c xs else (x # hd (split_on c xs)) # tl (split_on c xs))"

fun join_on :: "string \<Rightarrow> string list \<Rightarrow> string" where
  "join_on sep [] = []"
| "join_on sep [s] = s"
| "join_on sep (s # t # ss) = s @ sep @ join_on sep (t # ss)"

type_synonym path = "bool \<times> string list"

definition parts_of :: "string \<Rightarrow> string list" where
  "parts_of s = filter (\<lambda>p. p \<noteq> [] \<and> p \<noteq> ''.'') (split_on (CHR ''/'') s)"

definition path_join :: "path \<Rightarrow> string \<Rightarrow> path" where
  "path_join p s = (if s \<noteq> [] \<and> hd s = CHR ''/'' then (True, parts_of s) else (fst p, snd p @ parts_of s))"

definition pure_path :: "string list \<Rightarrow> path" where
  "pure_path segments = foldl path_join (False, []) segments"

definition parent :: "path \<Rightarrow> path" where
  "parent p = (fst p, butlast (snd p))"

definition path_name :: "path \<Rightarrow> string" where
  "path_name p = (if snd p = [] then [] else last (snd p))"

definition as_posix :: "path \<Rightarrow> string" where
  "as_posix p = (if fst p then ''/'' @ join_on ''/'' (snd p) else if snd p = [] then ''.'' else join_on ''/'' (snd p))"

definition startswith :: "string \<Rightarrow> string \<Rightarrow> bool" where
  "startswith s pre \<longleftrightarrow> take (length pre) s = pre"

text \<open>\<open>rpartition('/')\<close> of a text that has the separator.\<close>

definition rpartition_slash :: "string \<Rightarrow> string \<times> string" where
  "rpartition_slash s = (join_on ''/'' (butlast (split_on (CHR ''/'') s)), last (split_on (CHR ''/'') s))"

section \<open>The layout\<close>

definition L1_REPO_PREFIX :: string where "L1_REPO_PREFIX = ''l1/''"

definition L0_REPO_PREFIX :: string where "L0_REPO_PREFIX = ''l0/''"

definition QUARANTINE_REPO_PREFIX :: string where "QUARANTINE_REPO_PREFIX = ''quarantine/''"

definition L0_JOURNAL_GLOB :: string where "L0_JOURNAL_GLOB = ''*.jsonl.zst''"

record l0_partition_key =
  k_vendor :: string
  k_venue :: market_venue
  k_session :: market_session
  k_stream :: string
  k_day :: date

record l0_partition_route =
  pr_venue :: string
  pr_session :: market_session
  pr_stream :: string

definition make_partition_key :: "string \<Rightarrow> string \<Rightarrow> string \<Rightarrow> string \<Rightarrow> date \<Rightarrow> l0_partition_key option" where
  "make_partition_key vendor venue session stream day =
     (case (venue_of_value venue, session_of_value session) of
        (Some v, Some s) \<Rightarrow> Some \<lparr>k_vendor = vendor, k_venue = v, k_session = s, k_stream = stream, k_day = day\<rparr>
      | _ \<Rightarrow> None)"

definition l0_partition_relpath :: "l0_partition_key \<Rightarrow> path" where
  "l0_partition_relpath k = pure_path [k_vendor k, market_venue_value (k_venue k), market_session_value (k_session k), k_stream k,
     ''dt='' @ date_isoformat (k_day k)]"

definition l0_journal_file_name :: "nat \<Rightarrow> string option \<Rightarrow> string" where
  "l0_journal_file_name hour file_tag = (case file_tag of
       Some t \<Rightarrow> if t \<noteq> [] then show2 hour @ ''.'' @ t @ ''.jsonl.zst'' else show2 hour @ ''.jsonl.zst''
     | None \<Rightarrow> show2 hour @ ''.jsonl.zst'')"

definition l0_journal_file_glob :: "string option \<Rightarrow> string" where
  "l0_journal_file_glob file_tag = (case file_tag of
       Some t \<Rightarrow> if t \<noteq> [] then ''[0-9][0-9].'' @ t @ ''.jsonl.zst'' else ''[0-9][0-9].jsonl.zst''
     | None \<Rightarrow> ''[0-9][0-9].jsonl.zst'')"

definition route_for_l0_partition :: "path \<Rightarrow> l0_partition_route" where
  "route_for_l0_partition part =
     (let stream = path_name (parent part); session_name = path_name (parent (parent part)) in
      case session_of_value session_name of
        None \<Rightarrow> \<lparr>pr_venue = ''krx'', pr_session = REGULAR_SESSION, pr_stream = stream\<rparr>
      | Some session \<Rightarrow> \<lparr>pr_venue = path_name (parent (parent (parent part))), pr_session = session, pr_stream = stream\<rparr>)"

definition l1_relpath_for_l0_partition :: "path \<Rightarrow> path" where
  "l1_relpath_for_l0_partition rel = path_join (parent rel) (path_name rel @ ''.parquet'')"

definition l1_repo_path :: "path \<Rightarrow> string" where
  "l1_repo_path rel = L1_REPO_PREFIX @ as_posix rel"

definition l0_day_journal_glob :: "string \<Rightarrow> date \<Rightarrow> string" where
  "l0_day_journal_glob vendor day = vendor @ ''/**/dt='' @ date_isoformat day @ ''/'' @ L0_JOURNAL_GLOB"

definition quarantine_repo_path_for_l0 :: "string \<Rightarrow> string result" where
  "quarantine_repo_path_for_l0 repo_path =
     (if \<not> startswith repo_path L0_REPO_PREFIX then Inl (ValueError ''repo_path does not start with l0/'')
      else Inr (QUARANTINE_REPO_PREFIX @ drop (length L0_REPO_PREFIX) repo_path))"

text \<open>
  The date text of a name that \<open>_L1_DT_RE\<close> matches, \<open>None\<close> when it does not. \<open>match\<close> with a final \<open>$\<close>
  also accepts one line feed after \<open>.parquet\<close>.
\<close>

definition L1_DT_RE :: "string \<Rightarrow> string option" where
  "L1_DT_RE name = (let d = take 10 (drop 3 name) in
     if startswith name ''dt='' \<and> length d = 10 \<and> list_all is_digit (take 4 d) \<and> d ! 4 = CHR ''-''
        \<and> list_all is_digit (take 2 (drop 5 d)) \<and> d ! 7 = CHR ''-'' \<and> list_all is_digit (drop 8 d)
        \<and> drop 13 name \<in> {''.parquet'', ''.parquet'' @ [CHR 0x0A]}
     then Some d else None)"

definition date_fromisoformat :: "string \<Rightarrow> date option" where
  "date_fromisoformat s = (case parse_iso_date s of Some (d, []) \<Rightarrow> Some d | _ \<Rightarrow> None)"

definition l0_partition_for_l1 :: "string \<Rightarrow> string option" where
  "l0_partition_for_l1 repo_path =
     (if \<not> startswith repo_path L1_REPO_PREFIX then None
      else let rest = drop (length L1_REPO_PREFIX) repo_path in
        if rest = ''snapshot'' \<or> startswith rest ''snapshot/'' then None
        else if rest = ''derived'' \<or> startswith rest ''derived/'' then None
        else if CHR ''/'' \<notin> set rest then None
        else let (up, name) = rpartition_slash rest in
          if up = [] then None
          else case L1_DT_RE name of None \<Rightarrow> None
            | Some d \<Rightarrow> if date_fromisoformat d = None then None
                else Some (L0_REPO_PREFIX @ up @ ''/'' @ take (length name - length ''.parquet'') name))"

section \<open>Components of joined paths\<close>

definition plain :: "string \<Rightarrow> bool" where
  "plain s \<longleftrightarrow> s \<noteq> [] \<and> s \<noteq> ''.'' \<and> CHR ''/'' \<notin> set s"

lemma split_on_not_Nil [simp]: "split_on c s \<noteq> []"
  by (cases s) simp_all

lemma split_on_free: "c \<notin> set s \<Longrightarrow> split_on c s = [s]"
  by (induction s) auto

lemma split_on_append: "c \<notin> set s \<Longrightarrow> split_on c (s @ c # r) = s # split_on c r"
  by (induction s) auto

lemma split_join: "ss \<noteq> [] \<Longrightarrow> \<forall>s \<in> set ss. c \<notin> set s \<Longrightarrow> split_on c (join_on [c] ss) = ss"
  by (induction ss rule: induct_list012) (simp_all add: split_on_free split_on_append)

lemma parts_of_plain: "plain s \<Longrightarrow> parts_of s = [s]"
  by (simp add: parts_of_def plain_def split_on_free)

lemma path_join_plain: "plain s \<Longrightarrow> path_join p s = (fst p, snd p @ [s])"
proof -
  assume s: "plain s"
  then have "hd s \<noteq> CHR ''/''" unfolding plain_def by (metis hd_in_set)
  with s show ?thesis by (simp add: path_join_def parts_of_plain)
qed

lemma pure_path_plain: "\<forall>s \<in> set ss. plain s \<Longrightarrow> pure_path ss = (False, ss)"
proof (induction ss rule: rev_induct)
  case (snoc s ss)
  then show ?case by (simp add: pure_path_def path_join_plain)
qed (simp add: pure_path_def)

lemma digits_no_slash: "list_all is_digit s \<Longrightarrow> CHR ''/'' \<notin> set s"
  by (auto simp: list_all_iff is_digit_def)

lemma date_isoformat_no_slash: "CHR ''/'' \<notin> set (date_isoformat d)"
  using digits_no_slash by (simp add: date_isoformat_def show2_def show4_def zfill_digits show_nat_digits)

lemma plain_dt: "plain (''dt='' @ date_isoformat d)" "plain (''dt='' @ date_isoformat d @ ''.parquet'')"
  using date_isoformat_no_slash [of d] by (simp_all add: plain_def)

lemma plain_values [simp]: "plain (market_venue_value v)" "plain (market_session_value s)"
  by (cases v; simp add: plain_def) (cases s; simp add: plain_def)

definition wf_key :: "l0_partition_key \<Rightarrow> bool" where
  "wf_key k \<longleftrightarrow> plain (k_vendor k) \<and> plain (k_stream k) \<and> valid_date (k_day k) \<and> k_vendor k \<notin> {''snapshot'', ''derived''}"

definition key_parts :: "l0_partition_key \<Rightarrow> string list" where
  "key_parts k = [k_vendor k, market_venue_value (k_venue k), market_session_value (k_session k), k_stream k]"

lemma relpath_parts: "wf_key k \<Longrightarrow> l0_partition_relpath k = (False, key_parts k @ [''dt='' @ date_isoformat (k_day k)])"
  unfolding l0_partition_relpath_def key_parts_def wf_key_def using plain_dt(1) [of "k_day k"] by (subst pure_path_plain) auto

lemma l1_relpath_parts: "wf_key k \<Longrightarrow>
    l1_relpath_for_l0_partition (l0_partition_relpath k) = (False, key_parts k @ [''dt='' @ date_isoformat (k_day k) @ ''.parquet''])"
  using plain_dt(2) [of "k_day k"] by (simp add: l1_relpath_for_l0_partition_def relpath_parts parent_def path_name_def path_join_plain)

lemma date_fromisoformat_show: "valid_date d \<Longrightarrow> date_fromisoformat (date_isoformat d) = Some d"
  using parse_iso_date_show [of d "[]"] by (simp add: date_fromisoformat_def)

lemma date_isoformat_inject: "valid_date d \<Longrightarrow> valid_date e \<Longrightarrow> date_isoformat d = date_isoformat e \<longleftrightarrow> d = e"
  using date_fromisoformat_show by (metis option.inject)

lemma L1_DT_RE_show: "valid_date d \<Longrightarrow> L1_DT_RE (''dt='' @ date_isoformat d @ ''.parquet'') = Some (date_isoformat d)"
proof -
  assume d: "valid_date d"
  then have lt: "d_year d < 10 ^ 4" "d_month d < 10 ^ 2" "d_day d < 10 ^ 2"
    by (auto simp: valid_date_def days_in_month_def split: if_splits)
  obtain y m e where y: "show4 (d_year d) = y" "length y = 4" "list_all is_digit y"
    and m: "show2 (d_month d) = m" "length m = 2" "list_all is_digit m" and e: "show2 (d_day d) = e" "length e = 2" "list_all is_digit e"
    using lt zfill_length [of 4 "d_year d"] zfill_length [of 2 "d_month d"] zfill_length [of 2 "d_day d"]
    by (auto simp: show4_def show2_def zfill_digits show_nat_digits)
  show ?thesis using y m e by (simp add: L1_DT_RE_def Let_def startswith_def date_isoformat_def nth_append numeral_eq_Suc)
qed

section \<open>Files of a shard\<close>

text \<open>The part of \<open>fnmatch\<close> the layout uses: ranges, the star, the question mark and literal characters.\<close>

fun fnmatch :: "string \<Rightarrow> string \<Rightarrow> bool" where
  "fnmatch [] s = (s = [])"
| "fnmatch (x # p) s =
     (if x = CHR ''*'' then fnmatch p s \<or> (case s of [] \<Rightarrow> False | c # r \<Rightarrow> fnmatch (x # p) r)
      else case s of [] \<Rightarrow> False | c # r \<Rightarrow>
        if x = CHR ''?'' then fnmatch p r
        else if x = CHR ''['' \<and> 4 \<le> length p \<and> p ! 1 = CHR ''-'' \<and> p ! 3 = CHR '']''
        then of_char (p ! 0) \<le> (of_char c :: nat) \<and> of_char c \<le> (of_char (p ! 2) :: nat) \<and> fnmatch (drop 4 p) r
        else c = x \<and> fnmatch p r)"

definition literal :: "string \<Rightarrow> bool" where
  "literal p \<longleftrightarrow> set p \<inter> {CHR ''*'', CHR ''?'', CHR ''[''} = {}"

lemma fnmatch_literal: "literal p \<Longrightarrow> fnmatch p s \<longleftrightarrow> s = p"
proof (induction p arbitrary: s)
  case (Cons x p)
  then have "x \<noteq> CHR ''*''" "x \<noteq> CHR ''?''" "x \<noteq> CHR ''[''" "literal p" by (auto simp: literal_def)
  with Cons.IH show ?case by (cases s) auto
qed simp

lemma fnmatch_digit: "fnmatch (''[0-9]'' @ p) s \<longleftrightarrow> (case s of [] \<Rightarrow> False | c # r \<Rightarrow> is_digit c \<and> fnmatch p r)"
  by (cases s) (simp_all add: is_digit_def)

declare fnmatch.simps [simp del]

text \<open>The glob of a tag selects the files written under that tag and no other.\<close>

lemma glob_selects_tag:
  assumes "hour < 24" "\<forall>t. tag = Some t \<or> tag' = Some t \<longrightarrow> t \<noteq> [] \<and> literal t"
  shows "fnmatch (l0_journal_file_glob tag') (l0_journal_file_name hour tag) \<longleftrightarrow> tag = tag'"
proof -
  obtain a b where h: "show2 hour = [a, b]" "is_digit a" "is_digit b"
    using assms(1) zfill_length [of 2 hour] zfill_digits [of "show_nat hour" 2] show_nat_digits [of hour]
    by (auto simp: show2_def length_Suc_conv numeral_2_eq_2)
  have digits: "fnmatch (''[0-9][0-9]'' @ p) (show2 hour @ r) \<longleftrightarrow> fnmatch p r" for p r
  proof -
    have "fnmatch (''[0-9]'' @ ''[0-9]'' @ p) (a # b # r) \<longleftrightarrow> fnmatch p r" unfolding fnmatch_digit using h by simp
    then show ?thesis using h by simp
  qed
  have suffix: "fnmatch (''.'' @ t @ ''.jsonl.zst'') r \<longleftrightarrow> r = ''.'' @ t @ ''.jsonl.zst''" if "literal t" for t r
    using that by (intro fnmatch_literal) (auto simp: literal_def)
  have bare: "fnmatch ''.jsonl.zst'' r \<longleftrightarrow> r = ''.jsonl.zst''" for r by (intro fnmatch_literal) (simp add: literal_def)
  have len: "''.'' @ t @ ''.jsonl.zst'' = ''.jsonl.zst'' \<longleftrightarrow> False" for t by (auto dest: arg_cong [of _ _ length])
  note eqs = digits [of "''.'' @ t @ ''.jsonl.zst''" for t] digits [of "''.jsonl.zst''"]
  show ?thesis
    using assms(2) eqs suffix bare len
    by (cases tag; cases tag') (auto simp: l0_journal_file_glob_def l0_journal_file_name_def)
qed

section \<open>From partitions to archive objects and back\<close>

lemma route_of_relpath: "wf_key k \<Longrightarrow> route_for_l0_partition (l0_partition_relpath k)
    = \<lparr>pr_venue = market_venue_value (k_venue k), pr_session = k_session k, pr_stream = k_stream k\<rparr>"
proof -
  have "session_of_value (market_session_value (k_session k)) = Some (k_session k)" by (simp add: session_of_value_iff)
  then show "wf_key k \<Longrightarrow> ?thesis"
    by (simp add: route_for_l0_partition_def relpath_parts parent_def path_name_def key_parts_def butlast_append)
qed

lemma startswith_slash: "plain v \<Longrightarrow> plain p \<Longrightarrow> startswith (v @ ''/'' @ r) (p @ ''/'') \<longleftrightarrow> v = p"
proof
  assume v: "plain v" "plain p" and "startswith (v @ ''/'' @ r) (p @ ''/'')"
  then have "v @ ''/'' @ r = p @ ''/'' @ drop (length p + 1) (v @ ''/'' @ r)"
    unfolding startswith_def by (metis append_assoc append_take_drop_id length_append One_nat_def list.size(3,4) plus_nat.add_0)
  then have "hd (split_on (CHR ''/'') (v @ ''/'' @ r)) = p" using v(2) by (metis append_Cons append_Nil list.sel(1) plain_def split_on_append)
  with v(1) show "v = p" by (simp add: plain_def split_on_append)
qed (simp add: startswith_def)

lemma rpartition_parts:
  "ss \<noteq> [] \<Longrightarrow> \<forall>s \<in> set (ss @ [t]). plain s \<Longrightarrow> rpartition_slash (join_on ''/'' (ss @ [t])) = (join_on ''/'' ss, t)"
  using split_join [of "ss @ [t]" "CHR ''/''"] by (auto simp: rpartition_slash_def plain_def)

lemma key_parts_plain: "wf_key k \<Longrightarrow> \<forall>s \<in> set (key_parts k). plain s"
  by (simp add: key_parts_def wf_key_def)

lemma join_key: "join_on ''/'' (key_parts k @ [t]) = k_vendor k @ ''/'' @ join_on ''/'' (tl (key_parts k) @ [t])"
  "join_on ''/'' (key_parts k @ [t]) = join_on ''/'' (key_parts k) @ ''/'' @ t"
  by (simp_all add: key_parts_def)

lemma l0_of_l1:
  assumes k: "wf_key k"
  shows "l0_partition_for_l1 (l1_repo_path (l1_relpath_for_l0_partition (l0_partition_relpath k))) = Some (''l0/'' @ as_posix (l0_partition_relpath k))"
proof -
  let ?d = "date_isoformat (k_day k)"
  let ?name = "''dt='' @ ?d @ ''.parquet''"
  let ?rest = "join_on ''/'' (key_parts k @ [?name])"
  have repo: "l1_repo_path (l1_relpath_for_l0_partition (l0_partition_relpath k)) = ''l1/'' @ ?rest"
    unfolding l1_relpath_parts [OF k] l1_repo_path_def as_posix_def L1_REPO_PREFIX_def by simp
  have sw: "\<not> startswith ?rest ''snapshot/''" "\<not> startswith ?rest ''derived/''"
    using startswith_slash [of "k_vendor k" "''snapshot''"] startswith_slash [of "k_vendor k" "''derived''"] k
    unfolding join_key(1) by (auto simp: wf_key_def plain_def)
  have slash: "CHR ''/'' \<in> set ?rest" unfolding join_key(2) by simp
  then have ne: "?rest \<noteq> ''snapshot''" "?rest \<noteq> ''derived''" by auto
  have rp: "rpartition_slash ?rest = (join_on ''/'' (key_parts k), ?name)"
    using key_parts_plain [OF k] plain_dt(2) by (intro rpartition_parts) (auto simp: key_parts_def)
  have up: "join_on ''/'' (key_parts k) \<noteq> []" by (simp add: key_parts_def)
  have v: "valid_date (k_day k)" using k by (simp add: wf_key_def)
  have l0: "as_posix (l0_partition_relpath k) = join_on ''/'' (key_parts k) @ ''/'' @ ''dt='' @ ?d"
    unfolding relpath_parts [OF k] as_posix_def join_key(2) [symmetric] by simp
  show ?thesis
    unfolding repo l0 l0_partition_for_l1_def L1_REPO_PREFIX_def L0_REPO_PREFIX_def
    using sw slash ne rp up L1_DT_RE_show [OF v] date_fromisoformat_show [OF v]
    by (simp add: Let_def startswith_def [of "_ # _" "''l1/''"])
qed

lemma relpath_inject:
  assumes "wf_key k" "wf_key k'" "l0_partition_relpath k = l0_partition_relpath k'"
  shows "k = k'"
proof -
  have "key_parts k = key_parts k'" "date_isoformat (k_day k) = date_isoformat (k_day k')"
    using assms(3) unfolding relpath_parts [OF assms(1)] relpath_parts [OF assms(2)] by simp_all
  then show ?thesis using assms(1,2) by (cases k; cases k') (simp add: key_parts_def wf_key_def date_isoformat_inject)
qed

text \<open>
  One layout for writer, normaliser, offload and deletion: the archive object of a journal partition
  leads back to exactly that partition, the partition's directory names its route, and different
  partitions have different paths.
\<close>

theorem partition_round_trip:
  assumes "wf_key k"
  shows "l0_partition_for_l1 (l1_repo_path (l1_relpath_for_l0_partition (l0_partition_relpath k))) = Some (''l0/'' @ as_posix (l0_partition_relpath k))
    \<and> route_for_l0_partition (l0_partition_relpath k) = \<lparr>pr_venue = market_venue_value (k_venue k), pr_session = k_session k, pr_stream = k_stream k\<rparr>
    \<and> (\<forall>k'. wf_key k' \<longrightarrow> l0_partition_relpath k' = l0_partition_relpath k \<longrightarrow> k' = k)"
  using l0_of_l1 [OF assms] route_of_relpath [OF assms] relpath_inject assms by auto

definition demo_key :: l0_partition_key where
  "demo_key = \<lparr>k_vendor = ''ls'', k_venue = KRX, k_session = REGULAR_SESSION, k_stream = ''H0STASP0'', k_day = \<lparr>d_year = 2026, d_month = 9, d_day = 18\<rparr>\<rparr>"

theorem partition_round_trip_witness:
  "l0_partition_for_l1 (l1_repo_path (l1_relpath_for_l0_partition (l0_partition_relpath demo_key))) = Some (''l0/'' @ as_posix (l0_partition_relpath demo_key))
   \<and> as_posix (l0_partition_relpath demo_key) = ''ls/krx/regular/H0STASP0/dt=2026-09-18''"
proof -
  have k: "wf_key demo_key" by (simp add: wf_key_def demo_key_def plain_def valid_date_def days_in_month_def)
  have "as_posix (l0_partition_relpath demo_key) = ''ls/krx/regular/H0STASP0/dt=2026-09-18''"
    unfolding relpath_parts [OF k]
    by (simp add: as_posix_def key_parts_def demo_key_def date_isoformat_def show4_def show2_def zfill_def show_eval)
  then show ?thesis using partition_round_trip [OF k] by simp
qed

end
