(* ===== verification/ShardWatchdog.thy ===== *)
theory ShardWatchdog
  imports CollectionWindows Supervisor Layout
begin

text \<open>
  Staleness verdicts per shard, \<open>src/orchestration/shard_watchdog.py\<close>, and what the daemon does with
  them, \<open>_apply_shard_decisions\<close> of \<open>src/orchestration/daemon.py\<close>: log once per day, and stop at most one
  stale shard per cycle under a daily budget. Stopping is the supervisor's \<open>stop_for_restart\<close>.
\<close>

datatype shard_verdict = OK | STALE | VENUE_WIDE_SILENCE | BUDGET_EXHAUSTED | OUTSIDE_WINDOW | NOT_RUNNING

record shard_observation =
  so_key :: string
  so_venue :: string
  so_running :: bool
  so_started_at_wall :: "rat option"
  so_last_journal_wall :: "rat option"

record shard_decision =
  sd_key :: string
  sd_verdict :: shard_verdict
  sd_silent :: "rat option"
  sd_limit :: rat
  sd_restart :: bool

record shard_watchdog =
  wd_limit :: rat
  wd_max_restarts :: int
  wd_counts :: "(string \<times> date, int) dict"

definition new_watchdog :: "rat \<Rightarrow> int \<Rightarrow> shard_watchdog result" where
  "new_watchdog limit_s max_restarts_per_day =
     (if limit_s \<le> 0 then Inl (ValueError ''limit_s must be positive'')
      else if max_restarts_per_day < 0 then Inl (ValueError ''max_restarts_per_day must be >= 0'')
      else Inr \<lparr>wd_limit = limit_s, wd_max_restarts = max_restarts_per_day, wd_counts = []\<rparr>)"

definition used :: "shard_watchdog \<Rightarrow> string \<Rightarrow> date \<Rightarrow> int" where
  "used w key day = (case map_of (wd_counts w) (key, day) of None \<Rightarrow> 0 | Some n \<Rightarrow> n)"

definition watchdog_record :: "string \<Rightarrow> date \<Rightarrow> shard_watchdog \<Rightarrow> int \<times> shard_watchdog" where
  "watchdog_record key day w = (let n_today = used w key day + 1 in (n_today, w\<lparr>wd_counts := AList.update (key, day) n_today (wd_counts w)\<rparr>))"

section \<open>Verdicts of one cycle\<close>

definition baseline :: "rat \<Rightarrow> shard_observation \<Rightarrow> rat" where
  "baseline window_open ob =
     (let b = window_open;
          b = (case so_last_journal_wall ob of Some t \<Rightarrow> if t > b then t else b | None \<Rightarrow> b) in
      case so_started_at_wall ob of Some t \<Rightarrow> if t > b then t else b | None \<Rightarrow> b)"

definition silence :: "rat \<Rightarrow> rat \<Rightarrow> shard_observation \<Rightarrow> rat" where
  "silence now window_open ob = (let age = fl (now - baseline window_open ob) in if age < 0 then 0 else age)"

text \<open>The ages by key and the keys found stale, over the running shards in order.\<close>

definition silent_of :: "rat \<Rightarrow> rat \<Rightarrow> shard_observation list \<Rightarrow> (string, rat) dict" where
  "silent_of now window_open obs = fold (\<lambda>ob d. AList.update (so_key ob) (silence now window_open ob) d) (filter so_running obs) []"

definition stale_keys :: "shard_watchdog \<Rightarrow> rat \<Rightarrow> rat \<Rightarrow> shard_observation list \<Rightarrow> string list" where
  "stale_keys w now window_open obs = map so_key (filter (\<lambda>ob. silence now window_open ob > wd_limit w) (filter so_running obs))"

definition venue_running :: "string \<Rightarrow> shard_observation list \<Rightarrow> string list" where
  "venue_running venue obs = map so_key (filter (\<lambda>ob. so_venue ob = venue) (filter so_running obs))"

definition venue_stale :: "string list \<Rightarrow> string \<Rightarrow> shard_observation list \<Rightarrow> string list" where
  "venue_stale stale venue obs = filter (\<lambda>k. k \<in> set stale) (venue_running venue obs)"

definition venue_wide :: "string list \<Rightarrow> shard_observation list \<Rightarrow> string list" where
  "venue_wide stale obs = concat (map (\<lambda>ob. let keys = venue_running (so_venue ob) obs in
     if 2 \<le> length keys \<and> length (venue_stale stale (so_venue ob) obs) = length keys then keys else []) (filter so_running obs))"

definition decide :: "shard_watchdog \<Rightarrow> date \<Rightarrow> (string, rat) dict \<Rightarrow> string list \<Rightarrow> string list \<Rightarrow> shard_observation \<Rightarrow> shard_decision" where
  "decide w day silent stale wide ob =
     (let decision = (\<lambda>verdict s r. \<lparr>sd_key = so_key ob, sd_verdict = verdict, sd_silent = s, sd_limit = wd_limit w, sd_restart = r\<rparr>);
          age = map_of silent (so_key ob) in
      if \<not> so_running ob then decision NOT_RUNNING None False
      else if so_key ob \<in> set wide then decision VENUE_WIDE_SILENCE age False
      else if so_key ob \<in> set stale then
        (if wd_max_restarts w \<le> used w (so_key ob) day then decision BUDGET_EXHAUSTED age False else decision STALE age True)
      else decision OK age False)"

definition evaluate :: "shard_watchdog \<Rightarrow> shard_observation list \<Rightarrow> rat \<Rightarrow> rat \<Rightarrow> bool \<Rightarrow> date \<Rightarrow> shard_decision list" where
  "evaluate w obs now window_open inside day =
     (if \<not> inside then
        map (\<lambda>ob. \<lparr>sd_key = so_key ob, sd_verdict = OUTSIDE_WINDOW, sd_silent = None, sd_limit = wd_limit w, sd_restart = False\<rparr>) obs
      else let stale = stale_keys w now window_open obs in
        map (decide w day (silent_of now window_open obs) stale (venue_wide stale obs)) obs)"

text \<open>
  The newest modification time of a shard's own files. \<open>glob part pattern\<close> lists the files of a
  partition directory with their times, \<open>None\<close> where listing or reading the time fails.
\<close>

definition shard_last_journal_wall ::
  "(path \<Rightarrow> string \<Rightarrow> rat option list option) \<Rightarrow> string \<Rightarrow> string \<Rightarrow> string \<Rightarrow> string list \<Rightarrow> date \<Rightarrow> int \<Rightarrow> rat option" where
  "shard_last_journal_wall glob vendor venue session streams day shard_index =
     fold (\<lambda>stream latest. case make_partition_key vendor venue session stream day of
         None \<Rightarrow> latest
       | Some key \<Rightarrow> (case glob (l0_partition_relpath key) (l0_journal_file_glob (Some (''s'' @ show_int shard_index))) of
           None \<Rightarrow> latest
         | Some files \<Rightarrow> fold (\<lambda>mtime latest. case (mtime, latest) of
               (None, _) \<Rightarrow> latest
             | (Some m, None) \<Rightarrow> Some m
             | (Some m, Some l) \<Rightarrow> if m > l then Some m else Some l) files latest)) streams None"

section \<open>Applying the verdicts\<close>

datatype shard_log = VenueWideLog string nat | BudgetLog string | StaleLog string stop_result int

record shard_alerts =
  shard_venue_wide_warned :: "(string \<times> date) list"
  shard_budget_alerted :: "(string \<times> date) list"
  shard_stale_restarts :: int

definition warn_venue :: "shard_decision list \<Rightarrow> string \<Rightarrow> date \<Rightarrow> shard_alerts \<Rightarrow> shard_log list \<times> shard_alerts" where
  "warn_venue ds venue day st = (let wide = filter (\<lambda>d. sd_verdict d = VENUE_WIDE_SILENCE) ds in
     if wide \<noteq> [] \<and> (venue, day) \<notin> set (shard_venue_wide_warned st)
     then ([VenueWideLog venue (length wide)], st\<lparr>shard_venue_wide_warned := (venue, day) # shard_venue_wide_warned st\<rparr>)
     else ([], st))"

fun alert_budget :: "shard_decision list \<Rightarrow> date \<Rightarrow> shard_alerts \<Rightarrow> shard_log list \<times> shard_alerts" where
  "alert_budget [] day st = ([], st)"
| "alert_budget (d # ds) day st =
     (if sd_verdict d = BUDGET_EXHAUSTED \<and> (sd_key d, day) \<notin> set (shard_budget_alerted st)
      then (case alert_budget ds day (st\<lparr>shard_budget_alerted := (sd_key d, day) # shard_budget_alerted st\<rparr>) of
              (logs, st') \<Rightarrow> (BudgetLog (sd_key d) # logs, st'))
      else alert_budget ds day st)"

record shard_fleet =
  sf_watchdog :: shard_watchdog
  sf_alerts :: shard_alerts
  sf_supervisors :: "(string, supervisor) dict"

text \<open>The last loop: the first decision that asks for a restart of a supervised shard is carried out.
  The reason is a constant that \<open>stop_for_restart\<close> accepts, so its error branch is never taken (\<open>stop_for_restart_stale\<close>).\<close>

fun stop_first :: "(string \<Rightarrow> stop_env) \<Rightarrow> shard_decision list \<Rightarrow> date \<Rightarrow> shard_fleet \<Rightarrow> (bool \<times> shard_log list) \<times> shard_fleet" where
  "stop_first env [] day f = ((False, []), f)"
| "stop_first env (d # ds) day f =
     (if \<not> sd_restart d then stop_first env ds day f
      else case map_of (sf_supervisors f) (sd_key d) of
        None \<Rightarrow> stop_first env ds day f
      | Some child \<Rightarrow>
          (case stop_for_restart (env (sd_key d)) ''stale_child'' child of
             (Inl _, child') \<Rightarrow> ((False, []), f)
           | (Inr result, child') \<Rightarrow>
               (case watchdog_record (sd_key d) day (sf_watchdog f) of (n_today, w') \<Rightarrow>
                 ((True, [StaleLog (sd_key d) result n_today]),
                  f\<lparr>sf_watchdog := w', sf_alerts := (sf_alerts f)\<lparr>shard_stale_restarts := shard_stale_restarts (sf_alerts f) + 1\<rparr>,
                    sf_supervisors := AList.update (sd_key d) child' (sf_supervisors f)\<rparr>))))"

definition apply_shard_decisions ::
  "(string \<Rightarrow> stop_env) \<Rightarrow> shard_decision list \<Rightarrow> string \<Rightarrow> date \<Rightarrow> shard_fleet \<Rightarrow> (bool \<times> shard_log list) \<times> shard_fleet" where
  "apply_shard_decisions env ds venue day f =
     (case warn_venue ds venue day (sf_alerts f) of (logs1, st1) \<Rightarrow>
      case alert_budget ds day st1 of (logs2, st2) \<Rightarrow>
      case stop_first env ds day (f\<lparr>sf_alerts := st2\<rparr>) of ((stopped, logs3), f') \<Rightarrow> ((stopped, logs1 @ logs2 @ logs3), f'))"

text \<open>A cycle of the daemon for one venue.\<close>

record cycle_env =
  cy_observations :: "shard_observation list"
  cy_now :: rat
  cy_window_open :: rat
  cy_in_window :: bool
  cy_day :: date
  cy_venue :: string
  cy_stop :: "string \<Rightarrow> stop_env"

definition watch_cycle :: "cycle_env \<Rightarrow> shard_fleet \<Rightarrow> (bool \<times> shard_log list) \<times> shard_fleet" where
  "watch_cycle env f = apply_shard_decisions (cy_stop env)
     (evaluate (sf_watchdog f) (cy_observations env) (cy_now env) (cy_window_open env) (cy_in_window env) (cy_day env))
     (cy_venue env) (cy_day env) f"

fun watch_run :: "cycle_env list \<Rightarrow> shard_fleet \<Rightarrow> (date \<times> shard_log) list \<times> shard_fleet" where
  "watch_run [] f = ([], f)"
| "watch_run (env # envs) f = (case watch_cycle env f of ((_, logs), f') \<Rightarrow>
     case watch_run envs f' of (logs', f'') \<Rightarrow> (map (Pair (cy_day env)) logs @ logs', f''))"

section \<open>What a restart needs\<close>

definition justified :: "rat \<Rightarrow> cycle_env \<Rightarrow> string \<Rightarrow> bool" where
  "justified limit env key \<longleftrightarrow> cy_in_window env \<and>
     (\<exists>ob \<in> set (cy_observations env). so_key ob = key \<and> so_running ob
        \<and> limit < silence (cy_now env) (cy_window_open env) ob
        \<and> (venue_running (so_venue ob) (cy_observations env) = [key]
           \<or> (\<exists>ob' \<in> set (cy_observations env). so_running ob' \<and> so_venue ob' = so_venue ob
                \<and> silence (cy_now env) (cy_window_open env) ob' \<le> limit)))"

lemma stale_key_iff:
  assumes "distinct (map so_key obs)" "ob \<in> set obs" "so_running ob"
  shows "so_key ob \<in> set (stale_keys w now wo obs) \<longleftrightarrow> wd_limit w < silence now wo ob"
  using assms by (auto simp: stale_keys_def inj_on_def distinct_map)

lemma not_venue_wide:
  assumes d: "distinct (map so_key obs)" and ob: "ob \<in> set obs" "so_running ob"
    and narrow: "so_key ob \<notin> set (venue_wide (stale_keys w now wo obs) obs)"
  shows "venue_running (so_venue ob) obs = [so_key ob]
    \<or> (\<exists>ob' \<in> set obs. so_running ob' \<and> so_venue ob' = so_venue ob \<and> silence now wo ob' \<le> wd_limit w)"
proof (cases "2 \<le> length (venue_running (so_venue ob) obs)")
  case True
  let ?keys = "venue_running (so_venue ob) obs" and ?stale = "stale_keys w now wo obs"
  have mem: "so_key ob \<in> set ?keys" using ob by (auto simp: venue_running_def)
  have "length (venue_stale ?stale (so_venue ob) obs) \<noteq> length ?keys"
    using narrow mem ob True by (auto simp: venue_wide_def Let_def split: if_splits)
  then obtain k where "k \<in> set ?keys" "k \<notin> set ?stale" unfolding venue_stale_def by (metis filter_True)
  then obtain ob' where "ob' \<in> set obs" "so_running ob'" "so_venue ob' = so_venue ob" "so_key ob' \<notin> set ?stale" by (auto simp: venue_running_def)
  then show ?thesis using stale_key_iff [OF d, of ob'] by (meson not_le)
next
  case False
  moreover have "so_key ob \<in> set (venue_running (so_venue ob) obs)" using ob by (auto simp: venue_running_def)
  ultimately show ?thesis by (cases "venue_running (so_venue ob) obs") (auto simp: Suc_le_eq)
qed

lemma restart_decision:
  assumes d: "distinct (map so_key (cy_observations env))"
    and dec: "dc \<in> set (evaluate w (cy_observations env) (cy_now env) (cy_window_open env) (cy_in_window env) (cy_day env))" "sd_restart dc"
  shows "justified (wd_limit w) env (sd_key dc) \<and> used w (sd_key dc) (cy_day env) < wd_max_restarts w"
proof -
  let ?obs = "cy_observations env"
  let ?stale = "stale_keys w (cy_now env) (cy_window_open env) ?obs"
  have inw: "cy_in_window env" using dec by (auto simp: evaluate_def split: if_splits)
  with dec(1) obtain ob where ob: "ob \<in> set ?obs"
    and dc: "dc = decide w (cy_day env) (silent_of (cy_now env) (cy_window_open env) ?obs) ?stale (venue_wide ?stale ?obs) ob"
    by (auto simp: evaluate_def Let_def)
  have r: "so_running ob" "so_key ob \<notin> set (venue_wide ?stale ?obs)" "so_key ob \<in> set ?stale" "used w (so_key ob) (cy_day env) < wd_max_restarts w" "sd_key dc = so_key ob"
    using dec(2) unfolding dc decide_def Let_def by (auto split: if_splits)
  show ?thesis
    using inw ob r stale_key_iff [OF d ob r(1)] not_venue_wide [OF d ob r(1,2)] by (auto simp: justified_def)
qed

section \<open>The daily budget\<close>

definition stale_log :: "string \<Rightarrow> date \<Rightarrow> date \<times> shard_log \<Rightarrow> bool" where
  "stale_log key day l \<longleftrightarrow> (case l of (d, StaleLog k _ _) \<Rightarrow> d = day \<and> k = key | _ \<Rightarrow> False)"

definition stale_count :: "string \<Rightarrow> date \<Rightarrow> (date \<times> shard_log) list \<Rightarrow> int" where
  "stale_count key day logs = int (length (filter (stale_log key day) logs))"

definition within_budget :: "shard_watchdog \<Rightarrow> bool" where
  "within_budget w \<longleftrightarrow> (\<forall>key day. used w key day \<le> wd_max_restarts w)"

lemma used_record: "used (snd (watchdog_record key day w)) k d = used w k d + (if k = key \<and> d = day then 1 else 0)"
  by (auto simp: watchdog_record_def used_def Let_def)

lemma record_sel [simp]: "wd_limit (snd (watchdog_record key day w)) = wd_limit w" "wd_max_restarts (snd (watchdog_record key day w)) = wd_max_restarts w"
  by (simp_all add: watchdog_record_def Let_def)

lemma stop_for_restart_stale: "\<exists>r. fst (stop_for_restart env ''stale_child'' s) = Inr r"
  by (auto simp: stop_for_restart_def arm_restart_reason_def split: prod.splits)

text \<open>The last loop leaves the watchdog alone or records one restart, of a decision that asked for it.\<close>

lemma stop_first_cases:
  assumes "stop_first env ds day f = ((stopped, logs), f')"
  shows "(logs = [] \<and> sf_watchdog f' = sf_watchdog f)
    \<or> (\<exists>d r n. d \<in> set ds \<and> sd_restart d \<and> logs = [StaleLog (sd_key d) r n] \<and> sf_watchdog f' = snd (watchdog_record (sd_key d) day (sf_watchdog f)))"
  using assms
proof (induction ds)
  case (Cons d ds)
  show ?case
  proof (cases "sd_restart d \<and> map_of (sf_supervisors f) (sd_key d) \<noteq> None")
    case True
    then obtain child where child: "map_of (sf_supervisors f) (sd_key d) = Some child" by auto
    obtain r where "fst (stop_for_restart (env (sd_key d)) ''stale_child'' child) = Inr r" using stop_for_restart_stale by blast
    then obtain child' where st: "stop_for_restart (env (sd_key d)) ''stale_child'' child = (Inr r, child')" by (metis prod.collapse)
    obtain n w' where rec: "watchdog_record (sd_key d) day (sf_watchdog f) = (n, w')" by (cases "watchdog_record (sd_key d) day (sf_watchdog f)")
    have "logs = [StaleLog (sd_key d) r n]" "sf_watchdog f' = w'" using Cons.prems True by (auto simp: child st rec)
    with True rec show ?thesis by auto
  next
    case False
    then have "stop_first env ds day f = ((stopped, logs), f')" using Cons.prems by (auto split: if_splits option.splits)
    from Cons.IH [OF this] show ?thesis by auto
  qed
qed simp

lemma warn_venue_no_stale: "StaleLog k r n \<notin> set (fst (warn_venue ds venue day st))"
  by (auto simp: warn_venue_def Let_def)

lemma alert_budget_no_stale: "StaleLog k r n \<notin> set (fst (alert_budget ds day st))"
  by (induction ds day st rule: alert_budget.induct) (auto split: prod.splits)

lemma no_stale_count: "(\<And>k r n. StaleLog k r n \<notin> set logs) \<Longrightarrow> stale_count key day (map (Pair d) logs) = 0"
  by (auto simp: stale_count_def stale_log_def filter_empty_conv split: shard_log.splits)

lemma stale_count_append: "stale_count key day (xs @ ys) = stale_count key day xs + stale_count key day ys"
  by (simp add: stale_count_def)

lemma watch_cycle_step:
  assumes d: "distinct (map so_key (cy_observations env))" and c: "watch_cycle env f = ((stopped, logs), f')"
  defines "w \<equiv> sf_watchdog f" and "w' \<equiv> sf_watchdog f'"
  shows "wd_limit w' = wd_limit w \<and> wd_max_restarts w' = wd_max_restarts w
    \<and> (within_budget w \<longrightarrow> within_budget w')
    \<and> (\<forall>key day. used w' key day = used w key day + stale_count key day (map (Pair (cy_day env)) logs))
    \<and> (\<forall>k r n. StaleLog k r n \<in> set logs \<longrightarrow> justified (wd_limit w) env k)"
proof -
  let ?ds = "evaluate w (cy_observations env) (cy_now env) (cy_window_open env) (cy_in_window env) (cy_day env)"
  obtain l1 st1 where l1: "warn_venue ?ds (cy_venue env) (cy_day env) (sf_alerts f) = (l1, st1)" by (cases "warn_venue ?ds (cy_venue env) (cy_day env) (sf_alerts f)")
  obtain l2 st2 where l2: "alert_budget ?ds (cy_day env) st1 = (l2, st2)" by (cases "alert_budget ?ds (cy_day env) st1")
  let ?f = "f\<lparr>sf_alerts := st2\<rparr>"
  obtain b l3 f3 where l3: "stop_first (cy_stop env) ?ds (cy_day env) ?f = ((b, l3), f3)" by (cases "stop_first (cy_stop env) ?ds (cy_day env) ?f") auto
  have logs: "logs = l1 @ l2 @ l3" "f' = f3" using c l1 l2 l3 by (simp_all add: watch_cycle_def apply_shard_decisions_def w_def)
  have quiet: "StaleLog k r n \<notin> set l1 \<union> set l2" for k r n
    using warn_venue_no_stale [of k r n ?ds "cy_venue env" "cy_day env" "sf_alerts f"] alert_budget_no_stale [of k r n ?ds "cy_day env" st1] l1 l2 by simp
  have count: "stale_count key day (map (Pair (cy_day env)) logs) = stale_count key day (map (Pair (cy_day env)) l3)" for key day
    using no_stale_count [of l1] no_stale_count [of l2] quiet by (simp add: logs stale_count_append)
  from stop_first_cases [OF l3] show ?thesis
  proof (elim disjE conjE exE)
    assume "l3 = []" "sf_watchdog f3 = sf_watchdog ?f"
    then show ?thesis using quiet count logs by (auto simp: w_def w'_def stale_count_def)
  next
    fix dc r n
    assume dc: "dc \<in> set ?ds" "sd_restart dc" "l3 = [StaleLog (sd_key dc) r n]" "sf_watchdog f3 = snd (watchdog_record (sd_key dc) (cy_day env) (sf_watchdog ?f))"
    from restart_decision [OF d dc(1,2)] have j: "justified (wd_limit w) env (sd_key dc)" "used w (sd_key dc) (cy_day env) < wd_max_restarts w" by auto
    have w': "w' = snd (watchdog_record (sd_key dc) (cy_day env) w)" using dc(4) logs by (simp add: w_def w'_def)
    have "used w' key day = used w key day + stale_count key day (map (Pair (cy_day env)) logs)" for key day
      unfolding count dc(3) w' used_record by (auto simp: stale_count_def stale_log_def)
    moreover have "within_budget w'" if "within_budget w" using that j(2) unfolding within_budget_def w' used_record by auto
    ultimately show ?thesis using j(1) quiet logs dc(3) by (auto simp: w')
  qed
qed

lemma watch_run_step:
  assumes "\<forall>env \<in> set envs. distinct (map so_key (cy_observations env))" "watch_run envs f = (logs, f')" "within_budget (sf_watchdog f)"
  shows "within_budget (sf_watchdog f') \<and> wd_max_restarts (sf_watchdog f') = wd_max_restarts (sf_watchdog f)
    \<and> (\<forall>key day. used (sf_watchdog f') key day = used (sf_watchdog f) key day + stale_count key day logs)
    \<and> (\<forall>d k r n. (d, StaleLog k r n) \<in> set logs \<longrightarrow> (\<exists>env \<in> set envs. cy_day env = d \<and> justified (wd_limit (sf_watchdog f)) env k))"
  using assms
proof (induction envs arbitrary: f logs)
  case Nil
  then show ?case by (simp add: stale_count_def)
next
  case (Cons env envs)
  obtain b l1 f1 where c: "watch_cycle env f = ((b, l1), f1)" by (cases "watch_cycle env f") auto
  obtain l2 f2 where r: "watch_run envs f1 = (l2, f2)" by (cases "watch_run envs f1")
  have logs: "logs = map (Pair (cy_day env)) l1 @ l2" "f' = f2" using Cons.prems(2) c r by auto
  from watch_cycle_step [OF _ c] Cons.prems
  have s: "wd_limit (sf_watchdog f1) = wd_limit (sf_watchdog f)" "wd_max_restarts (sf_watchdog f1) = wd_max_restarts (sf_watchdog f)"
    "within_budget (sf_watchdog f1)" "\<forall>key day. used (sf_watchdog f1) key day = used (sf_watchdog f) key day + stale_count key day (map (Pair (cy_day env)) l1)"
    "\<forall>k r n. StaleLog k r n \<in> set l1 \<longrightarrow> justified (wd_limit (sf_watchdog f)) env k" by auto
  from Cons.IH [OF _ r [folded logs(2)] s(3)] Cons.prems(1)
  have t: "within_budget (sf_watchdog f')" "wd_max_restarts (sf_watchdog f') = wd_max_restarts (sf_watchdog f1)"
    "\<forall>key day. used (sf_watchdog f') key day = used (sf_watchdog f1) key day + stale_count key day l2"
    "\<forall>d k r n. (d, StaleLog k r n) \<in> set l2 \<longrightarrow> (\<exists>env \<in> set envs. cy_day env = d \<and> justified (wd_limit (sf_watchdog f1)) env k)" by auto
  have "\<exists>env' \<in> set (env # envs). cy_day env' = d \<and> justified (wd_limit (sf_watchdog f)) env' k" if "(d, StaleLog k r n) \<in> set logs" for d k r n
  proof (cases "(d, StaleLog k r n) \<in> set l2")
    case True
    then show ?thesis using t(4) s(1) by (metis list.set_intros(2))
  next
    case False
    then show ?thesis using that s(5) by (auto simp: logs)
  qed
  with s t show ?case by (simp add: logs stale_count_append)
qed

text \<open>
  C21. The watchdog restarts within its budget and for a reason: over any run of cycles a shard is
  restarted at most the configured number of times a day, and only inside its window, when it is
  running, silent beyond the limit, and not merely part of a silence of its whole venue.
\<close>

theorem restarts_within_daily_budget:
  assumes "new_watchdog limit_s max_restarts = Inr (sf_watchdog f)"
    and "\<forall>env \<in> set envs. distinct (map so_key (cy_observations env))" "watch_run envs f = (logs, f')"
  shows "(\<forall>key day. stale_count key day logs \<le> max_restarts)
    \<and> (\<forall>d k r n. (d, StaleLog k r n) \<in> set logs \<longrightarrow> (\<exists>env \<in> set envs. cy_day env = d \<and> justified limit_s env k))"
proof -
  have w: "wd_limit (sf_watchdog f) = limit_s" "wd_max_restarts (sf_watchdog f) = max_restarts" "wd_counts (sf_watchdog f) = []" "0 \<le> max_restarts"
    using assms(1) by (auto simp: new_watchdog_def split: if_splits) (metis shard_watchdog.select_convs)+
  then have "within_budget (sf_watchdog f)" "used (sf_watchdog f) k d = 0" for k d by (simp_all add: within_budget_def used_def)
  with watch_run_step [OF assms(2,3)] w show ?thesis unfolding within_budget_def by (metis add_0)
qed

text \<open>Shard \<open>a\<close> stays silent while \<open>b\<close> delivers; with a budget of one the second cycle only reports it.\<close>

definition demo_day :: date where "demo_day = \<lparr>d_year = 2026, d_month = 9, d_day = 18\<rparr>"

definition demo_cycle :: cycle_env where
  "demo_cycle = \<lparr>cy_observations =
      [\<lparr>so_key = ''a'', so_venue = ''krx'', so_running = True, so_started_at_wall = None, so_last_journal_wall = Some 10\<rparr>,
       \<lparr>so_key = ''b'', so_venue = ''krx'', so_running = True, so_started_at_wall = None, so_last_journal_wall = Some 99\<rparr>],
     cy_now = 100, cy_window_open = 0, cy_in_window = True, cy_day = demo_day, cy_venue = ''krx'',
     cy_stop = (\<lambda>_. \<lparr>se_check_poll = None, se_request_poll = None, se_wait_poll = None, se_wait = Some 0, se_kill_wait = 0, se_final_poll = None, se_clock = 0\<rparr>)\<rparr>"

definition demo_fleet :: shard_fleet where
  "demo_fleet = \<lparr>sf_watchdog = \<lparr>wd_limit = 30, wd_max_restarts = 1, wd_counts = []\<rparr>,
     sf_alerts = \<lparr>shard_venue_wide_warned = [], shard_budget_alerted = [], shard_stale_restarts = 0\<rparr>,
     sf_supervisors = [(''a'', (new_supervisor [''collect''] None)\<lparr>sp_proc := Some \<lparr>p_argv = [''collect'']\<rparr>\<rparr>)]\<rparr>"

lemma demo_watch_run: "fst (watch_run [demo_cycle, demo_cycle] demo_fleet) = [(demo_day, StaleLog ''a'' Graceful 1), (demo_day, BudgetLog ''a'')]"
  by code_simp

theorem restarts_within_daily_budget_witness:
  "fst (watch_run [demo_cycle, demo_cycle] demo_fleet) = [(demo_day, StaleLog ''a'' Graceful 1), (demo_day, BudgetLog ''a'')]
   \<and> stale_count ''a'' demo_day [(demo_day, StaleLog ''a'' Graceful 1), (demo_day, BudgetLog ''a'')] \<le> 1
   \<and> (\<exists>env \<in> set [demo_cycle, demo_cycle]. justified 30 env ''a'')"
proof -
  have w: "new_watchdog 30 1 = Inr (sf_watchdog demo_fleet)" by (simp add: new_watchdog_def demo_fleet_def)
  have d: "\<forall>env \<in> set [demo_cycle, demo_cycle]. distinct (map so_key (cy_observations env))" by (simp add: demo_cycle_def)
  obtain f' where r: "watch_run [demo_cycle, demo_cycle] demo_fleet = ([(demo_day, StaleLog ''a'' Graceful 1), (demo_day, BudgetLog ''a'')], f')"
    using demo_watch_run by (metis prod.collapse)
  show ?thesis using restarts_within_daily_budget [OF w d r] demo_watch_run by auto
qed

end
