(* ===== verification/LsSharding.thy ===== *)
theory LsSharding
  imports Errors Layout "HOL-Library.Product_Lexorder" "HOL-Library.Multiset"
begin

text \<open>
  LS session limits and sharding, \<open>src/realtime/ls_limits.py\<close> and \<open>src/realtime/ls_sharding.py\<close>: priority
  order of subscription pairs, whole-symbol truncation at the subscription cap, and blocks of whole
  symbols per session. Symbols, streams and tier names are texts over the ASCII letters.
\<close>

section \<open>Limits\<close>

definition LS_WARN_RATIO :: rat where "LS_WARN_RATIO = fl (4 / 5)"

definition TIER_RANK :: "(string \<times> nat) list" where
  "TIER_RANK = [(''core'', 0), (''event'', 1), (''events'', 1), (''follow'', 2)]"

definition LS_LIMIT_OBSERVED_MARKERS :: "string list" where "LS_LIMIT_OBSERVED_MARKERS = []"

record ls_guard_config =
  max_subscriptions :: int
  max_sessions :: int
  gc_tiers :: "(string, string) dict option"
  gc_order :: "string list option"

definition ls_limit_status :: "int \<Rightarrow> int \<Rightarrow> string" where
  "ls_limit_status n_pairs cap =
     (if n_pairs > cap then ''VIOLATION'' else if of_int n_pairs > fl (LS_WARN_RATIO * of_int cap) then ''WARN'' else ''OK'')"

definition lower_char :: "char \<Rightarrow> char" where
  "lower_char c = (let n = (of_char c :: nat) in if 65 \<le> n \<and> n \<le> 90 then char_of (n + 32) else c)"

type_synonym pair = "string \<times> string"

text \<open>The position of a symbol: the dictionary keeps the last index of a symbol named twice.\<close>

definition positions_in :: "string list \<Rightarrow> (string, nat) dict" where
  "positions_in order = fold (\<lambda>(i, symbol) d. AList.update symbol i d) (enumerate 0 order) []"

definition tier_rank :: "(string, string) dict option \<Rightarrow> string \<Rightarrow> nat" where
  "tier_rank tier_of symbol = (case tier_of of
       None \<Rightarrow> 0
     | Some tiers \<Rightarrow> (case map_of TIER_RANK (map lower_char (case map_of tiers symbol of None \<Rightarrow> [] | Some t \<Rightarrow> t)) of
         None \<Rightarrow> 1 | Some r \<Rightarrow> r))"

definition pair_key :: "(string, string) dict option \<Rightarrow> (string, nat) dict \<Rightarrow> nat \<Rightarrow> nat \<times> pair \<Rightarrow> nat \<times> nat \<times> nat" where
  "pair_key tier_of position fallback entry = (case entry of (index, (symbol, _)) \<Rightarrow>
     (tier_rank tier_of symbol, (case map_of position symbol of None \<Rightarrow> fallback | Some p \<Rightarrow> p), index))"

definition prioritize_ls_pairs :: "pair list \<Rightarrow> (string, string) dict option \<Rightarrow> string list option \<Rightarrow> pair list" where
  "prioritize_ls_pairs pairs tier_of order =
     (if tier_of = None \<and> order = None then pairs
      else let position = (case order of None \<Rightarrow> [] | Some ord \<Rightarrow> positions_in ord);
               fallback = length position + length pairs in
        map snd (sort_key (pair_key tier_of position fallback) (enumerate 0 pairs)))"

definition group_append :: "pair \<Rightarrow> (string, pair list) dict \<Rightarrow> (string, pair list) dict" where
  "group_append p d = AList.update (fst p) ((case map_of d (fst p) of None \<Rightarrow> [] | Some g \<Rightarrow> g) @ [p]) d"

fun keep_groups :: "int \<Rightarrow> (string, pair list) dict \<Rightarrow> pair list \<times> string list \<times> int \<Rightarrow> pair list \<times> string list \<times> int" where
  "keep_groups cap [] acc = acc"
| "keep_groups cap ((symbol, grp) # rest) (kept, dropped, n) =
     (if n + int (length grp) \<le> cap then keep_groups cap rest (kept @ grp, dropped, n + int (length grp))
      else keep_groups cap rest (kept, dropped @ [symbol], n))"

definition split_ls_pairs :: "pair list \<Rightarrow> int \<Rightarrow> (string, string) dict option \<Rightarrow> string list option \<Rightarrow> pair list \<times> string list" where
  "split_ls_pairs pairs cap tier_of order =
     (let grouped = fold group_append (prioritize_ls_pairs pairs tier_of order) [];
          (kept, dropped, _) = keep_groups cap grouped ([], [], 0) in (kept, dropped))"

definition contains :: "string \<Rightarrow> string \<Rightarrow> bool" where
  "contains text part \<longleftrightarrow> (\<exists>i \<in> {..length text}. take (length part) (drop i text) = part)"

definition classify_ls_close_reason :: "string option \<Rightarrow> string" where
  "classify_ls_close_reason detail = (let text = map lower_char (case detail of None \<Rightarrow> [] | Some d \<Rightarrow> d) in
     if text \<noteq> [] \<and> list_ex (contains text) LS_LIMIT_OBSERVED_MARKERS then ''ls_limit'' else ''unknown'')"

definition is_vendor_close_detail :: "string option \<Rightarrow> bool" where
  "is_vendor_close_detail detail \<longleftrightarrow> (let text = (case detail of None \<Rightarrow> [] | Some d \<Rightarrow> d) in
     contains text ''WSMsgType.CLOSE'' \<or> contains text ''code='' \<and> contains text ''reason='')"

definition stream_disconnect_reason :: "string \<Rightarrow> string option \<Rightarrow> string" where
  "stream_disconnect_reason pump_reason detail =
     (if pump_reason = ''disconnect'' \<and> is_vendor_close_detail detail then classify_ls_close_reason detail else pump_reason)"

text \<open>
  The guard. \<open>manifest = None\<close> is a session without a manifest, otherwise it is the manifest's note; the
  note is extended and never repeated.
\<close>

definition extend_note :: "string option \<Rightarrow> string \<Rightarrow> string option" where
  "extend_note previous note = (case previous of
       Some p \<Rightarrow> if p \<noteq> [] \<and> \<not> contains p note then Some (p @ ''; '' @ note) else if p \<noteq> [] then Some p else Some note
     | None \<Rightarrow> Some note)"

definition apply_ls_subscription_guard :: "ls_guard_config \<Rightarrow> pair list \<Rightarrow> string option option \<Rightarrow> pair list \<times> string option option" where
  "apply_ls_subscription_guard cfg pairs manifest =
     (if ls_limit_status (int (length pairs)) (max_subscriptions cfg) \<noteq> ''VIOLATION'' then (pairs, manifest)
      else let (kept, dropped) = split_ls_pairs pairs (max_subscriptions cfg) (gc_tiers cfg) (gc_order cfg);
               note = ''ls_limit cap='' @ show_int (max_subscriptions cfg) @ '' dropped='' @ show_nat (length dropped) @ '' symbols='' @ join_on '','' dropped in
        (kept, map_option (\<lambda>previous. extend_note previous note) manifest))"

section \<open>Shards\<close>

record ls_shard =
  ls_index :: nat
  ls_symbols :: "string list"
  ls_streams :: "string list"
  ls_reserve :: int
  ls_standby :: bool

text \<open>\<open>dict.fromkeys\<close>: every element once, at its first position.\<close>

fun fromkeys :: "'a list \<Rightarrow> 'a list" where
  "fromkeys [] = []"
| "fromkeys (x # xs) = x # filter (\<lambda>y. y \<noteq> x) (fromkeys xs)"

fun plan_blocks :: "nat list \<Rightarrow> nat \<Rightarrow> int \<Rightarrow> int \<Rightarrow> string list \<Rightarrow> string list \<Rightarrow> ls_shard list \<times> string list" where
  "plan_blocks [] last_index base_capacity dynamic_reserve streams ordered = ([], ordered)"
| "plan_blocks (index # rest) last_index base_capacity dynamic_reserve streams ordered =
     (let reserve = (if index = last_index \<and> 1 \<le> index then dynamic_reserve else 0);
          n = nat (max 0 (base_capacity - reserve));
          (shards, overflow) = plan_blocks rest last_index base_capacity dynamic_reserve streams (drop n ordered) in
      (\<lparr>ls_index = index, ls_symbols = take n ordered, ls_streams = streams, ls_reserve = reserve, ls_standby = (index = 0)\<rparr> # shards, overflow))"

definition ordered_symbols_of :: "string list \<Rightarrow> (string, string) dict \<Rightarrow> string list \<Rightarrow> string list" where
  "ordered_symbols_of symbols tiers streams =
     (let unique = fromkeys symbols; pairs = concat (map (\<lambda>symbol. map (Pair symbol) streams) unique) in
      fromkeys (map fst (prioritize_ls_pairs pairs (Some tiers) (Some unique))))"

definition plan_ls_shards ::
  "string list \<Rightarrow> (string, string) dict \<Rightarrow> string list \<Rightarrow> int \<Rightarrow> int \<Rightarrow> int \<Rightarrow> int \<Rightarrow> (ls_shard list \<times> string list) result" where
  "plan_ls_shards symbols tiers streams active_sessions pairs_per_session dynamic_reserve max_sess =
     (if streams = [] then Inl (ValueError ''streams must not be empty'')
      else if pairs_per_session < int (length streams) then Inl (ValueError ''pairs_per_session cannot hold one symbol'')
      else if \<not> (1 \<le> active_sessions \<and> active_sessions \<le> max_sess - 1) then Inl (ValueError ''active_sessions out of range'')
      else if dynamic_reserve < 0 then Inl (ValueError ''dynamic_reserve_symbols must be >= 0'')
      else let ordered = ordered_symbols_of symbols tiers streams;
               base_capacity = pairs_per_session div int (length streams);
               shard_count = (if ordered \<noteq> [] then nat active_sessions else 1) in
        Inr (plan_blocks [0..<shard_count] (shard_count - 1) base_capacity dynamic_reserve streams ordered))"

section \<open>Ordering\<close>

lemma prioritize_mset: "mset (prioritize_ls_pairs pairs tier_of order) = mset pairs"
proof -
  have "mset (map snd (sort_key k (enumerate 0 pairs))) = mset pairs" for k :: "nat \<times> pair \<Rightarrow> nat \<times> nat \<times> nat"
  proof -
    have "mset (map snd (sort_key k (enumerate 0 pairs))) = image_mset snd (mset (enumerate 0 pairs))" by simp
    also have "\<dots> = mset (map snd (enumerate 0 pairs))" by (simp only: mset_map)
    also have "map snd (enumerate 0 pairs) = pairs" by (simp only: map_snd_enumerate)
    finally show ?thesis .
  qed
  then show ?thesis by (simp add: prioritize_ls_pairs_def Let_def)
qed

lemma prioritize_set: "set (prioritize_ls_pairs pairs tier_of order) = set pairs"
  using prioritize_mset by (metis set_mset_mset)

lemma prioritize_tiers:
  assumes "tier_of \<noteq> None \<or> order \<noteq> None"
  shows "sorted (map (tier_rank tier_of \<circ> fst) (prioritize_ls_pairs pairs tier_of order))"
proof -
  have "sorted (map (tier_rank tier_of \<circ> fst \<circ> snd) (sort_key (pair_key tier_of p fb) (enumerate 0 pairs)))" for p fb
  proof -
    have eq: "tier_rank tier_of \<circ> fst \<circ> snd = fst \<circ> pair_key tier_of p fb" by (auto simp: pair_key_def)
    have "sorted (map fst (xs :: (nat \<times> nat \<times> nat) list))" if "sorted xs" for xs
      using that by (induction xs) (auto simp: less_eq_prod_def)
    then show ?thesis unfolding eq using sorted_sort_key [of "pair_key tier_of p fb" "enumerate 0 pairs"] by (metis map_map)
  qed
  then show ?thesis using assms by (auto simp: prioritize_ls_pairs_def Let_def comp_assoc)
qed

lemma fromkeys_set [simp]: "set (fromkeys xs) = set xs"
  by (induction xs) auto

lemma fromkeys_distinct [simp]: "distinct (fromkeys xs)"
  by (induction xs) auto

lemma fromkeys_sorted: "sorted (map f xs) \<Longrightarrow> sorted (map f (fromkeys xs))"
  by (induction xs) (auto simp: sorted_filter)

lemma ordered_symbols_props:
  assumes "streams \<noteq> []"
  shows "set (ordered_symbols_of symbols tiers streams) = set symbols" "distinct (ordered_symbols_of symbols tiers streams)"
    "sorted (map (tier_rank (Some tiers)) (ordered_symbols_of symbols tiers streams))"
proof -
  let ?pairs = "concat (map (\<lambda>symbol. map (Pair symbol) streams) (fromkeys symbols))"
  have "fst ` set ?pairs = set symbols" using assms by (force simp: image_iff neq_Nil_conv)
  then show "set (ordered_symbols_of symbols tiers streams) = set symbols"
    by (simp add: ordered_symbols_of_def Let_def prioritize_set)
  show "distinct (ordered_symbols_of symbols tiers streams)" by (simp add: ordered_symbols_of_def Let_def)
  show "sorted (map (tier_rank (Some tiers)) (ordered_symbols_of symbols tiers streams))"
    unfolding ordered_symbols_of_def Let_def using prioritize_tiers [of "Some tiers" "Some (fromkeys symbols)" ?pairs]
    by (intro fromkeys_sorted) simp
qed

section \<open>Blocks\<close>

lemma plan_blocks_concat: "plan_blocks idx l b r streams xs = (shards, rest) \<Longrightarrow> concat (map ls_symbols shards) @ rest = xs"
proof (induction idx arbitrary: xs shards rest)
  case (Cons i idx)
  then show ?case by (auto simp: Let_def split: prod.splits if_splits)
qed simp

lemma plan_blocks_length: "plan_blocks idx l b r streams xs = (shards, rest) \<Longrightarrow> map ls_index shards = idx"
proof (induction idx arbitrary: xs shards rest)
  case (Cons i idx)
  then show ?case by (auto simp: Let_def split: prod.splits if_splits)
qed simp

lemma plan_blocks_shard:
  "plan_blocks idx l b r streams xs = (shards, rest) \<Longrightarrow> sh \<in> set shards \<Longrightarrow>
   ls_streams sh = streams \<and> (ls_standby sh \<longleftrightarrow> ls_index sh = 0) \<and> ls_reserve sh \<in> {0, r} \<and> int (length (ls_symbols sh)) \<le> max 0 (b - ls_reserve sh)
   \<and> (rest \<noteq> [] \<longrightarrow> int (length (ls_symbols sh)) = max 0 (b - ls_reserve sh))"
proof (induction idx arbitrary: xs shards rest)
  case (Cons i idx)
  let ?rv = "if i = l \<and> 1 \<le> i then r else 0"
  let ?n = "nat (max 0 (b - ?rv))"
  obtain ss rs where r: "plan_blocks idx l b r streams (drop ?n xs) = (ss, rs)" by (cases "plan_blocks idx l b r streams (drop ?n xs)")
  have sh: "shards = \<lparr>ls_index = i, ls_symbols = take ?n xs, ls_streams = streams, ls_reserve = ?rv, ls_standby = (i = 0)\<rparr> # ss" "rest = rs"
    using Cons.prems(1) r by (simp_all only: plan_blocks.simps Let_def split_conv prod.inject)
  have full: "length (take ?n xs) = ?n" if "rest \<noteq> []"
    using plan_blocks_concat [OF r] that sh(2) by (cases "?n \<le> length xs") auto
  show ?case
  proof (cases "sh \<in> set ss")
    case True
    then show ?thesis using Cons.IH [OF r] sh(2) by simp
  next
    case False
    then have "sh = \<lparr>ls_index = i, ls_symbols = take ?n xs, ls_streams = streams, ls_reserve = ?rv, ls_standby = (i = 0)\<rparr>" using Cons.prems(2) sh(1) by simp
    moreover have "int (length (take ?n xs)) \<le> max 0 (b - ?rv)" by simp
    moreover have "rest \<noteq> [] \<longrightarrow> int (length (take ?n xs)) = max 0 (b - ?rv)" using full by (metis int_nat_eq max.cobounded1)
    ultimately show ?thesis by (simp only: ls_shard.simps) simp
  qed
qed simp

section \<open>Truncation at the cap\<close>

lemma keep_groups_cap: "keep_groups cap gs (kept, dropped, int (length kept)) = (kept', dropped', n') \<Longrightarrow> int (length kept) \<le> cap \<Longrightarrow> int (length kept') \<le> cap"
proof (induction gs arbitrary: kept dropped)
  case (Cons g gs)
  obtain s grp where g: "g = (s, grp)" by (cases g)
  show ?case
  proof (cases "int (length kept) + int (length grp) \<le> cap")
    case True
    then show ?thesis using Cons.IH [of "kept @ grp" dropped] Cons.prems g by simp
  next
    case False
    then show ?thesis using Cons.IH [of kept "dropped @ [s]"] Cons.prems g by simp
  qed
qed simp

definition consistent :: "(string, pair list) dict \<Rightarrow> bool" where
  "consistent gs \<longleftrightarrow> (\<forall>(s, g) \<in> set gs. \<forall>p \<in> set g. fst p = s)"

lemma group_append_mset: "mset (concat (map snd (group_append p d))) = add_mset p (mset (concat (map snd d)))"
  by (induction d) (auto simp: group_append_def)

lemma group_append_consistent: "consistent d \<Longrightarrow> consistent (group_append p d)"
  by (induction d) (fastforce simp: group_append_def consistent_def split: if_splits)+

lemma grouped_mset: "mset (concat (map snd (fold group_append ps d))) = mset ps + mset (concat (map snd d))"
  by (induction ps arbitrary: d) (simp_all add: group_append_mset)

lemma grouped_wf: "wf_dict d \<Longrightarrow> wf_dict (fold group_append ps d)"
  by (induction ps arbitrary: d) (simp_all add: group_append_def)

lemma grouped_consistent: "consistent d \<Longrightarrow> consistent (fold group_append ps d)"
  by (induction ps arbitrary: d) (simp_all add: group_append_consistent)

lemma keep_groups_dropped:
  "keep_groups cap gs (kept, dropped, n) = (kept', dropped', n') \<Longrightarrow> set dropped \<subseteq> set dropped' \<and> set dropped' \<subseteq> set dropped \<union> set (dict_keys gs)"
proof (induction gs arbitrary: kept dropped n)
  case (Cons g gs)
  obtain s grp where g: "g = (s, grp)" by (cases g)
  show ?case
  proof (cases "n + int (length grp) \<le> cap")
    case True
    then show ?thesis using Cons.IH [of "kept @ grp" dropped "n + int (length grp)"] Cons.prems g by auto
  next
    case False
    then show ?thesis using Cons.IH [of kept "dropped @ [s]" n] Cons.prems g by auto
  qed
qed simp

lemma keep_groups_whole:
  assumes "keep_groups cap gs (kept, dropped, n) = (kept', dropped', n')" "wf_dict gs" "consistent gs" "set dropped \<inter> set (dict_keys gs) = {}"
  shows "mset kept' = mset kept + filter_mset (\<lambda>p. fst p \<notin> set dropped') (mset (concat (map snd gs)))"
  using assms
proof (induction gs arbitrary: kept dropped n)
  case (Cons g gs)
  obtain s grp where g: "g = (s, grp)" by (cases g)
  have c: "consistent gs" "\<forall>p \<in> set grp. fst p = s" "wf_dict gs" "s \<notin> set (dict_keys gs)" "s \<notin> set dropped" using Cons.prems g by (auto simp: consistent_def)
  show ?case
  proof (cases "n + int (length grp) \<le> cap")
    case True
    then have k: "keep_groups cap gs (kept @ grp, dropped, n + int (length grp)) = (kept', dropped', n')" using Cons.prems(1) g by simp
    have "s \<notin> set dropped'" using keep_groups_dropped [OF k] c by auto
    then have "filter (\<lambda>p. fst p \<notin> set dropped') grp = grp" using c(2) by (simp add: filter_id_conv)
    then have "filter_mset (\<lambda>p. fst p \<notin> set dropped') (mset grp) = mset grp" by (metis mset_filter)
    with Cons.IH [OF k c(3,1)] Cons.prems(4) g show ?thesis by (auto simp: ac_simps)
  next
    case False
    then have k: "keep_groups cap gs (kept, dropped @ [s], n) = (kept', dropped', n')" using Cons.prems(1) g by simp
    have "s \<in> set dropped'" using keep_groups_dropped [OF k] by auto
    then have "filter (\<lambda>p. fst p \<notin> set dropped') grp = []" using c(2) by (simp add: filter_empty_conv)
    then have "filter_mset (\<lambda>p. fst p \<notin> set dropped') (mset grp) = {#}" by (metis mset.simps(1) mset_filter)
    with Cons.IH [OF k c(3,1)] Cons.prems(4) c(4) g show ?thesis by auto
  qed
qed simp

text \<open>
  Truncation drops whole symbols: what is kept fits the cap and is everything except the pairs of the
  dropped symbols.
\<close>

lemma split_whole_symbols:
  assumes "split_ls_pairs pairs cap tier_of order = (kept, dropped)" "0 \<le> cap"
  shows "int (length kept) \<le> cap \<and> mset kept = filter_mset (\<lambda>p. fst p \<notin> set dropped) (mset pairs)"
proof -
  let ?g = "fold group_append (prioritize_ls_pairs pairs tier_of order) []"
  obtain n where k: "keep_groups cap ?g ([], [], 0) = (kept, dropped, n)"
    using assms(1) by (auto simp: split_ls_pairs_def Let_def split: prod.splits)
  have "mset kept = filter_mset (\<lambda>p. fst p \<notin> set dropped) (mset (concat (map snd ?g)))"
    using keep_groups_whole [OF k grouped_wf grouped_consistent] by (simp add: consistent_def)
  moreover have "mset (concat (map snd ?g)) = mset pairs" using grouped_mset [of "prioritize_ls_pairs pairs tier_of order" "[]"] by (simp add: prioritize_mset)
  moreover have "int (length kept) \<le> cap" using keep_groups_cap [of cap ?g "[]" "[]"] k assms(2) by simp
  ultimately show ?thesis by simp
qed

lemma guard_within_cap: "0 \<le> max_subscriptions cfg \<Longrightarrow> int (length (fst (apply_ls_subscription_guard cfg pairs m))) \<le> max_subscriptions cfg"
  using split_whole_symbols
  by (auto simp: apply_ls_subscription_guard_def ls_limit_status_def Let_def split: prod.splits if_splits)

section \<open>The plan\<close>

text \<open>
  C28. A shard plan places every candidate symbol exactly once, in a shard or in the overflow, in
  priority order by tier. Each shard's subscriptions fit its session, with the reserve for symbols
  added later where the session has room for it, the shards are numbered from zero and leave one of the
  vendor's sessions free, and nothing overflows while a shard has room.
\<close>

theorem ls_plan_places_symbols:
  assumes "plan_ls_shards symbols tiers streams active_sessions pairs_per_session dynamic_reserve max_sess = Inr (shards, overflow)"
  defines "placed \<equiv> concat (map ls_symbols shards) @ overflow"
  shows "distinct placed \<and> set placed = set symbols \<and> sorted (map (tier_rank (Some tiers)) placed)
    \<and> map ls_index shards = [0..<length shards] \<and> int (length shards) \<le> max_sess - 1
    \<and> (\<forall>sh \<in> set shards. int (length (ls_symbols sh) * length streams) \<le> pairs_per_session
        \<and> (ls_reserve sh \<le> pairs_per_session div int (length streams) \<longrightarrow>
             (int (length (ls_symbols sh)) + ls_reserve sh) * int (length streams) \<le> pairs_per_session)
        \<and> (overflow \<noteq> [] \<longrightarrow> int (length (ls_symbols sh)) = max 0 (pairs_per_session div int (length streams) - ls_reserve sh)))"
proof -
  let ?o = "ordered_symbols_of symbols tiers streams" and ?b = "pairs_per_session div int (length streams)"
  let ?n = "if ?o \<noteq> [] then nat active_sessions else 1"
  have ok: "streams \<noteq> []" "int (length streams) \<le> pairs_per_session" "1 \<le> active_sessions" "active_sessions \<le> max_sess - 1" "0 \<le> dynamic_reserve"
    and pb: "plan_blocks [0..<?n] (?n - 1) ?b dynamic_reserve streams ?o = (shards, overflow)"
    using assms(1) by (auto simp: plan_ls_shards_def Let_def split: if_splits)
  have placed: "placed = ?o" using plan_blocks_concat [OF pb] by (simp add: placed_def)
  have idx: "map ls_index shards = [0..<?n]" using plan_blocks_length [OF pb] .
  then have len: "length shards = ?n" by (metis diff_zero length_map length_upt)
  have room: "x * int (length streams) \<le> pairs_per_session" if "x \<le> ?b" for x
  proof -
    have "x * int (length streams) \<le> ?b * int (length streams)" using that by (intro mult_right_mono) simp_all
    also have "\<dots> \<le> pairs_per_session"
    proof -
      have "0 < int (length streams)" using ok(1) by simp
      then show ?thesis using div_mult_mod_eq [of pairs_per_session "int (length streams)"] pos_mod_sign [of "int (length streams)" pairs_per_session] by linarith
    qed
    finally show ?thesis .
  qed
  have b0: "0 \<le> ?b" using ok by (simp add: pos_imp_zdiv_nonneg_iff)
  have sh: "int (length (ls_symbols sh) * length streams) \<le> pairs_per_session
      \<and> (ls_reserve sh \<le> ?b \<longrightarrow> (int (length (ls_symbols sh)) + ls_reserve sh) * int (length streams) \<le> pairs_per_session)
      \<and> (overflow \<noteq> [] \<longrightarrow> int (length (ls_symbols sh)) = max 0 (?b - ls_reserve sh))" if "sh \<in> set shards" for sh
  proof -
    from plan_blocks_shard [OF pb that] ok(5) have s: "int (length (ls_symbols sh)) \<le> max 0 (?b - ls_reserve sh)" "0 \<le> ls_reserve sh"
      "overflow \<noteq> [] \<longrightarrow> int (length (ls_symbols sh)) = max 0 (?b - ls_reserve sh)" by auto
    then have "int (length (ls_symbols sh)) \<le> ?b" using b0 by linarith
    moreover have "int (length (ls_symbols sh)) + ls_reserve sh \<le> ?b" if "ls_reserve sh \<le> ?b" using that s(1) by linarith
    ultimately show ?thesis using room s(3) by simp
  qed
  show ?thesis unfolding placed using ordered_symbols_props [OF ok(1)] idx len sh ok by auto
qed

definition demo_shards :: "ls_shard list" where
  "demo_shards = [\<lparr>ls_index = 0, ls_symbols = [''a'', ''b''], ls_streams = [''T'', ''Q''], ls_reserve = 0, ls_standby = True\<rparr>,
     \<lparr>ls_index = 1, ls_symbols = [''c''], ls_streams = [''T'', ''Q''], ls_reserve = 1, ls_standby = False\<rparr>]"

lemma demo_plan: "plan_ls_shards [''b'', ''a'', ''c''] [(''a'', ''core'')] [''T'', ''Q''] 2 4 1 3 = Inr (demo_shards, [])"
  by code_simp

theorem ls_plan_places_symbols_witness:
  "plan_ls_shards [''b'', ''a'', ''c''] [(''a'', ''core'')] [''T'', ''Q''] 2 4 1 3 = Inr (demo_shards, [])
   \<and> set (concat (map ls_symbols demo_shards) @ []) = set [''b'', ''a'', ''c''] \<and> int (length demo_shards) \<le> 3 - 1"
  using ls_plan_places_symbols [OF demo_plan] demo_plan by blast

end
