(* ===== verification/KisSharding.thy ===== *)
theory KisSharding
  imports Json Layout
begin

text \<open>
  The KIS data key pool and its shard plans, \<open>src/realtime/kis_sharding.py\<close>: loading the credentials of
  the configured slots, and dealing rank-ordered symbols to connections of fixed capacity. \<open>sha\<close> is
  the hexadecimal SHA-256 of a text. A pair of streams has length two, so a connection of \<open>c\<close> pairs holds
  \<open>c div 2\<close> symbols. Numbers of symbols and shards are natural numbers.
\<close>

section \<open>Credentials\<close>

definition credential_key_id_for :: "(string \<Rightarrow> string) \<Rightarrow> string \<Rightarrow> string" where
  "credential_key_id_for sha app_key = take 12 (sha app_key)"

record kis_data_credential =
  kc_slot :: string
  kc_app_key :: string
  kc_app_secret :: string
  kc_hts_id :: string
  kc_key_id :: string

definition env_text :: "(string, string) dict \<Rightarrow> string \<Rightarrow> string" where
  "env_text source name = strip (case map_of source name of None \<Rightarrow> [] | Some v \<Rightarrow> v)"

definition load_slot :: "(string \<Rightarrow> string) \<Rightarrow> (string, string) dict \<Rightarrow> string \<Rightarrow> string \<Rightarrow> string
    \<Rightarrow> kis_data_credential list \<times> string list \<Rightarrow> (kis_data_credential list \<times> string list) result" where
  "load_slot sha source trade_key primary_key slot acc = (case acc of (credentials, seen) \<Rightarrow>
     let app_key = env_text source (''KIS_DATA_'' @ slot @ ''_APP_KEY'');
         app_secret = env_text source (''KIS_DATA_'' @ slot @ ''_APP_SECRET'');
         hts_id = env_text source (''KIS_DATA_'' @ slot @ ''_HTS_ID'') in
     if app_key = [] \<or> app_secret = [] \<or> hts_id = [] then Inl (KrxAlphaError (''empty credentials for data slot '' @ slot))
     else let fingerprint = credential_key_id_for sha app_key in
       if fingerprint \<in> set seen then Inl (KrxAlphaError (''duplicate data app_key fingerprint in slot '' @ slot))
       else if primary_key \<noteq> [] \<and> app_key = primary_key then Inl (KrxAlphaError (''data slot '' @ slot @ '' app_key collides with primary KIS_APP_KEY''))
       else if trade_key \<noteq> [] \<and> app_key = trade_key then Inl (KrxAlphaError (''data slot '' @ slot @ '' app_key collides with primary KIS_TRADE_APP_KEY''))
       else Inr (credentials @ [\<lparr>kc_slot = slot, kc_app_key = app_key, kc_app_secret = app_secret, kc_hts_id = hts_id, kc_key_id = fingerprint\<rparr>],
                 fingerprint # seen))"

definition load_kis_data_credentials :: "(string \<Rightarrow> string) \<Rightarrow> (string, string) dict \<Rightarrow> kis_data_credential list result" where
  "load_kis_data_credentials sha source =
     (let raw = env_text source ''KIS_DATA_SLOTS'' in
      if raw = [] then Inr []
      else let slots = map strip (split_on (CHR '','') raw) in
        if [] \<in> set slots then Inl (KrxAlphaError ''empty data slot in KIS_DATA_SLOTS'')
        else if \<not> distinct slots then Inl (KrxAlphaError (''duplicate data slots in KIS_DATA_SLOTS: '' @ raw))
        else let trade_key = env_text source ''KIS_TRADE_APP_KEY''; primary_key = env_text source ''KIS_APP_KEY'' in
          rbind (rfold (load_slot sha source trade_key primary_key) slots ([], [])) (\<lambda>(credentials, _). Inr credentials))"

section \<open>Plans\<close>

record aftermarket_shard =
  as_venue :: market_venue
  as_index :: nat
  as_symbols :: "string list"
  as_streams :: "string \<times> string"
  as_slot :: string
  as_key_id :: string

definition shard_count :: "nat \<Rightarrow> nat \<Rightarrow> nat" where
  "shard_count n per_shard = (if n \<noteq> 0 then (n + per_shard - 1) div per_shard else 0)"

text \<open>The loop that lowers the cap per venue until the shards fit the available keys.\<close>

fun fit_cap :: "nat \<Rightarrow> nat \<Rightarrow> nat \<Rightarrow> nat \<Rightarrow> nat \<Rightarrow> nat" where
  "fit_cap n_nxt n_krx per_shard available 0 = 0"
| "fit_cap n_nxt n_krx per_shard available (Suc cap) =
     (if shard_count (min (Suc cap) n_nxt) per_shard + shard_count (min (Suc cap) n_krx) per_shard \<le> available then Suc cap
      else fit_cap n_nxt n_krx per_shard available cap)"

text \<open>One venue's shards take their keys from the front of the pool; \<open>pop\<close> from an empty list raises.\<close>

fun deal :: "market_venue \<Rightarrow> string list \<Rightarrow> nat \<Rightarrow> string \<times> string \<Rightarrow> nat list \<Rightarrow> kis_data_credential list
    \<Rightarrow> (aftermarket_shard list \<times> kis_data_credential list) result" where
  "deal venue ordered per_shard streams [] keys = Inr ([], keys)"
| "deal venue ordered per_shard streams (index # rest) [] = Inl (IndexError ''pop from empty list'')"
| "deal venue ordered per_shard streams (index # rest) (credential # keys) =
     rbind (deal venue ordered per_shard streams rest keys) (\<lambda>(shards, keys').
       Inr (\<lparr>as_venue = venue, as_index = index, as_symbols = take per_shard (drop (index * per_shard) ordered), as_streams = streams,
             as_slot = kc_slot credential, as_key_id = kc_key_id credential\<rparr> # shards, keys'))"

definition deal_both :: "string list \<Rightarrow> string list \<Rightarrow> nat \<Rightarrow> kis_data_credential list \<Rightarrow> string \<times> string \<Rightarrow> string \<times> string \<Rightarrow> aftermarket_shard list result" where
  "deal_both nxt_ordered krx_ordered per_shard credentials krx_streams nxt_streams =
     rbind (deal NXT nxt_ordered per_shard nxt_streams [0..<shard_count (length nxt_ordered) per_shard] credentials) (\<lambda>(nxt, keys).
     rbind (deal KRX krx_ordered per_shard krx_streams [0..<shard_count (length krx_ordered) per_shard] keys) (\<lambda>(krx, _).
     Inr (nxt @ krx)))"

definition plan_aftermarket_shards ::
  "string list \<Rightarrow> string list \<Rightarrow> kis_data_credential list \<Rightarrow> int \<Rightarrow> string \<times> string \<Rightarrow> string \<times> string \<Rightarrow> aftermarket_shard list result" where
  "plan_aftermarket_shards krx_symbols nxt_symbols credentials pair_capacity krx_streams nxt_streams =
     (if nxt_symbols = [] \<and> krx_symbols = [] then Inl (KrxAlphaError ''empty aftermarket symbols'')
      else if \<not> distinct nxt_symbols then Inl (KrxAlphaError ''duplicate aftermarket symbols'')
      else if \<not> distinct krx_symbols then Inl (KrxAlphaError ''duplicate aftermarket symbols'')
      else if pair_capacity div 2 < 1 then Inl (SlotBudgetExceededError ''aftermarket pair capacity cannot hold one symbol'')
      else let per_shard = nat (pair_capacity div 2);
               required = shard_count (length nxt_symbols) per_shard + shard_count (length krx_symbols) per_shard;
               available = length credentials in
        if required > available then
          (let cap = fit_cap (length nxt_symbols) (length krx_symbols) per_shard available (max (length nxt_symbols) (length krx_symbols)) in
           if cap < 1 then Inl (SlotBudgetExceededError ''aftermarket shards required exceed available'')
           else deal_both (take (min cap (length nxt_symbols)) nxt_symbols) (take (min cap (length krx_symbols)) krx_symbols) per_shard credentials krx_streams nxt_streams)
        else deal_both nxt_symbols krx_symbols per_shard credentials krx_streams nxt_streams)"

text \<open>The regular session: symbols LS does not cover come first, then the configured slots are filled.\<close>

definition regular_order :: "string list \<Rightarrow> string set option \<Rightarrow> string list" where
  "regular_order symbols ls_covered = (case ls_covered of
       None \<Rightarrow> symbols
     | Some c \<Rightarrow> filter (\<lambda>s. s \<notin> c) symbols @ filter (\<lambda>s. s \<in> c) symbols)"

definition pick_slots :: "kis_data_credential list \<Rightarrow> string list \<Rightarrow> kis_data_credential list result" where
  "pick_slots credentials slots = (let by_slot = fold (\<lambda>c d. AList.update (kc_slot c) c d) credentials [] in
     rmap (\<lambda>slot. case map_of by_slot slot of
         None \<Rightarrow> Inl (MissingCredentialsError (''no data credential for slot '' @ slot)) | Some c \<Rightarrow> Inr c) slots)"

definition fill_slots :: "string list \<Rightarrow> nat \<Rightarrow> string \<times> string \<Rightarrow> (nat \<times> kis_data_credential) list \<Rightarrow> aftermarket_shard list" where
  "fill_slots ordered per_shard streams creds = concat (map (\<lambda>(index, c).
     let chunk = take per_shard (drop (index * per_shard) ordered) in
     if chunk = [] then []
     else [\<lparr>as_venue = KRX, as_index = index, as_symbols = chunk, as_streams = streams, as_slot = kc_slot c, as_key_id = kc_key_id c\<rparr>]) creds)"

definition plan_regular_kis_shards ::
  "string list \<Rightarrow> kis_data_credential list \<Rightarrow> string list \<Rightarrow> int \<Rightarrow> string \<times> string \<Rightarrow> string set option \<Rightarrow> aftermarket_shard list result" where
  "plan_regular_kis_shards symbols credentials credential_slots pair_capacity streams ls_covered =
     (if symbols = [] then Inl (KrxAlphaError ''empty regular_kis symbols'')
      else if \<not> distinct symbols then Inl (KrxAlphaError ''duplicate regular_kis symbols'')
      else if pair_capacity div 2 < 1 then Inl (SlotBudgetExceededError ''regular_kis pair capacity cannot hold one symbol'')
      else let per_shard = nat (pair_capacity div 2) in
        rbind (pick_slots credentials credential_slots) (\<lambda>creds.
          let capacity = length credential_slots * per_shard; ordered = regular_order symbols ls_covered;
              ordered = (if length ordered > capacity then take capacity ordered else ordered) in
          Inr (fill_slots ordered per_shard streams (enumerate 0 creds))))"

text \<open>What the coverage log of a regular plan reports: symbols neither feed collects.\<close>

definition uncovered_symbols :: "string list \<Rightarrow> nat \<Rightarrow> string set \<Rightarrow> string list" where
  "uncovered_symbols symbols capacity ls_covered =
     (let selected = set (take capacity (regular_order symbols (Some ls_covered))) in filter (\<lambda>s. s \<notin> ls_covered \<and> s \<notin> selected) symbols)"

definition plan_premarket_shard :: "string list \<Rightarrow> kis_data_credential list \<Rightarrow> string \<Rightarrow> int \<Rightarrow> string \<times> string \<Rightarrow> aftermarket_shard result" where
  "plan_premarket_shard symbols credentials credential_slot pair_capacity nxt_streams =
     (if symbols = [] then Inl (KrxAlphaError ''empty premarket symbols'')
      else if \<not> distinct symbols then Inl (KrxAlphaError ''duplicate premarket symbols'')
      else if pair_capacity div 2 < 1 then Inl (SlotBudgetExceededError ''premarket pair capacity cannot hold one symbol'')
      else case find (\<lambda>c. kc_slot c = credential_slot) credentials of
        None \<Rightarrow> Inl (MissingCredentialsError (''no data credential for slot '' @ credential_slot))
      | Some credential \<Rightarrow> let per_connection = nat (pair_capacity div 2) in
          Inr \<lparr>as_venue = NXT, as_index = 0, as_symbols = (if length symbols > per_connection then take per_connection symbols else symbols),
               as_streams = nxt_streams, as_slot = kc_slot credential, as_key_id = kc_key_id credential\<rparr>)"

section \<open>The key pool\<close>

definition pool_ok :: "(string \<Rightarrow> string) \<Rightarrow> string \<Rightarrow> string \<Rightarrow> kis_data_credential list \<Rightarrow> bool" where
  "pool_ok sha trade_key primary_key cs \<longleftrightarrow> distinct (map kc_key_id cs)
     \<and> (\<forall>c \<in> set cs. kc_key_id c = credential_key_id_for sha (kc_app_key c) \<and> kc_app_key c \<noteq> [] \<and> kc_app_key c \<noteq> trade_key \<and> kc_app_key c \<noteq> primary_key)"

lemma load_slots_ok:
  assumes "rfold (load_slot sha source t p) slots (cs, seen) = Inr (cs', seen')" "pool_ok sha t p cs" "set seen = set (map kc_key_id cs)"
  shows "pool_ok sha t p cs' \<and> map kc_slot cs' = map kc_slot cs @ slots"
  using assms
proof (induction slots arbitrary: cs seen)
  case (Cons slot slots)
  then obtain cs1 seen1 where s: "load_slot sha source t p slot (cs, seen) = Inr (cs1, seen1)" "rfold (load_slot sha source t p) slots (cs1, seen1) = Inr (cs', seen')"
    by (auto simp: rbind_Inr_iff)
  have "pool_ok sha t p cs1" "set seen1 = set (map kc_key_id cs1)" "map kc_slot cs1 = map kc_slot cs @ [slot]"
    using s(1) Cons.prems(2,3) by (auto simp: load_slot_def Let_def pool_ok_def split: if_splits)
  with Cons.IH [OF s(2)] show ?case by simp
qed simp

lemma load_credentials_ok:
  assumes "load_kis_data_credentials sha source = Inr cs"
  shows "pool_ok sha (env_text source ''KIS_TRADE_APP_KEY'') (env_text source ''KIS_APP_KEY'') cs \<and> distinct (map kc_slot cs)"
proof (cases "env_text source ''KIS_DATA_SLOTS'' = []")
  case True
  then show ?thesis using assms by (simp add: load_kis_data_credentials_def pool_ok_def)
next
  case False
  let ?slots = "map strip (split_on (CHR '','') (env_text source ''KIS_DATA_SLOTS''))"
  let ?t = "env_text source ''KIS_TRADE_APP_KEY''" and ?p = "env_text source ''KIS_APP_KEY''"
  from False assms obtain seen where d: "distinct ?slots" and r: "rfold (load_slot sha source ?t ?p) ?slots ([], []) = Inr (cs, seen)"
    by (auto simp: load_kis_data_credentials_def Let_def rbind_Inr_iff split: if_splits)
  show ?thesis using load_slots_ok [OF r] d by (simp add: pool_ok_def)
qed

section \<open>Dealing\<close>

lemma deal_ok:
  "length idx \<le> length keys \<Longrightarrow> \<exists>shards. deal venue ordered per_shard streams idx keys = Inr (shards, drop (length idx) keys)
     \<and> map as_key_id shards = map kc_key_id (take (length idx) keys) \<and> map as_slot shards = map kc_slot (take (length idx) keys)
     \<and> map as_symbols shards = map (\<lambda>i. take per_shard (drop (i * per_shard) ordered)) idx
     \<and> (\<forall>sh \<in> set shards. as_venue sh = venue \<and> as_streams sh = streams)"
proof (induction idx arbitrary: keys)
  case (Cons i idx)
  then obtain k ks where k: "keys = k # ks" "length idx \<le> length ks" by (cases keys) auto
  from Cons.IH [OF k(2)] obtain shards where "deal venue ordered per_shard streams idx ks = Inr (shards, drop (length idx) ks)"
    "map as_key_id shards = map kc_key_id (take (length idx) ks)" "map as_slot shards = map kc_slot (take (length idx) ks)"
    "map as_symbols shards = map (\<lambda>i. take per_shard (drop (i * per_shard) ordered)) idx" "\<forall>sh \<in> set shards. as_venue sh = venue \<and> as_streams sh = streams" by blast
  then show ?case by (simp add: k)
qed simp

lemma chunks_concat: "concat (map (\<lambda>i. take p (drop (i * p) xs)) [0..<n]) = take (n * p) xs"
proof (induction n)
  case (Suc n)
  then show ?case using take_add [of "n * p" p xs] by (simp add: add.commute)
qed simp

lemma shard_count_covers: "0 < p \<Longrightarrow> n \<le> shard_count n p * p"
proof -
  assume p: "0 < p"
  have "n \<le> (n + p - 1) div p * p" if "n \<noteq> 0"
  proof -
    have "(n + p - 1) div p * p + (n + p - 1) mod p = n + p - 1" by simp
    moreover have "(n + p - 1) mod p \<le> p - 1" using p by (simp add: less_eq_Suc_le [symmetric] Suc_diff_1 flip: less_Suc_eq_le)
    ultimately show ?thesis using p that by linarith
  qed
  then show ?thesis by (simp add: shard_count_def)
qed

lemma deal_both_ok:
  assumes "0 < p" "shard_count (length nxt) p + shard_count (length krx) p \<le> length cs"
  shows "\<exists>shards. deal_both nxt krx p cs ks ns = Inr shards
    \<and> map as_key_id shards = map kc_key_id (take (length shards) cs)
    \<and> concat (map as_symbols (filter (\<lambda>sh. as_venue sh = NXT) shards)) = nxt
    \<and> concat (map as_symbols (filter (\<lambda>sh. as_venue sh = KRX) shards)) = krx
    \<and> (\<forall>sh \<in> set shards. length (as_symbols sh) \<le> p)"
proof -
  let ?a = "shard_count (length nxt) p" and ?b = "shard_count (length krx) p"
  obtain s1 where s1: "deal NXT nxt p ns [0..<?a] cs = Inr (s1, drop ?a cs)" "map as_key_id s1 = map kc_key_id (take ?a cs)"
    "map as_symbols s1 = map (\<lambda>i. take p (drop (i * p) nxt)) [0..<?a]" "\<forall>sh \<in> set s1. as_venue sh = NXT"
    using deal_ok [of "[0..<?a]" cs NXT nxt p ns] assms(2) by auto
  obtain s2 where s2: "deal KRX krx p ks [0..<?b] (drop ?a cs) = Inr (s2, drop ?b (drop ?a cs))" "map as_key_id s2 = map kc_key_id (take ?b (drop ?a cs))"
    "map as_symbols s2 = map (\<lambda>i. take p (drop (i * p) krx)) [0..<?b]" "\<forall>sh \<in> set s2. as_venue sh = KRX"
  proof -
    have "length [0..<?b] \<le> length (drop ?a cs)" using assms(2) by simp
    from deal_ok [OF this, of KRX krx p ks] show ?thesis using that by (simp only: length_upt diff_zero) blast
  qed
  have len: "length s1 = ?a" "length s2 = ?b" using arg_cong [OF s1(3), of length] arg_cong [OF s2(3), of length] by simp_all
  have c: "concat (map as_symbols s1) = nxt" "concat (map as_symbols s2) = krx"
    unfolding s1(3) s2(3) chunks_concat using shard_count_covers [OF assms(1)] by simp_all
  have f: "filter (\<lambda>sh. as_venue sh = NXT) (s1 @ s2) = s1" "filter (\<lambda>sh. as_venue sh = KRX) (s1 @ s2) = s2"
    using s1(4) s2(4) by (auto simp: filter_empty_conv)
  have small: "length (as_symbols sh) \<le> p" if "sh \<in> set (s1 @ s2)" for sh
  proof -
    have "as_symbols sh \<in> set (map as_symbols s1) \<union> set (map as_symbols s2)" using that by auto
    then show ?thesis unfolding s1(3) s2(3) by auto
  qed
  have "deal_both nxt krx p cs ks ns = Inr (s1 @ s2)" by (simp add: deal_both_def s1(1) s2(1))
  moreover have "map as_key_id (s1 @ s2) = map kc_key_id (take (length (s1 @ s2)) cs)" using s1(2) s2(2) len by (simp add: take_add)
  ultimately show ?thesis using c f small by metis
qed

text \<open>The cap found is the largest that fits.\<close>

lemma fit_cap_le: "fit_cap a b p n c \<le> c"
  by (induction c) auto

lemma fit_cap_fits: "0 < fit_cap a b p n c \<Longrightarrow> shard_count (min (fit_cap a b p n c) a) p + shard_count (min (fit_cap a b p n c) b) p \<le> n"
  by (induction c) (auto split: if_splits)

lemma fit_cap_largest: "fit_cap a b p n c < d \<Longrightarrow> d \<le> c \<Longrightarrow> n < shard_count (min d a) p + shard_count (min d b) p"
  by (induction c) (auto simp: le_Suc_eq split: if_splits)

lemma plan_aftermarket_ok:
  assumes "plan_aftermarket_shards krx nxt cs cap ks ns = Inr shards"
  shows "map as_key_id shards = map kc_key_id (take (length shards) cs)
    \<and> (\<exists>m n. concat (map as_symbols (filter (\<lambda>sh. as_venue sh = NXT) shards)) = take m nxt
        \<and> concat (map as_symbols (filter (\<lambda>sh. as_venue sh = KRX) shards)) = take n krx)
    \<and> (\<forall>sh \<in> set shards. 2 * int (length (as_symbols sh)) \<le> cap)"
proof -
  let ?p = "nat (cap div 2)"
  have p: "0 < ?p" "2 * int ?p \<le> cap" using assms by (auto simp: plan_aftermarket_shards_def split: if_splits)
  have goal: ?thesis if "deal_both (take m nxt) (take n krx) ?p cs ks ns = Inr shards"
    "shard_count (length (take m nxt)) ?p + shard_count (length (take n krx)) ?p \<le> length cs" for m n
  proof -
    from deal_both_ok [OF p(1) that(2), of ks ns] that(1)
    have d: "map as_key_id shards = map kc_key_id (take (length shards) cs)"
      "concat (map as_symbols (filter (\<lambda>sh. as_venue sh = NXT) shards)) = take m nxt"
      "concat (map as_symbols (filter (\<lambda>sh. as_venue sh = KRX) shards)) = take n krx" "\<forall>sh \<in> set shards. length (as_symbols sh) \<le> ?p" by auto
    have "2 * int (length (as_symbols sh)) \<le> cap" if "sh \<in> set shards" for sh
    proof -
      have "int (length (as_symbols sh)) \<le> int ?p" using d(4) that by (simp only: of_nat_le_iff)
      with p(2) show ?thesis by linarith
    qed
    with d show ?thesis by blast
  qed
  let ?req = "shard_count (length nxt) ?p + shard_count (length krx) ?p"
  let ?c = "fit_cap (length nxt) (length krx) ?p (length cs) (max (length nxt) (length krx))"
  show ?thesis
  proof (cases "?req > length cs")
    case True
    with assms have "0 < ?c" "deal_both (take (min ?c (length nxt)) nxt) (take (min ?c (length krx)) krx) ?p cs ks ns = Inr shards"
      by (auto simp: plan_aftermarket_shards_def Let_def split: if_splits)
    then show ?thesis using fit_cap_fits [of "length nxt" "length krx" ?p "length cs"] by (intro goal) (auto simp: min.assoc)
  next
    case False
    with assms have "deal_both nxt krx ?p cs ks ns = Inr shards" by (auto simp: plan_aftermarket_shards_def Let_def split: if_splits)
    then show ?thesis using False by (intro goal [of "length nxt" "length krx"]) simp_all
  qed
qed

section \<open>The regular session\<close>

lemma by_slot_lookup: "map_of (fold (\<lambda>c d. AList.update (kc_slot c) c d) cs d) slot = Some c \<Longrightarrow>
    map_of d slot = Some c \<or> (c \<in> set cs \<and> kc_slot c = slot)"
  by (induction cs arbitrary: d) (fastforce split: if_splits)+

lemma pick_slots_ok: "pick_slots cs slots = Inr creds \<Longrightarrow> map kc_slot creds = slots \<and> set creds \<subseteq> set cs"
proof -
  assume "pick_slots cs slots = Inr creds"
  then have "list_all2 (\<lambda>slot c. c \<in> set cs \<and> kc_slot c = slot) slots creds"
    unfolding pick_slots_def Let_def rmap_Inr_iff
    by (rule list_all2_mono) (auto split: option.splits dest: by_slot_lookup)
  then show ?thesis by (induction rule: list_all2_induct) auto
qed

lemma fill_slots_symbols: "concat (map as_symbols (fill_slots ordered p streams (enumerate k cs)))
    = concat (map (\<lambda>i. take p (drop (i * p) ordered)) [k..<k + length cs])"
proof (induction cs arbitrary: k)
  case (Cons c cs)
  have "[k..<k + length (c # cs)] = k # [Suc k..<Suc k + length cs]" using upt_conv_Cons [of k "k + length (c # cs)"] by (simp del: upt_Suc)
  then show ?case using Cons [of "Suc k"] by (auto simp: fill_slots_def Let_def)
qed (simp add: fill_slots_def)

lemma fill_slots_keys: "\<exists>P. map as_key_id (fill_slots ordered p streams creds) = map (kc_key_id \<circ> snd) (filter P creds)"
  by (rule exI [of _ "\<lambda>(i, c). take p (drop (i * p) ordered) \<noteq> []"]) (induction creds; auto simp: fill_slots_def Let_def)

lemma distinct_snd_filter: "distinct (map f (map snd xs)) \<Longrightarrow> distinct (map (f \<circ> snd) (filter P xs))"
  by (induction xs) auto

lemma plan_regular_ok:
  assumes "plan_regular_kis_shards symbols cs slots cap streams covered = Inr shards" "distinct slots" "distinct (map kc_key_id cs)"
  shows "distinct (map as_key_id shards) \<and> set (map as_key_id shards) \<subseteq> set (map kc_key_id cs)
    \<and> concat (map as_symbols shards) = take (length slots * nat (cap div 2)) (regular_order symbols covered)"
proof -
  let ?p = "nat (cap div 2)" and ?o = "regular_order symbols covered"
  let ?t = "if length ?o > length slots * ?p then take (length slots * ?p) ?o else ?o"
  obtain creds where c: "pick_slots cs slots = Inr creds" and sh: "shards = fill_slots ?t ?p streams (enumerate 0 creds)"
    using assms(1) by (auto simp: plan_regular_kis_shards_def Let_def rbind_Inr_iff split: if_splits)
  from pick_slots_ok [OF c] have slots: "map kc_slot creds = slots" "set creds \<subseteq> set cs" by auto
  then have "distinct creds" using assms(2) by (auto simp: distinct_map)
  moreover have "inj_on kc_key_id (set creds)" using assms(3) slots(2) by (auto simp: distinct_map intro: inj_on_subset)
  ultimately have d: "distinct (map kc_key_id creds)" by (simp add: distinct_map)
  obtain P where k: "map as_key_id shards = map (kc_key_id \<circ> snd) (filter P (enumerate 0 creds))" using fill_slots_keys sh by metis
  have "distinct (map as_key_id shards)" unfolding k using d by (intro distinct_snd_filter) (simp add: map_snd_enumerate)
  moreover have "set (map as_key_id shards) \<subseteq> set (map kc_key_id cs)"
    unfolding k by (auto simp: in_set_enumerate_eq intro!: imageI subsetD [OF slots(2)])
  moreover have "concat (map as_symbols shards) = take (length slots * ?p) ?o"
    using slots(1) by (simp add: sh fill_slots_symbols chunks_concat) (metis length_map order_refl not_less take_all take_take min.idem)
  ultimately show ?thesis by blast
qed

text \<open>A regular plan leaves a symbol without any feed only if the uncovered symbols exceed its capacity.\<close>

lemma uncovered_only_beyond_capacity:
  "length (filter (\<lambda>s. s \<notin> c) symbols) \<le> capacity \<Longrightarrow> uncovered_symbols symbols capacity c = []"
  by (auto simp: uncovered_symbols_def regular_order_def Let_def filter_empty_conv take_append)

section \<open>Isolation of connections\<close>

text \<open>
  C23. Connections are isolated and ranked: with a pool loaded from the environment, the shards of an
  aftermarket plan use pairwise different keys, none of them the trading key or the primary key; each
  venue's shards together hold a prefix of that venue's ranking, and none exceeds the pair capacity of a
  connection.
\<close>

theorem kis_connections_isolated:
  assumes "load_kis_data_credentials sha source = Inr cs" "plan_aftermarket_shards krx nxt cs cap ks ns = Inr shards"
  shows "distinct (map as_key_id shards)
    \<and> (\<forall>sh \<in> set shards. \<exists>c \<in> set cs. as_key_id sh = credential_key_id_for sha (kc_app_key c)
        \<and> kc_app_key c \<noteq> env_text source ''KIS_TRADE_APP_KEY'' \<and> kc_app_key c \<noteq> env_text source ''KIS_APP_KEY'')
    \<and> (\<exists>m n. concat (map as_symbols (filter (\<lambda>sh. as_venue sh = NXT) shards)) = take m nxt
        \<and> concat (map as_symbols (filter (\<lambda>sh. as_venue sh = KRX) shards)) = take n krx)
    \<and> (\<forall>sh \<in> set shards. 2 * int (length (as_symbols sh)) \<le> cap)"
proof -
  from load_credentials_ok [OF assms(1)]
  have pool: "pool_ok sha (env_text source ''KIS_TRADE_APP_KEY'') (env_text source ''KIS_APP_KEY'') cs" by blast
  from plan_aftermarket_ok [OF assms(2)] have ids: "map as_key_id shards = map kc_key_id (take (length shards) cs)" by blast
  have keys: "distinct (map as_key_id shards)" unfolding ids using pool by (simp add: pool_ok_def take_map [symmetric])
  have owner: "\<exists>c \<in> set cs. as_key_id sh = credential_key_id_for sha (kc_app_key c)
      \<and> kc_app_key c \<noteq> env_text source ''KIS_TRADE_APP_KEY'' \<and> kc_app_key c \<noteq> env_text source ''KIS_APP_KEY''" if "sh \<in> set shards" for sh
  proof -
    have "as_key_id sh \<in> set (map kc_key_id (take (length shards) cs))" using that unfolding ids [symmetric] by simp
    then obtain c where "c \<in> set cs" "as_key_id sh = kc_key_id c" by (auto dest: in_set_takeD)
    with pool show ?thesis unfolding pool_ok_def by (intro bexI [of _ c]) simp_all
  qed
  note plan = plan_aftermarket_ok [OF assms(2)]
  show ?thesis
  proof (intro conjI ballI)
    show "\<exists>m n. concat (map as_symbols (filter (\<lambda>sh. as_venue sh = NXT) shards)) = take m nxt
        \<and> concat (map as_symbols (filter (\<lambda>sh. as_venue sh = KRX) shards)) = take n krx" using plan by (elim conjE)
    show "2 * int (length (as_symbols sh)) \<le> cap" if "sh \<in> set shards" for sh using plan that by (elim conjE) (rule bspec)
  qed (rule keys, rule owner)
qed

definition demo_env :: "(string, string) dict" where
  "demo_env = [(''KIS_DATA_SLOTS'', ''1, 2''), (''KIS_TRADE_APP_KEY'', ''trade''), (''KIS_DATA_1_APP_KEY'', ''one''), (''KIS_DATA_1_APP_SECRET'', ''x''),
     (''KIS_DATA_1_HTS_ID'', ''h''), (''KIS_DATA_2_APP_KEY'', ''two''), (''KIS_DATA_2_APP_SECRET'', ''y''), (''KIS_DATA_2_HTS_ID'', ''h'')]"

definition demo_pool :: "kis_data_credential list" where
  "demo_pool = [\<lparr>kc_slot = ''1'', kc_app_key = ''one'', kc_app_secret = ''x'', kc_hts_id = ''h'', kc_key_id = ''one''\<rparr>,
     \<lparr>kc_slot = ''2'', kc_app_key = ''two'', kc_app_secret = ''y'', kc_hts_id = ''h'', kc_key_id = ''two''\<rparr>]"

definition demo_plan :: "aftermarket_shard list" where
  "demo_plan = [\<lparr>as_venue = NXT, as_index = 0, as_symbols = [''c''], as_streams = (''A'', ''B''), as_slot = ''1'', as_key_id = ''one''\<rparr>,
     \<lparr>as_venue = KRX, as_index = 0, as_symbols = [''a'', ''b''], as_streams = (''T'', ''Q''), as_slot = ''2'', as_key_id = ''two''\<rparr>]"

lemma demo_load: "load_kis_data_credentials (\<lambda>s. s) demo_env = Inr demo_pool"
  by code_simp

lemma demo_shards_plan: "plan_aftermarket_shards [''a'', ''b'', ''d''] [''c''] demo_pool 4 (''T'', ''Q'') (''A'', ''B'') = Inr demo_plan"
  by code_simp

theorem kis_connections_isolated_witness:
  "load_kis_data_credentials (\<lambda>s. s) demo_env = Inr demo_pool
   \<and> plan_aftermarket_shards [''a'', ''b'', ''d''] [''c''] demo_pool 4 (''T'', ''Q'') (''A'', ''B'') = Inr demo_plan
   \<and> distinct (map as_key_id demo_plan)"
  using kis_connections_isolated [OF demo_load demo_shards_plan] demo_load demo_shards_plan by (intro conjI) (elim conjE, assumption)+

end
