(* ===== verification/LagMonitor.thy ===== *)
theory LagMonitor
  imports RealtimeContracts Errors Floats PyTime Json "HOL-Library.Product_Lexorder" "HOL-Library.List_Lexorder" "HOL-Library.Char_ord"
begin

text \<open>
  The delivery-lag watch, \<open>src/realtime/lag_monitor.py\<close>: event seconds of frames, sampling, windows and the
  alert with its recovery threshold. Texts are ASCII. The callback \<open>on_exceeded\<close> is absent, returns, or
  raises; whatever is raised while a frame is accounted for is caught by \<open>observe\<close>.
\<close>

section \<open>Event times\<close>

text \<open>
  The leftmost match of \<open>_EVENT_TIME_RE\<close>: a quoted \<open>chetime\<close> or \<open>hotime\<close>, a colon between optional spaces and
  six quoted digits.
\<close>

definition quoted :: "string \<Rightarrow> string" where
  "quoted s = [CHR 0x22] @ s @ [CHR 0x22]"

definition stamp_after :: "string \<Rightarrow> string option" where
  "stamp_after s = (case dropWhile is_space s of
       c # r1 \<Rightarrow> if c \<noteq> CHR '':'' then None
         else let r2 = dropWhile is_space r1; d = take 6 (tl r2) in
           if r2 \<noteq> [] \<and> hd r2 = CHR 0x22 \<and> length d = 6 \<and> list_all is_digit d \<and> take 1 (drop 7 r2) = [CHR 0x22] then Some d else None
     | [] \<Rightarrow> None)"

definition stamp_at :: "string \<Rightarrow> string option" where
  "stamp_at s = (if take 9 s = quoted ''chetime'' then stamp_after (drop 9 s)
     else if take 8 s = quoted ''hotime'' then stamp_after (drop 8 s) else None)"

fun EVENT_TIME_RE :: "string \<Rightarrow> string option" where
  "EVENT_TIME_RE [] = None"
| "EVENT_TIME_RE (c # s) = (case stamp_at (c # s) of Some d \<Rightarrow> Some d | None \<Rightarrow> EVENT_TIME_RE s)"

definition stamp_of :: "l0_frame \<Rightarrow> string option" where
  "stamp_of frame = (let stamp = f_exchange_event_time frame in
     if length stamp \<noteq> 6 \<or> \<not> list_all is_digit stamp then EVENT_TIME_RE (f_raw frame) else Some stamp)"

definition hms :: "string \<Rightarrow> nat \<times> nat \<times> nat" where
  "hms stamp = (parse_nat (take 2 stamp), parse_nat (take 2 (drop 2 stamp)), parse_nat (drop 4 stamp))"

definition event_second_of :: "l0_frame \<Rightarrow> nat option" where
  "event_second_of frame = (case stamp_of frame of
       None \<Rightarrow> None
     | Some stamp \<Rightarrow> (let (hour, minute, second) = hms stamp in
         if hour > 23 \<or> minute > 59 \<or> second > 59 then None else Some (hour * 3600 + minute * 60 + second)))"

section \<open>The lag of a frame\<close>

text \<open>
  \<open>fromtimestamp\<close> of nanoseconds divided as floats: the microsecond is the fraction rounded to the nearest
  even. The lag is the distance to the event time on the same KST day, in seconds.
\<close>

definition recv_us :: "int \<Rightarrow> int" where
  "recv_us ns = (let t = fl (of_int ns / 1000000000); i = \<lfloor>t\<rfloor> in i * 1000000 + rne (fl ((t - of_int i) * 1000000)))"

definition lag_s :: "l0_frame \<Rightarrow> rat option result" where
  "lag_s frame = (case stamp_of frame of
       None \<Rightarrow> Inr None
     | Some stamp \<Rightarrow> (let received = kst_tod (recv_us (f_recv_wall_ns frame)); (hour, minute, second) = hms stamp in
         if hour > 23 \<or> minute > 59 \<or> second > 59 then Inl (ValueError ''hour must be in 0..23'')
         else let event = mk_time hour minute second; lag = fl (of_int (int received - int event) / 1000000) in
           Inr (if lag < - 60 then None else Some (max 0 lag))))"

section \<open>The monitor\<close>

record lag_monitor =
  lm_threshold :: rat
  lm_window :: rat
  lm_sample_every :: int
  lm_min_samples :: nat
  lm_seen :: int
  lm_window_id :: "int option"
  lm_lags :: "rat list"
  lm_conns :: "string list"
  lm_symbols :: "string list"
  lm_alerted :: bool

definition new_lag_monitor :: "rat \<Rightarrow> rat \<Rightarrow> int \<Rightarrow> nat \<Rightarrow> lag_monitor result" where
  "new_lag_monitor threshold_s window_s sample_every min_samples =
     (if threshold_s \<le> 0 \<or> window_s \<le> 0 then Inl (ValueError ''threshold_s and window_s must be positive'')
      else if sample_every < 1 \<or> min_samples < 1 then Inl (ValueError ''sample_every and min_samples must be >= 1'')
      else Inr \<lparr>lm_threshold = threshold_s, lm_window = window_s, lm_sample_every = sample_every, lm_min_samples = min_samples,
        lm_seen = 0, lm_window_id = None, lm_lags = [], lm_conns = [], lm_symbols = [], lm_alerted = False\<rparr>)"

definition median :: "rat list \<Rightarrow> rat" where
  "median xs = (let s = sort xs; n = length xs in
     if odd n then s ! (n div 2) else fl (fl (s ! (n div 2 - 1) + s ! (n div 2)) / 2))"

definition dominant_conn :: "string list \<Rightarrow> string" where
  "dominant_conn conns = snd (Max (set (map (\<lambda>conn. (count_list conns conn, conn)) conns)))"

definition symbols_of :: "string list \<Rightarrow> string list \<Rightarrow> string \<Rightarrow> string list" where
  "symbols_of conns symbols conn = map snd (filter (\<lambda>(c, s). c = conn) (zip conns symbols))"

definition judged_lags :: "rat list \<Rightarrow> string list \<Rightarrow> string list \<Rightarrow> rat list" where
  "judged_lags lags conns symbols = (let dominant = dominant_conn conns;
     judged = filter (\<lambda>conn. conn = dominant \<or> set (symbols_of conns symbols conn) \<inter> set (symbols_of conns symbols dominant) = {}) conns in
     map fst (filter (\<lambda>(lag, conn). conn \<in> set judged) (zip lags conns)))"

datatype lag_log = Lag_exceeded | Lag_recovered

datatype callback = No_callback | Callback_returns | Callback_raises

text \<open>
  \<open>_close_window\<close>: the dominant connection of an empty window is \<open>max\<close> of an empty set, which raises.
\<close>

definition close_window :: "callback \<Rightarrow> lag_monitor \<Rightarrow> unit result \<times> lag_log list \<times> lag_monitor" where
  "close_window cb m =
     (let cleared = m\<lparr>lm_lags := [], lm_conns := [], lm_symbols := []\<rparr> in
      if lm_conns m = [] then (Inl (ValueError ''max() arg is an empty sequence''), [], cleared)
      else let lags = judged_lags (lm_lags m) (lm_conns m) (lm_symbols m) in
        if length lags < lm_min_samples m then (Inr (), [], cleared)
        else let p50 = median lags in
          if \<not> lm_alerted m \<and> p50 > lm_threshold m then
            ((if cb = Callback_raises then Inl (ExecutionError ''on_exceeded'') else Inr ()), [Lag_exceeded], cleared\<lparr>lm_alerted := True\<rparr>)
          else if lm_alerted m \<and> p50 \<le> fl (lm_threshold m / 2) then (Inr (), [Lag_recovered], cleared\<lparr>lm_alerted := False\<rparr>)
          else (Inr (), [], cleared))"

definition window_id :: "lag_monitor \<Rightarrow> l0_frame \<Rightarrow> int" where
  "window_id m frame = \<lfloor>fl (of_int (f_recv_wall_ns frame)) / fl (lm_window m * 1000000000)\<rfloor>"

definition append_lag :: "l0_frame \<Rightarrow> rat \<Rightarrow> lag_monitor \<Rightarrow> lag_monitor" where
  "append_lag frame lag m = m\<lparr>lm_window_id := Some (window_id m frame), lm_lags := lm_lags m @ [lag],
     lm_conns := lm_conns m @ [f_conn_id frame], lm_symbols := lm_symbols m @ [f_symbol frame]\<rparr>"

definition observe :: "callback \<Rightarrow> l0_frame \<Rightarrow> lag_monitor \<Rightarrow> lag_log list \<times> lag_monitor" where
  "observe cb frame m0 = (let m = m0\<lparr>lm_seen := lm_seen m0 + 1\<rparr> in
     if lm_seen m mod lm_sample_every m \<noteq> 0 then ([], m)
     else case lag_s frame of
       Inl _ \<Rightarrow> ([], m)
     | Inr None \<Rightarrow> ([], m)
     | Inr (Some lag) \<Rightarrow>
         if lm_window_id m \<noteq> None \<and> lm_window_id m \<noteq> Some (window_id m frame) then
           (case close_window cb m of
              (Inl _, logs, m') \<Rightarrow> (logs, m')
            | (Inr _, logs, m') \<Rightarrow> (logs, append_lag frame lag m'))
         else ([], append_lag frame lag m))"

fun observe_all :: "(callback \<times> l0_frame) list \<Rightarrow> lag_monitor \<Rightarrow> lag_log list \<times> lag_monitor" where
  "observe_all [] m = ([], m)"
| "observe_all ((cb, frame) # rest) m = (case observe cb frame m of (logs, m') \<Rightarrow>
     case observe_all rest m' of (logs', m'') \<Rightarrow> (logs @ logs', m''))"

section \<open>Episodes\<close>

text \<open>The log of a run alternates; \<open>alerted\<close> is the state before its first entry.\<close>

fun alternates :: "bool \<Rightarrow> lag_log list \<Rightarrow> bool" where
  "alternates alerted [] = True"
| "alternates alerted (Lag_exceeded # ls) = (\<not> alerted \<and> alternates True ls)"
| "alternates alerted (Lag_recovered # ls) = (alerted \<and> alternates False ls)"

definition after_logs :: "bool \<Rightarrow> lag_log list \<Rightarrow> bool" where
  "after_logs alerted ls = (if ls = [] then alerted else last ls = Lag_exceeded)"

lemma alternates_append: "alternates b (xs @ ys) \<longleftrightarrow> alternates b xs \<and> alternates (after_logs b xs) ys"
  by (induction b xs rule: alternates.induct) (auto simp: after_logs_def)

lemma close_window_log:
  "close_window cb m = (r, logs, m') \<Longrightarrow> alternates (lm_alerted m) logs \<and> lm_alerted m' = after_logs (lm_alerted m) logs
     \<and> lm_threshold m' = lm_threshold m \<and> lm_min_samples m' = lm_min_samples m"
  by (auto simp: close_window_def Let_def after_logs_def split: if_splits)

lemma append_lag_sel [simp]: "lm_alerted (append_lag f l m) = lm_alerted m" "lm_threshold (append_lag f l m) = lm_threshold m"
  "lm_min_samples (append_lag f l m) = lm_min_samples m"
  by (simp_all add: append_lag_def)

lemma observe_log:
  "observe cb f m = (logs, m') \<Longrightarrow> alternates (lm_alerted m) logs \<and> lm_alerted m' = after_logs (lm_alerted m) logs
     \<and> lm_threshold m' = lm_threshold m \<and> lm_min_samples m' = lm_min_samples m"
  using close_window_log [of cb "m\<lparr>lm_seen := lm_seen m + 1\<rparr>"]
  by (auto simp: observe_def Let_def after_logs_def split: if_splits sum.splits option.splits prod.splits)

lemma observe_all_log:
  "observe_all fs m = (logs, m') \<Longrightarrow> alternates (lm_alerted m) logs \<and> lm_alerted m' = after_logs (lm_alerted m) logs"
proof (induction fs arbitrary: m logs)
  case Nil
  then show ?case by (simp add: after_logs_def)
next
  case (Cons cf fs)
  obtain cb f where cf: "cf = (cb, f)" by (cases cf)
  obtain l1 m1 where o1: "observe cb f m = (l1, m1)" by (cases "observe cb f m")
  obtain l2 m2 where o2: "observe_all fs m1 = (l2, m2)" by (cases "observe_all fs m1")
  have logs: "logs = l1 @ l2" "m' = m2" using Cons.prems o1 o2 by (simp_all add: cf)
  from observe_log [OF o1] Cons.IH [OF o2 [folded logs(2)]] show ?case
    by (auto simp: logs alternates_append after_logs_def)
qed

text \<open>An entry is written only for a full window whose median is beyond its threshold.\<close>

lemma exceeded_justified:
  "close_window cb m = (r, [Lag_exceeded], m') \<Longrightarrow>
   lm_min_samples m \<le> length (judged_lags (lm_lags m) (lm_conns m) (lm_symbols m))
   \<and> lm_threshold m < median (judged_lags (lm_lags m) (lm_conns m) (lm_symbols m))"
  by (auto simp: close_window_def Let_def split: if_splits)

lemma recovered_justified:
  "close_window cb m = (r, [Lag_recovered], m') \<Longrightarrow>
   lm_min_samples m \<le> length (judged_lags (lm_lags m) (lm_conns m) (lm_symbols m))
   \<and> median (judged_lags (lm_lags m) (lm_conns m) (lm_symbols m)) \<le> fl (lm_threshold m / 2)"
  by (auto simp: close_window_def Let_def split: if_splits)

text \<open>The samples of the dominant connection are always judged.\<close>

lemma dominant_in: "conns \<noteq> [] \<Longrightarrow> dominant_conn conns \<in> set conns"
proof -
  assume "conns \<noteq> []"
  then have "Max (set (map (\<lambda>conn. (count_list conns conn, conn)) conns)) \<in> set (map (\<lambda>conn. (count_list conns conn, conn)) conns)" by (intro Max_in) simp_all
  then show ?thesis by (auto simp: dominant_conn_def)
qed

lemma dominant_most: "c \<in> set conns \<Longrightarrow> count_list conns c \<le> count_list conns (dominant_conn conns)"
proof -
  assume c: "c \<in> set conns"
  let ?S = "set (map (\<lambda>conn. (count_list conns conn, conn)) conns)"
  have "(count_list conns c, c) \<le> Max ?S" using c by (intro Max_ge) auto
  moreover have "Max ?S \<in> ?S" using c by (intro Max_in) auto
  then have "Max ?S = (count_list conns (dominant_conn conns), dominant_conn conns)" by (auto simp: dominant_conn_def)
  ultimately show ?thesis by (auto simp: less_eq_prod_def)
qed

lemma dominant_judged:
  "length lags = length conns \<Longrightarrow> count_list conns (dominant_conn conns) \<le> length (judged_lags lags conns symbols)"
proof -
  assume len: "length lags = length conns"
  let ?d = "dominant_conn conns"
  have "count_list conns d = length (filter (\<lambda>(lag, conn). conn = d) (zip lags conns))" for d
    using len by (induction lags conns rule: list_induct2) simp_all
  then have "count_list conns ?d = length (filter (\<lambda>(lag, conn). conn = ?d) (zip lags conns))" .
  also have "\<dots> \<le> length (judged_lags lags conns symbols)"
    unfolding judged_lags_def Let_def length_map by (intro length_filter_mono) (auto dest: set_zip_rightD)
  finally show ?thesis .
qed

text \<open>A monitor whose callback raised keeps an empty open window and judges no later one.\<close>

lemma raising_callback_wedges:
  assumes "lm_conns m = []" "lm_lags m = []" "lm_symbols m = []" "lm_window_id m = Some w" "window_id m f \<noteq> w"
  shows "observe cb f m = ([], m\<lparr>lm_seen := lm_seen m + 1\<rparr>)"
  using assms by (auto simp: observe_def close_window_def window_id_def Let_def split: sum.splits option.splits)

text \<open>
  C29. One alert per episode: whatever frames arrive and however the callback behaves, the log of a
  monitor is a strict alternation of exceeded and recovered, starting with exceeded, and the
  monitor reports being alerted exactly while the last entry is an exceeded one.
\<close>

theorem lag_alerts_alternate:
  assumes "new_lag_monitor threshold_s window_s sample_every min_samples = Inr m" "observe_all fs m = (logs, m')"
  shows "alternates False logs \<and> (lm_alerted m' \<longleftrightarrow> logs \<noteq> [] \<and> last logs = Lag_exceeded)"
proof -
  have "\<not> lm_alerted m" using assms(1) by (auto simp: new_lag_monitor_def split: if_splits)
  with observe_all_log [OF assms(2)] show ?thesis by (simp add: after_logs_def)
qed

definition demo_frame :: "int \<Rightarrow> l0_frame" where
  "demo_frame ns = \<lparr>f_vendor = ''ls'', f_stream = ''S'', f_symbol = ''005930'', f_raw = [], f_recv_mono_ns = 0, f_recv_wall_ns = ns,
     f_conn_seq = 0, f_conn_id = ''c'', f_venue = KRX, f_session = REGULAR_SESSION, f_exchange_event_time = ''090000''\<rparr>"

definition demo_monitor :: lag_monitor where
  "demo_monitor = \<lparr>lm_threshold = 1, lm_window = 5, lm_sample_every = 1, lm_min_samples = 1,
        lm_seen = 0, lm_window_id = None, lm_lags = [], lm_conns = [], lm_symbols = [], lm_alerted = False\<rparr>"

lemma fl_numeral: "numeral n \<le> (2 :: int) ^ 53 \<Longrightarrow> fl (numeral n) = numeral n"
  using fl_of_int [of "numeral n"] by simp

lemma demo_lags: "lag_s (demo_frame 3000000000) = Inr (Some 3)" "lag_s (demo_frame 6000000000) = Inr (Some 6)"
proof -
  have st: "stamp_of (demo_frame n) = Some ''090000''" for n by (simp add: stamp_of_def demo_frame_def is_digit_def)
  have h: "hms ''090000'' = (9, 0, 0)" by (simp add: hms_def parse_nat_def digit_val_def)
  have r: "recv_us 3000000000 = 3000000" "recv_us 6000000000 = 6000000" using rne_of_int [of 0] by (simp_all add: recv_us_def Let_def fl_numeral)
  show "lag_s (demo_frame 3000000000) = Inr (Some 3)" "lag_s (demo_frame 6000000000) = Inr (Some 6)"
    unfolding lag_s_def st option.case h using r by (simp_all add: demo_frame_def kst_tod_def kst_off_def mk_time_def fl_numeral)
qed

lemma demo_run: "fst (observe_all [(No_callback, demo_frame 3000000000), (No_callback, demo_frame 6000000000)] demo_monitor) = [Lag_exceeded]"
proof -
  have w: "window_id m (demo_frame 3000000000) = 0" "window_id m (demo_frame 6000000000) = 1" if "lm_window m = 5" for m
    using that by (simp_all add: window_id_def demo_frame_def fl_numeral floor_eq_iff)
  have m: "judged_lags [3] [''c''] [''005930''] = [3]" "median [3] = 3" by (simp_all add: judged_lags_def dominant_conn_def symbols_of_def median_def)
  show ?thesis by (simp add: observe_def demo_lags Let_def w append_lag_def close_window_def demo_monitor_def m) (simp add: demo_frame_def m)
qed

theorem lag_alerts_alternate_witness:
  "new_lag_monitor 1 5 1 1 = Inr demo_monitor
   \<and> fst (observe_all [(No_callback, demo_frame 3000000000), (No_callback, demo_frame 6000000000)] demo_monitor) = [Lag_exceeded]
   \<and> lm_alerted (snd (observe_all [(No_callback, demo_frame 3000000000), (No_callback, demo_frame 6000000000)] demo_monitor))"
proof -
  have n: "new_lag_monitor 1 5 1 1 = Inr demo_monitor" by (simp add: new_lag_monitor_def demo_monitor_def)
  obtain m' where r: "observe_all [(No_callback, demo_frame 3000000000), (No_callback, demo_frame 6000000000)] demo_monitor = ([Lag_exceeded], m')"
    using demo_run by (metis prod.collapse)
  show ?thesis using lag_alerts_alternate [OF n r] n r by simp
qed

end
