(* ===== verification/Retention.thy ===== *)
theory Retention
  imports Layout
begin

text \<open>
  Journal retention, \<open>src/storage/retention.py\<close>: which journal partitions may be deleted, which are
  normalised first and which are quarantined, and the pruning of the local archive. The file system is
  a record of dictionaries by relative path: a journal partition is the modification times of its files,
  an archive object its row count (\<open>None\<close> when the footer cannot be read) and modification time.
  Partitions do not nest. The normaliser is an argument: it raises one of three errors or returns
  a row count and the object it leaves behind, if any.
\<close>

record l1_file =
  l1_rows :: "int option"
  l1_mtime :: int

record store =
  st_journal :: "(path, int list) dict"
  st_archive :: "(path, l1_file) dict"
  st_quarantine :: "(path, int list) dict"

record prune_stats =
  ps_deleted :: nat
  ps_normalized :: nat
  ps_failed :: nat
  ps_reused :: nat
  ps_invalidated :: "string list"
  ps_held :: "string list"

datatype norm_error = L1StorageIO | L1WorkerCrash | L1Normalization string

record prune_cfg =
  pc_retain_days :: int
  pc_reference :: date
  pc_quarantine :: bool
  pc_normalizer :: "path \<Rightarrow> int list \<Rightarrow> norm_error + int \<times> l1_file option"
  pc_verified :: "string set option"
  pc_normalize :: bool
  pc_reuse_fresh :: bool
  pc_hold :: "(path \<Rightarrow> string option) option"

section \<open>Dates in names\<close>

text \<open>The date text of a match of \<open>_DT_RE\<close> at the start of a text.\<close>

definition dt_at :: "string \<Rightarrow> string option" where
  "dt_at s = (let d = take 10 (drop 3 s) in
     if startswith s ''dt='' \<and> length d = 10 \<and> list_all is_digit (take 4 d) \<and> d ! 4 = CHR ''-''
        \<and> list_all is_digit (take 2 (drop 5 d)) \<and> d ! 7 = CHR ''-'' \<and> list_all is_digit (drop 8 d)
     then Some d else None)"

definition dt_fullmatch :: "string \<Rightarrow> string option" where
  "dt_fullmatch s = (if length s = 13 then dt_at s else None)"

fun dt_search :: "string \<Rightarrow> string option" where
  "dt_search [] = None"
| "dt_search (c # s) = (case dt_at (c # s) of Some d \<Rightarrow> Some d | None \<Rightarrow> dt_search s)"

text \<open>\<open>dt.date.fromisoformat\<close> of a matched text, \<open>None\<close> without a match; an impossible date raises.\<close>

definition part_date :: "string option \<Rightarrow> date option result" where
  "part_date m = (case m of None \<Rightarrow> Inr None | Some d \<Rightarrow>
     (case date_fromisoformat d of None \<Rightarrow> Inl (ValueError ''Invalid isoformat string'') | Some day \<Rightarrow> Inr (Some day)))"

definition cutoff :: "date \<Rightarrow> int \<Rightarrow> int" where
  "cutoff ref retain_days = toordinal ref - retain_days"

section \<open>Pruning the journal\<close>

definition l1_path_of :: "path \<Rightarrow> path" where
  "l1_path_of part = l1_relpath_for_l0_partition part"

definition reusable_l1_rows :: "int list \<Rightarrow> l1_file option \<Rightarrow> int option" where
  "reusable_l1_rows files out = (case out of
       None \<Rightarrow> None
     | Some f \<Rightarrow> if files \<noteq> [] \<and> l1_mtime f < Max (set files) then None
         else (case l1_rows f of None \<Rightarrow> None | Some n \<Rightarrow> if n \<le> 0 then None else Some n))"

definition verified :: "prune_cfg \<Rightarrow> path \<Rightarrow> bool" where
  "verified c part \<longleftrightarrow> (case pc_verified c of None \<Rightarrow> False | Some v \<Rightarrow> l1_repo_path (l1_path_of part) \<in> v)"

definition hold_reason :: "prune_cfg \<Rightarrow> path \<Rightarrow> string option" where
  "hold_reason c part = (case pc_hold c of None \<Rightarrow> None | Some h \<Rightarrow> h part)"

type_synonym prune_state = "store \<times> prune_stats"

definition delete_part :: "path \<Rightarrow> int list \<Rightarrow> prune_state \<Rightarrow> prune_state" where
  "delete_part part files ss = (case ss of (s, ps) \<Rightarrow>
     (s\<lparr>st_journal := AList.delete part (st_journal s)\<rparr>, ps\<lparr>ps_deleted := ps_deleted ps + length files\<rparr>))"

text \<open>Deletion of a normalised partition: only with a remote verification, and not while it is held.\<close>

definition release_part :: "prune_cfg \<Rightarrow> path \<Rightarrow> int list \<Rightarrow> prune_state \<Rightarrow> prune_state" where
  "release_part c part files ss =
     (if \<not> verified c part then ss
      else if hold_reason c part \<noteq> None then (case ss of (s, ps) \<Rightarrow> (s, ps\<lparr>ps_held := l1_repo_path (l1_path_of part) # ps_held ps\<rparr>))
      else delete_part part files ss)"

definition quarantine_part :: "prune_cfg \<Rightarrow> path \<Rightarrow> int list \<Rightarrow> store \<Rightarrow> store" where
  "quarantine_part c part files s =
     (if \<not> pc_quarantine c then s
      else if map_of (st_quarantine s) part \<noteq> None then s
      else s\<lparr>st_journal := AList.delete part (st_journal s), st_quarantine := AList.update part files (st_quarantine s)\<rparr>)"

definition normalize_part :: "prune_cfg \<Rightarrow> path \<Rightarrow> int list \<Rightarrow> prune_state \<Rightarrow> prune_state" where
  "normalize_part c part files ss = (case ss of (s, ps) \<Rightarrow>
     (case pc_normalizer c part files of
        Inl (L1Normalization _) \<Rightarrow> (quarantine_part c part files s, ps\<lparr>ps_failed := ps_failed ps + 1\<rparr>)
      | Inl _ \<Rightarrow> (s, ps\<lparr>ps_failed := ps_failed ps + 1\<rparr>)
      | Inr (rows, out) \<Rightarrow>
          (let s' = (case out of None \<Rightarrow> s | Some f \<Rightarrow> s\<lparr>st_archive := AList.update (l1_path_of part) f (st_archive s)\<rparr>) in
           if rows \<le> 0 \<or> map_of (st_archive s') (l1_path_of part) = None then (s', ps)
           else let ps' = ps\<lparr>ps_normalized := ps_normalized ps + 1\<rparr> in
             if pc_reuse_fresh c then (s', ps') else release_part c part files (s', ps'))))"

definition prune_eligible :: "prune_cfg \<Rightarrow> path \<Rightarrow> int list \<Rightarrow> prune_state \<Rightarrow> prune_state" where
  "prune_eligible c part files ss = (case ss of (s, ps) \<Rightarrow>
     let out = map_of (st_archive s) (l1_path_of part); rel = l1_repo_path (l1_path_of part) in
     if \<not> pc_normalize c then (if out \<noteq> None \<and> verified c part then delete_part part files ss else ss)
     else if pc_reuse_fresh c then
       (if reusable_l1_rows files out \<noteq> None
        then release_part c part files (s, ps\<lparr>ps_normalized := ps_normalized ps + 1, ps_reused := ps_reused ps + 1\<rparr>)
        else normalize_part c part files (s, ps\<lparr>ps_invalidated := rel # ps_invalidated ps\<rparr>))
     else normalize_part c part files ss)"

definition prune_one :: "prune_cfg \<Rightarrow> path \<times> int list \<Rightarrow> prune_state \<Rightarrow> unit result \<times> prune_state" where
  "prune_one c entry ss = (case entry of (part, files) \<Rightarrow>
     case part_date (dt_fullmatch (path_name part)) of
       Inl e \<Rightarrow> (Inl e, ss)
     | Inr None \<Rightarrow> (Inr (), ss)
     | Inr (Some day) \<Rightarrow> if cutoff (pc_reference c) (pc_retain_days c) \<le> toordinal day then (Inr (), ss)
         else (Inr (), prune_eligible c part files ss))"

text \<open>The partitions are listed before the loop: the directories whose name starts with \<open>dt=\<close>.\<close>

definition prune_old_journals :: "prune_cfg \<Rightarrow> store \<Rightarrow> unit result \<times> prune_state" where
  "prune_old_journals c s = for_each (prune_one c) (filter (\<lambda>(p, _). startswith (path_name p) ''dt='') (st_journal s))
     (s, \<lparr>ps_deleted = 0, ps_normalized = 0, ps_failed = 0, ps_reused = 0, ps_invalidated = [], ps_held = []\<rparr>)"

section \<open>Pruning the local archive\<close>

definition tick_tape_root :: "string list" where
  "tick_tape_root = [''history'', ''tick_tape'', ''kiwoom'']"

definition l1_date_text :: "path \<Rightarrow> string option" where
  "l1_date_text p = (case dt_search (path_name p) of
       Some d \<Rightarrow> Some d
     | None \<Rightarrow> if take 3 (snd p) = tick_tape_root then dt_fullmatch (path_name (parent p)) else None)"

definition prune_l1_one :: "int \<Rightarrow> string set \<Rightarrow> path \<Rightarrow> (path, l1_file) dict \<times> nat \<Rightarrow> unit result \<times> (path, l1_file) dict \<times> nat" where
  "prune_l1_one limit confirmed p an = (case part_date (l1_date_text p) of
       Inl e \<Rightarrow> (Inl e, an)
     | Inr None \<Rightarrow> (Inr (), an)
     | Inr (Some day) \<Rightarrow> if limit \<le> toordinal day then (Inr (), an)
         else if l1_repo_path p \<notin> confirmed then (Inr (), an)
         else (case an of (a, n) \<Rightarrow> (Inr (), AList.delete p a, n + 1)))"

definition prune_local_l1 :: "date \<Rightarrow> int \<Rightarrow> string set option \<Rightarrow> (path, l1_file) dict \<Rightarrow> unit result \<times> (path, l1_file) dict \<times> nat" where
  "prune_local_l1 ref retain_days confirmed a = (case confirmed of
       None \<Rightarrow> (Inr (), a, 0)
     | Some cs \<Rightarrow> for_each (prune_l1_one (cutoff ref retain_days) cs)
         (filter (\<lambda>p. fnmatch ''*.parquet'' (path_name p)) (map fst a)) (a, 0))"

section \<open>What a deletion needs\<close>

definition old_enough :: "prune_cfg \<Rightarrow> path \<Rightarrow> bool" where
  "old_enough c part \<longleftrightarrow> (\<exists>d day. dt_fullmatch (path_name part) = Some d \<and> date_fromisoformat d = Some day
     \<and> toordinal day < cutoff (pc_reference c) (pc_retain_days c))"

definition deletable :: "prune_cfg \<Rightarrow> path \<Rightarrow> store \<Rightarrow> bool" where
  "deletable c part s \<longleftrightarrow> old_enough c part \<and> verified c part \<and> map_of (st_archive s) (l1_path_of part) \<noteq> None
     \<and> (pc_normalize c \<longrightarrow> hold_reason c part = None)"

text \<open>
  A step keeps every partition it does not delete or quarantine, deletes only deletable ones, and never
  removes an archive object.
\<close>

definition kept_or_safe :: "prune_cfg \<Rightarrow> store \<Rightarrow> store \<Rightarrow> bool" where
  "kept_or_safe c s s' \<longleftrightarrow>
     (\<forall>p fs. map_of (st_journal s) p = Some fs \<longrightarrow> map_of (st_journal s') p = Some fs
        \<or> deletable c p s' \<or> pc_quarantine c \<and> map_of (st_quarantine s') p = Some fs)
   \<and> (\<forall>p. map_of (st_archive s) p \<noteq> None \<longrightarrow> map_of (st_archive s') p \<noteq> None)
   \<and> (\<forall>p fs. map_of (st_quarantine s) p = Some fs \<longrightarrow> map_of (st_quarantine s') p = Some fs)"

lemma kept_or_safe_refl [simp]: "kept_or_safe c s s"
  by (simp add: kept_or_safe_def)

lemma kept_or_safe_trans:
  assumes "kept_or_safe c s s'" "kept_or_safe c s' s''"
  shows "kept_or_safe c s s''"
proof -
  have keep: "deletable c p s' \<Longrightarrow> deletable c p s''" for p using assms(2) unfolding kept_or_safe_def deletable_def by blast
  have "map_of (st_journal s'') p = Some fs \<or> deletable c p s'' \<or> pc_quarantine c \<and> map_of (st_quarantine s'') p = Some fs"
    if "map_of (st_journal s) p = Some fs" for p fs
    using assms that keep unfolding kept_or_safe_def by (metis (no_types, lifting))
  with assms show ?thesis unfolding kept_or_safe_def by (metis (no_types, lifting))
qed

lemma delete_part_store [simp]: "fst (delete_part part files (s, ps)) = s\<lparr>st_journal := AList.delete part (st_journal s)\<rparr>"
  by (simp add: delete_part_def)

lemma deletion_safe: "deletable c part s \<Longrightarrow> kept_or_safe c s (s\<lparr>st_journal := AList.delete part (st_journal s)\<rparr>)"
  by (auto simp: kept_or_safe_def deletable_def)

lemma release_safe:
  "old_enough c part \<Longrightarrow> map_of (st_archive s) (l1_path_of part) \<noteq> None \<Longrightarrow> kept_or_safe c s (fst (release_part c part files (s, ps)))"
  by (auto simp: release_part_def deletable_def intro!: deletion_safe)

lemma archive_safe: "kept_or_safe c s (s\<lparr>st_archive := AList.update p f (st_archive s)\<rparr>)"
  by (auto simp: kept_or_safe_def)

lemma quarantine_safe:
  assumes "map_of (st_journal s) part = Some files"
  shows "kept_or_safe c s (quarantine_part c part files s)"
  using assms by (auto simp: quarantine_part_def kept_or_safe_def)

lemma normalize_safe:
  assumes "map_of (st_journal s) part = Some files" "old_enough c part"
  shows "kept_or_safe c s (fst (normalize_part c part files (s, ps)))"
proof (cases "pc_normalizer c part files")
  case (Inl e)
  then show ?thesis using assms quarantine_safe by (cases e) (auto simp: normalize_part_def)
next
  case (Inr ro)
  obtain rows out where ro: "ro = (rows, out)" by (cases ro)
  let ?s = "case out of None \<Rightarrow> s | Some f \<Rightarrow> s\<lparr>st_archive := AList.update (l1_path_of part) f (st_archive s)\<rparr>"
  have safe: "kept_or_safe c s ?s" using archive_safe by (cases out) auto
  show ?thesis
  proof (cases "rows \<le> 0 \<or> map_of (st_archive ?s) (l1_path_of part) = None \<or> pc_reuse_fresh c")
    case True
    then have "fst (normalize_part c part files (s, ps)) = ?s" by (auto simp: normalize_part_def Inr ro Let_def)
    with safe show ?thesis by simp
  next
    case False
    then have "fst (normalize_part c part files (s, ps)) = fst (release_part c part files (?s, ps\<lparr>ps_normalized := ps_normalized ps + 1\<rparr>))"
      by (auto simp: normalize_part_def Inr ro Let_def)
    moreover have "kept_or_safe c ?s (fst (release_part c part files (?s, ps\<lparr>ps_normalized := ps_normalized ps + 1\<rparr>)))"
      using False assms(2) by (intro release_safe) simp_all
    ultimately show ?thesis using kept_or_safe_trans [OF safe] by simp
  qed
qed

lemma eligible_safe:
  assumes "map_of (st_journal s) part = Some files" "old_enough c part"
  shows "kept_or_safe c s (fst (prune_eligible c part files (s, ps)))"
proof -
  have reuse: "reusable_l1_rows files (map_of (st_archive s) (l1_path_of part)) \<noteq> None \<Longrightarrow> map_of (st_archive s) (l1_path_of part) \<noteq> None"
    by (cases "map_of (st_archive s) (l1_path_of part)") (simp_all add: reusable_l1_rows_def)
  show ?thesis
    using assms release_safe [OF assms(2)] normalize_safe [OF assms] reuse deletion_safe [of c part s]
    by (auto simp: prune_eligible_def Let_def deletable_def)
qed

section \<open>A whole prune\<close>

lemma release_others: "p \<noteq> part \<Longrightarrow> map_of (st_journal (fst (release_part c part files (s, ps)))) p = map_of (st_journal s) p"
  by (simp add: release_part_def)

lemma normalize_others: "p \<noteq> part \<Longrightarrow> map_of (st_journal (fst (normalize_part c part files (s, ps)))) p = map_of (st_journal s) p"
  by (auto simp: normalize_part_def quarantine_part_def release_others Let_def split: sum.splits norm_error.splits prod.splits option.splits)

lemma eligible_others: "p \<noteq> part \<Longrightarrow> map_of (st_journal (fst (prune_eligible c part files (s, ps)))) p = map_of (st_journal s) p"
  by (auto simp: prune_eligible_def release_others normalize_others Let_def)

lemma prune_one_safe:
  assumes "prune_one c (part, files) (s, ps) = (r, s', ps')" "map_of (st_journal s) part = Some files"
  shows "kept_or_safe c s s' \<and> (\<forall>p. p \<noteq> part \<longrightarrow> map_of (st_journal s') p = map_of (st_journal s) p)"
proof (cases "s' = s")
  case False
  then obtain day where day: "part_date (dt_fullmatch (path_name part)) = Inr (Some day)" "toordinal day < cutoff (pc_reference c) (pc_retain_days c)"
    and s': "s' = fst (prune_eligible c part files (s, ps))"
    using assms(1) by (auto simp: prune_one_def split: sum.splits option.splits if_splits)
  have "old_enough c part" using day by (auto simp: old_enough_def part_date_def split: option.splits)
  then show ?thesis unfolding s' using eligible_safe [OF assms(2)] eligible_others by auto
qed simp

lemma prune_loop_safe:
  assumes "for_each (prune_one c) es (s, ps) = (r, s', ps')" "distinct (map fst es)" "\<forall>(p, fs) \<in> set es. map_of (st_journal s) p = Some fs"
  shows "kept_or_safe c s s'"
  using assms
proof (induction es arbitrary: s ps)
  case (Cons e es)
  obtain part files where e: "e = (part, files)" by (cases e)
  obtain r1 s1 ps1 where one: "prune_one c e (s, ps) = (r1, s1, ps1)" by (cases "prune_one c e (s, ps)") auto
  have safe: "kept_or_safe c s s1" "\<forall>p. p \<noteq> part \<longrightarrow> map_of (st_journal s1) p = map_of (st_journal s) p"
    using prune_one_safe [OF one [unfolded e]] Cons.prems(3) e by auto
  show ?case
  proof (cases r1)
    case (Inl x)
    then show ?thesis using Cons.prems(1) one safe(1) by simp
  next
    case (Inr u)
    have "\<forall>(p, fs) \<in> set es. map_of (st_journal s1) p = Some fs" using Cons.prems(2,3) safe(2) e by force
    with Cons Inr one have "kept_or_safe c s1 s'" by simp
    with safe(1) show ?thesis by (rule kept_or_safe_trans)
  qed
qed simp


lemma prune_local_l1_safe:
  assumes "prune_local_l1 ref days confirmed a = (r, a', n)" "map_of a p = Some f" "map_of a' p = None"
  shows "\<exists>cs d day. confirmed = Some cs \<and> l1_repo_path p \<in> cs \<and> l1_date_text p = Some d \<and> date_fromisoformat d = Some day \<and> toordinal day < cutoff ref days"
proof (cases confirmed)
  case None
  then show ?thesis using assms by (simp add: prune_local_l1_def)
next
  case (Some cs)
  let ?ok = "\<lambda>p. l1_repo_path p \<in> cs \<and> (\<exists>d day. l1_date_text p = Some d \<and> date_fromisoformat d = Some day \<and> toordinal day < cutoff ref days)"
  let ?P = "\<lambda>an. map_of (fst an) p = Some f \<or> ?ok p"
  have "?P (snd (for_each (prune_l1_one (cutoff ref days) cs) qs (a, 0)))" for qs
    by (rule for_each_inv) (use assms(2) in \<open>auto simp: prune_l1_one_def part_date_def split: sum.splits option.splits if_splits\<close>)
  then show ?thesis using assms Some by (auto simp: prune_local_l1_def) (metis fst_conv option.distinct(1) snd_conv)+
qed

text \<open>An old partition whose archive object is verified is deleted; the recent one stays.\<close>

definition demo_part :: "string \<Rightarrow> path" where
  "demo_part name = (False, [''ls'', ''krx'', ''regular'', ''S'', name])"

definition demo_store :: store where
  "demo_store = \<lparr>st_journal = [(demo_part ''dt=2026-01-02'', [5, 7]), (demo_part ''dt=2026-01-09'', [9])],
     st_archive = [(demo_part ''dt=2026-01-02.parquet'', \<lparr>l1_rows = Some 3, l1_mtime = 8\<rparr>)], st_quarantine = []\<rparr>"

definition demo_cfg :: prune_cfg where
  "demo_cfg = \<lparr>pc_retain_days = 3, pc_reference = \<lparr>d_year = 2026, d_month = 1, d_day = 10\<rparr>, pc_quarantine = True, pc_normalizer = (\<lambda>_ _. Inl L1StorageIO),
     pc_verified = Some {''l1/ls/krx/regular/S/dt=2026-01-02.parquet''}, pc_normalize = True, pc_reuse_fresh = True, pc_hold = None\<rparr>"

lemma demo_dates: "part_date (dt_fullmatch ''dt=2026-01-02'') = Inr (Some \<lparr>d_year = 2026, d_month = 1, d_day = 2\<rparr>)"
  "part_date (dt_fullmatch ''dt=2026-01-09'') = Inr (Some \<lparr>d_year = 2026, d_month = 1, d_day = 9\<rparr>)"
proof -
  have iso: "date_isoformat \<lparr>d_year = 2026, d_month = 1, d_day = 2\<rparr> = ''2026-01-02''" "date_isoformat \<lparr>d_year = 2026, d_month = 1, d_day = 9\<rparr> = ''2026-01-09''"
    by (simp_all add: date_isoformat_def show4_def show2_def zfill_def show_eval)
  have v: "valid_date \<lparr>d_year = 2026, d_month = 1, d_day = 2\<rparr>" "valid_date \<lparr>d_year = 2026, d_month = 1, d_day = 9\<rparr>"
    by (simp_all add: valid_date_def days_in_month_def)
  have "dt_fullmatch ''dt=2026-01-02'' = Some ''2026-01-02''" "dt_fullmatch ''dt=2026-01-09'' = Some ''2026-01-09''"
    by (simp_all add: dt_fullmatch_def dt_at_def startswith_def is_digit_def)
  then show "part_date (dt_fullmatch ''dt=2026-01-02'') = Inr (Some \<lparr>d_year = 2026, d_month = 1, d_day = 2\<rparr>)"
    "part_date (dt_fullmatch ''dt=2026-01-09'') = Inr (Some \<lparr>d_year = 2026, d_month = 1, d_day = 9\<rparr>)"
    using date_fromisoformat_show [OF v(1), unfolded iso] date_fromisoformat_show [OF v(2), unfolded iso] by (simp_all add: part_date_def)
qed

lemma demo_l1: "l1_path_of (demo_part ''dt=2026-01-02'') = demo_part ''dt=2026-01-02.parquet''"
  "l1_repo_path (demo_part ''dt=2026-01-02.parquet'') = ''l1/ls/krx/regular/S/dt=2026-01-02.parquet''"
proof -
  have p: "plain ''dt=2026-01-02.parquet''" by (simp add: plain_def)
  show "l1_path_of (demo_part ''dt=2026-01-02'') = demo_part ''dt=2026-01-02.parquet''"
    using path_join_plain [OF p] by (simp add: l1_path_of_def l1_relpath_for_l0_partition_def demo_part_def parent_def path_name_def)
  show "l1_repo_path (demo_part ''dt=2026-01-02.parquet'') = ''l1/ls/krx/regular/S/dt=2026-01-02.parquet''"
    by (simp add: l1_repo_path_def L1_REPO_PREFIX_def as_posix_def demo_part_def)
qed

lemma demo_prune: "fst (snd (prune_old_journals demo_cfg demo_store)) = demo_store\<lparr>st_journal := [(demo_part ''dt=2026-01-09'', [9])]\<rparr>"
proof -
  have names: "path_name (demo_part n) = n" for n by (simp add: demo_part_def path_name_def)
  have ne: "demo_part ''dt=2026-01-02'' \<noteq> demo_part ''dt=2026-01-09''" by (simp add: demo_part_def)
  have old: "toordinal \<lparr>d_year = 2026, d_month = 1, d_day = 2\<rparr> < cutoff (pc_reference demo_cfg) (pc_retain_days demo_cfg)"
    "\<not> toordinal \<lparr>d_year = 2026, d_month = 1, d_day = 9\<rparr> < cutoff (pc_reference demo_cfg) (pc_retain_days demo_cfg)"
    by (simp_all add: toordinal_def cutoff_def demo_cfg_def days_before_month_def)
  have el: "prune_eligible demo_cfg (demo_part ''dt=2026-01-02'') [5, 7] (demo_store, ps)
      = delete_part (demo_part ''dt=2026-01-02'') [5, 7] (demo_store, ps\<lparr>ps_normalized := ps_normalized ps + 1, ps_reused := ps_reused ps + 1\<rparr>)" for ps
    by (simp add: prune_eligible_def demo_l1 Let_def release_part_def verified_def hold_reason_def demo_cfg_def demo_store_def reusable_l1_rows_def)
  show ?thesis using old ne
    by (simp add: prune_old_journals_def demo_store_def names startswith_def)
      (simp add: prune_one_def names demo_dates el [unfolded demo_store_def] delete_part_def demo_store_def)
qed


end
