(* ===== verification/TradingCalendar.thy ===== *)
theory TradingCalendar
  imports Calendar Layout Recovery
begin

text \<open>
  Trading days: the vendor envelope and the cache of \<open>src/marketdata/toss_calendar.py\<close>, and the gate of
  \<open>src/orchestration/trading_day_gate.py\<close> that every daemon state asks. An HTTP answer is the decoded body or
  the exception of the request. Dates are read in the extended ISO form.
\<close>

record trading_day =
  td_date :: date
  td_is_business_day :: bool
  td_previous_business_day :: date
  td_next_business_day :: date
  td_anchors :: "session_anchors option"
  td_next_anchors :: "session_anchors option"

section \<open>The vendor envelope\<close>

fun replace_Z :: "string \<Rightarrow> string" where
  "replace_Z [] = []"
| "replace_Z (c # s) = (if c = CHR ''Z'' then ''+00:00'' @ replace_Z s else c # replace_Z s)"

definition parse_vendor_time :: "date \<Rightarrow> json \<Rightarrow> time option" where
  "parse_vendor_time day value = (case value of
       JStr s \<Rightarrow> if s = [] then None
         else (case fromisoformat (replace_Z s) of
                 Some (d, t, Some off) \<Rightarrow>
                   (let moment = utc_us \<lparr>dt_date = d, dt_tod = t, dt_off = off\<rparr> in
                    if kst_day moment \<noteq> toordinal day then None else Some (kst_tod moment))
               | _ \<Rightarrow> None)
     | _ \<Rightarrow> None)"

definition after_market_end_of :: "date \<Rightarrow> json \<Rightarrow> time option" where
  "after_market_end_of day after = (case after of
       JNull \<Rightarrow> Some STANDARD_AFTER_MARKET_END
     | JObj ob \<Rightarrow> parse_vendor_time day (jget ob ''endTime'')
     | _ \<Rightarrow> None)"

definition parse_session_anchors :: "date \<Rightarrow> jobj option \<Rightarrow> session_anchors option" where
  "parse_session_anchors day integrated = (case integrated of
       None \<Rightarrow> None
     | Some ob \<Rightarrow> (case jget ob ''regularMarket'' of
         JObj regular \<Rightarrow>
           Option.bind (parse_vendor_time day (jget regular ''startTime'')) (\<lambda>ro.
           Option.bind (parse_vendor_time day (jget regular ''singlePriceAuctionStartTime'')) (\<lambda>ca.
           Option.bind (parse_vendor_time day (jget regular ''endTime'')) (\<lambda>rc.
           Option.bind (after_market_end_of day (jget ob ''afterMarket'')) (\<lambda>ae.
             case post_init \<lparr>sa_date = day, sa_regular_open = ro, sa_closing_auction_start = ca, sa_regular_close = rc,
                 sa_after_market_end = ae, sa_source = VENDOR\<rparr> of Inl _ \<Rightarrow> None | Inr a \<Rightarrow> Some a))))
       | _ \<Rightarrow> None))"

definition obj_item :: "json \<Rightarrow> string \<Rightarrow> json option" where
  "obj_item j k = (case j of JObj ob \<Rightarrow> map_of ob k | _ \<Rightarrow> None)"

definition date_item :: "json \<Rightarrow> string \<Rightarrow> date option" where
  "date_item j k = (case obj_item j k of Some (JStr s) \<Rightarrow> date_fromisoformat s | _ \<Rightarrow> None)"

definition integrated_of :: "json \<Rightarrow> jobj option" where
  "integrated_of j = (case j of JObj ob \<Rightarrow> Some ob | _ \<Rightarrow> None)"

definition read_envelope :: "json \<Rightarrow> trading_day option" where
  "read_envelope body =
     Option.bind (obj_item body ''result'') (\<lambda>result. Option.bind (obj_item result ''today'') (\<lambda>today.
     Option.bind (obj_item result ''previousBusinessDay'') (\<lambda>prev. Option.bind (obj_item result ''nextBusinessDay'') (\<lambda>nxt.
     Option.bind (obj_item today ''integrated'') (\<lambda>integrated. Option.bind (date_item today ''date'') (\<lambda>date.
     Option.bind (date_item prev ''date'') (\<lambda>previous. Option.bind (date_item nxt ''date'') (\<lambda>next_day.
       Some \<lparr>td_date = date, td_is_business_day = (integrated \<noteq> JNull), td_previous_business_day = previous, td_next_business_day = next_day,
         td_anchors = parse_session_anchors date (integrated_of integrated),
         td_next_anchors = parse_session_anchors next_day (Option.bind (obj_item nxt ''integrated'') integrated_of)\<rparr>))))))))"

text \<open>\<open>fetch_trading_day\<close>: a rejected token is rotated once; \<open>get k\<close> is the answer to the request made with token \<open>k\<close>.\<close>

datatype toss_answer = TossBody json | TossAuthRejected | TossFailed

definition fetch_with_token :: "toss_answer \<Rightarrow> toss_answer + trading_day" where
  "fetch_with_token answer = (case answer of
       TossBody body \<Rightarrow> (case read_envelope body of None \<Rightarrow> Inl TossFailed | Some d \<Rightarrow> Inr d)
     | other \<Rightarrow> Inl other)"

definition fetch_trading_day :: "('t \<Rightarrow> toss_answer) \<Rightarrow> 't \<Rightarrow> ('t \<Rightarrow> 't) \<Rightarrow> toss_answer + trading_day" where
  "fetch_trading_day get token renew = (case fetch_with_token (get token) of
       Inl TossAuthRejected \<Rightarrow> fetch_with_token (get (renew token))
     | r \<Rightarrow> r)"

section \<open>The cache\<close>

definition save_trading_day_cache :: "trading_day \<Rightarrow> json" where
  "save_trading_day_cache d = JObj [(''date'', JStr (date_isoformat (td_date d))), (''is_business_day'', JBool (td_is_business_day d)),
     (''previous_business_day'', JStr (date_isoformat (td_previous_business_day d))), (''next_business_day'', JStr (date_isoformat (td_next_business_day d)))]"

definition cached_date :: "jobj \<Rightarrow> string \<Rightarrow> date option" where
  "cached_date raw k = Option.bind (map_of raw k) (\<lambda>v. date_fromisoformat (py_str v))"

definition load_trading_day_cache :: "json option \<Rightarrow> trading_day option" where
  "load_trading_day_cache doc = (case doc of
       Some (JObj raw) \<Rightarrow>
         Option.bind (cached_date raw ''date'') (\<lambda>date. Option.bind (map_of raw ''is_business_day'') (\<lambda>b.
         Option.bind (cached_date raw ''previous_business_day'') (\<lambda>p. Option.bind (cached_date raw ''next_business_day'') (\<lambda>n.
           Some \<lparr>td_date = date, td_is_business_day = truthy b, td_previous_business_day = p, td_next_business_day = n, td_anchors = None, td_next_anchors = None\<rparr>))))
     | _ \<Rightarrow> None)"

definition trading_day_from_cache :: "trading_day \<Rightarrow> date \<Rightarrow> trading_day option" where
  "trading_day_from_cache cached today =
     (if today = td_date cached then Some cached
      else let last_business = (if td_is_business_day cached then td_date cached else td_previous_business_day cached) in
        if today = td_next_business_day cached then
          Some \<lparr>td_date = today, td_is_business_day = True, td_previous_business_day = last_business, td_next_business_day = today, td_anchors = None, td_next_anchors = None\<rparr>
        else if toordinal (td_date cached) < toordinal today \<and> toordinal today < toordinal (td_next_business_day cached) then
          Some \<lparr>td_date = today, td_is_business_day = False, td_previous_business_day = last_business, td_next_business_day = td_next_business_day cached, td_anchors = None, td_next_anchors = None\<rparr>
        else None)"

section \<open>The gate\<close>

definition UNKNOWN_RETRY_INTERVAL :: timedelta where "UNKNOWN_RETRY_INTERVAL = seconds 1800"

datatype trading_day_status = BUSINESS | HOLIDAY | UNKNOWN_DAY

record trading_day_view =
  tv_date :: date
  tv_status :: trading_day_status
  tv_day :: "trading_day option"

record day_gate =
  dg_retry_interval :: timedelta
  dg_date :: "date option"
  dg_view :: "trading_day_view option"
  dg_last_attempt :: "int option"

definition new_day_gate :: "timedelta \<Rightarrow> day_gate" where
  "new_day_gate retry_interval = \<lparr>dg_retry_interval = retry_interval, dg_date = None, dg_view = None, dg_last_attempt = None\<rparr>"

text \<open>A view returns whether the resolver was called, with \<open>answer\<close> what it would return.\<close>

definition resolve_day :: "date \<Rightarrow> int \<Rightarrow> trading_day option \<Rightarrow> day_gate \<Rightarrow> (trading_day_view \<times> bool) \<times> day_gate" where
  "resolve_day today now answer g =
     (let v = (case answer of
           None \<Rightarrow> \<lparr>tv_date = today, tv_status = UNKNOWN_DAY, tv_day = None\<rparr>
         | Some day \<Rightarrow> if td_date day \<noteq> today then \<lparr>tv_date = today, tv_status = UNKNOWN_DAY, tv_day = None\<rparr>
             else if td_is_business_day day then \<lparr>tv_date = today, tv_status = BUSINESS, tv_day = Some day\<rparr>
             else \<lparr>tv_date = today, tv_status = HOLIDAY, tv_day = Some day\<rparr>) in
      ((v, True), g\<lparr>dg_date := Some today, dg_last_attempt := Some now, dg_view := Some v\<rparr>))"

definition view :: "date \<Rightarrow> int \<Rightarrow> trading_day option \<Rightarrow> day_gate \<Rightarrow> (trading_day_view \<times> bool) \<times> day_gate" where
  "view today now answer g =
     (if dg_date g \<noteq> Some today then resolve_day today now answer g
      else if tv_status (the (dg_view g)) \<noteq> UNKNOWN_DAY then ((the (dg_view g), False), g)
      else if dg_retry_interval g \<le> now - the (dg_last_attempt g) then resolve_day today now answer g
      else ((the (dg_view g), False), g))"

fun view_all :: "date \<Rightarrow> (int \<times> trading_day option) list \<Rightarrow> day_gate \<Rightarrow> (trading_day_view \<times> bool) list" where
  "view_all today [] g = []"
| "view_all today ((now, answer) # rest) g = (case view today now answer g of (r, g') \<Rightarrow> r # view_all today rest g')"

section \<open>What the cache and the vendor promise\<close>

lemma cache_round_trip:
  assumes "valid_date (td_date d)" "valid_date (td_previous_business_day d)" "valid_date (td_next_business_day d)"
  shows "load_trading_day_cache (Some (save_trading_day_cache d)) = Some (d\<lparr>td_anchors := None, td_next_anchors := None\<rparr>)"
  using assms by (simp add: load_trading_day_cache_def save_trading_day_cache_def cached_date_def date_fromisoformat_show)

lemma result_option_Some: "(case r of Inl _ \<Rightarrow> None | Inr a \<Rightarrow> Some a) = Some b \<longleftrightarrow> r = Inr b"
  by (cases r) auto

lemma vendor_anchors_valid: "parse_session_anchors day ob = Some a \<Longrightarrow> wf_anchors a \<and> sa_date a = day \<and> sa_source a = VENDOR"
  by (auto simp: parse_session_anchors_def bind_eq_Some_conv result_option_Some post_init_iff split: option.splits json.splits)

lemma envelope_business: "read_envelope body = Some d \<Longrightarrow> td_anchors d \<noteq> None \<Longrightarrow> td_is_business_day d"
proof -
  assume r: "read_envelope body = Some d" and a: "td_anchors d \<noteq> None"
  from r obtain date integrated where "td_anchors d = parse_session_anchors date (integrated_of integrated)" "td_is_business_day d \<longleftrightarrow> integrated \<noteq> JNull"
    by (auto simp: read_envelope_def bind_eq_Some_conv)
  with a show ?thesis by (cases integrated) (simp_all add: integrated_of_def parse_session_anchors_def)
qed

lemma from_cache_date: "trading_day_from_cache cached today = Some d \<Longrightarrow> td_date d = today"
  by (auto simp: trading_day_from_cache_def Let_def split: if_splits)

section \<open>Runs of the gate\<close>

text \<open>What a gate knows of the current day: a view of that day, and when it last asked.\<close>

definition knows :: "date \<Rightarrow> trading_day_view \<Rightarrow> int \<Rightarrow> day_gate \<Rightarrow> bool" where
  "knows today v asked g \<longleftrightarrow> dg_date g = Some today \<and> dg_view g = Some v \<and> dg_last_attempt g = Some asked \<and> tv_date v = today"

lemma resolve_knows: "resolve_day today now answer g = ((v, b), g') \<Longrightarrow> b \<and> knows today v now g' \<and> dg_retry_interval g' = dg_retry_interval g"
  by (auto simp: resolve_day_def knows_def Let_def split: option.splits)

lemma view_final:
  "knows today v asked g \<Longrightarrow> tv_status v \<noteq> UNKNOWN_DAY \<Longrightarrow> view today now answer g = ((v, False), g)"
  by (simp add: view_def knows_def)

lemma view_step:
  assumes "knows today v asked g" "view today now answer g = ((w, called), g')"
  shows "dg_retry_interval g' = dg_retry_interval g
    \<and> (if called then tv_status v = UNKNOWN_DAY \<and> dg_retry_interval g \<le> now - asked \<and> knows today w now g' else w = v \<and> g' = g)"
proof (cases "tv_status v \<noteq> UNKNOWN_DAY \<or> now - asked < dg_retry_interval g")
  case True
  then have "view today now answer g = ((v, False), g)" using assms(1) by (auto simp: view_def knows_def)
  with assms(2) show ?thesis by simp
next
  case False
  then have "view today now answer g = resolve_day today now answer g" using assms(1) by (auto simp: view_def knows_def)
  with assms resolve_knows [of today now answer g w called g'] False show ?thesis by auto
qed

lemma view_all_final:
  "knows today v asked g \<Longrightarrow> tv_status v \<noteq> UNKNOWN_DAY \<Longrightarrow> r \<in> set (view_all today calls g) \<Longrightarrow> r = (v, False)"
  by (induction calls) (auto simp: view_final)

lemma view_all_from:
  assumes "knows today v asked g" "0 \<le> dg_retry_interval g" "j < length calls" "snd (view_all today calls g ! j)"
  shows "tv_status v = UNKNOWN_DAY \<and> dg_retry_interval g \<le> fst (calls ! j) - asked"
  using assms
proof (induction calls arbitrary: v asked g j)
  case (Cons c calls)
  obtain now answer where c: "c = (now, answer)" by (cases c)
  obtain w called g' where s: "view today now answer g = ((w, called), g')" by (cases "view today now answer g") auto
  note step = view_step [OF Cons.prems(1) s]
  show ?case
  proof (cases j)
    case 0
    then show ?thesis using Cons.prems(4) step by (simp add: c s)
  next
    case (Suc k)
    then have k: "k < length calls" "snd (view_all today calls g' ! k)" using Cons.prems(3,4) by (simp_all add: c s)
    show ?thesis
    proof (cases called)
      case True
      then have "dg_retry_interval g \<le> fst (calls ! k) - now" "tv_status v = UNKNOWN_DAY" "dg_retry_interval g \<le> now - asked"
        using Cons.IH [of w now g' k] step Cons.prems(2) k by auto
      then show ?thesis using Suc Cons.prems(2) by simp
    next
      case False
      then show ?thesis using Cons.IH [of v asked g k] step Cons.prems(1,2) k Suc by simp
    qed
  qed
qed simp

lemma view_all_spaced:
  assumes "0 \<le> dg_retry_interval g" "dg_date g \<noteq> Some today \<or> (\<exists>v asked. knows today v asked g)"
    and "i < j" "j < length calls" "snd (view_all today calls g ! i)" "snd (view_all today calls g ! j)"
  shows "tv_status (fst (view_all today calls g ! i)) = UNKNOWN_DAY \<and> dg_retry_interval g \<le> fst (calls ! j) - fst (calls ! i)"
  using assms
proof (induction calls arbitrary: g i j)
  case (Cons c calls)
  obtain now answer where c: "c = (now, answer)" by (cases c)
  obtain w called g' where s: "view today now answer g = ((w, called), g')" by (cases "view today now answer g") auto
  have next_knows: "dg_retry_interval g' = dg_retry_interval g \<and> (\<exists>v asked. knows today v asked g') \<and> (called \<longrightarrow> knows today w now g')"
  proof (cases "dg_date g = Some today")
    case True
    then obtain v asked where "knows today v asked g" using Cons.prems(2) by auto
    then show ?thesis using view_step [OF _ s] by (cases called) auto
  next
    case False
    then have "resolve_day today now answer g = ((w, called), g')" using s by (simp add: view_def)
    then show ?thesis using resolve_knows by blast
  qed
  obtain k where j: "j = Suc k" "k < length calls" "snd (view_all today calls g' ! k)" using Cons.prems(3,4,6) by (cases j) (auto simp: c s)
  show ?case
  proof (cases i)
    case 0
    then have "knows today w now g'" using Cons.prems(5) next_knows by (simp add: c s)
    from view_all_from [OF this _ j(2,3)] show ?thesis using next_knows Cons.prems(1) 0 j(1) by (simp add: c s)
  next
    case (Suc l)
    then show ?thesis using Cons.IH [of g' l k] next_knows Cons.prems j by (auto simp: c s)
  qed
qed simp

lemma view_all_settled:
  assumes "i < j" "j < length calls" "tv_status (fst (view_all today calls g ! i)) \<noteq> UNKNOWN_DAY" "dg_date g \<noteq> Some today \<or> (\<exists>v asked. knows today v asked g)"
  shows "view_all today calls g ! j = (fst (view_all today calls g ! i), False)"
  using assms
proof (induction calls arbitrary: g i j)
  case (Cons c calls)
  obtain now answer where c: "c = (now, answer)" by (cases c)
  obtain w called g' where s: "view today now answer g = ((w, called), g')" by (cases "view today now answer g") auto
  have kn: "\<exists>asked. knows today w asked g'"
  proof (cases "dg_date g = Some today")
    case True
    then obtain v asked where v: "knows today v asked g" using Cons.prems(4) by auto
    with view_step [OF v s] show ?thesis by (cases called) auto
  next
    case False
    then have "resolve_day today now answer g = ((w, called), g')" using s by (simp add: view_def)
    then show ?thesis using resolve_knows by blast
  qed
  obtain k where j: "j = Suc k" "k < length calls" using Cons.prems(1,2) by (cases j) auto
  have len: "length (view_all today cs h) = length cs" for cs h by (induction cs arbitrary: h) (auto split: prod.splits)
  show ?case
  proof (cases i)
    case 0
    then have "tv_status w \<noteq> UNKNOWN_DAY" using Cons.prems(3) by (simp add: c s)
    moreover obtain asked where "knows today w asked g'" using kn by blast
    moreover have "view_all today calls g' ! k \<in> set (view_all today calls g')" using j(2) len by (intro nth_mem) simp
    ultimately show ?thesis using view_all_final 0 j(1) by (simp add: c s)
  next
    case (Suc l)
    then show ?thesis using Cons.IH [of l k g'] kn Cons.prems j by (auto simp: c s)
  qed
qed simp

text \<open>
  C30. A decided day stays decided and an undecided one is asked about sparingly: over the calls of one
  date, a business or holiday verdict is repeated unchanged without another resolver call, and two
  resolver calls are at least the retry interval apart, the first of them having left the day unknown.
\<close>

theorem trading_day_settles:
  fixes today :: date
  assumes "0 \<le> retry" "i < j" "j < length calls"
  defines "answers \<equiv> view_all today calls (new_day_gate retry)"
  shows "(tv_status (fst (answers ! i)) \<noteq> UNKNOWN_DAY \<longrightarrow> answers ! j = (fst (answers ! i), False))
    \<and> (snd (answers ! i) \<and> snd (answers ! j) \<longrightarrow> tv_status (fst (answers ! i)) = UNKNOWN_DAY \<and> retry \<le> fst (calls ! j) - fst (calls ! i))"
  using view_all_settled [OF assms(2,3), of today "new_day_gate retry"] view_all_spaced [of "new_day_gate retry" today i j calls] assms
  by (simp add: new_day_gate_def)

text \<open>Unknown at first, asked again after the interval and then settled.\<close>

definition demo_today :: date where "demo_today = \<lparr>d_year = 2026, d_month = 9, d_day = 18\<rparr>"

definition demo_calls :: "(int \<times> trading_day option) list" where
  "demo_calls = (let d = \<lparr>td_date = demo_today, td_is_business_day = True, td_previous_business_day = demo_today, td_next_business_day = demo_today, td_anchors = None, td_next_anchors = None\<rparr> in
     [(0, None), (900, Some d), (1800, Some d), (5000, None)])"

lemma demo_answers: "map (\<lambda>(v, called). (tv_status v, called)) (view_all demo_today demo_calls (new_day_gate 1800))
    = [(UNKNOWN_DAY, True), (UNKNOWN_DAY, False), (BUSINESS, True), (BUSINESS, False)]"
  by (simp add: demo_calls_def new_day_gate_def view_def resolve_day_def Let_def)

theorem trading_day_settles_witness:
  "map (\<lambda>(v, called). (tv_status v, called)) (view_all demo_today demo_calls (new_day_gate 1800))
     = [(UNKNOWN_DAY, True), (UNKNOWN_DAY, False), (BUSINESS, True), (BUSINESS, False)]
   \<and> 1800 \<le> fst (demo_calls ! 2) - fst (demo_calls ! 0)"
proof -
  let ?a = "view_all demo_today demo_calls (new_day_gate 1800)"
  have "length ?a = 4" using arg_cong [OF demo_answers, of length] by simp
  then have "snd (?a ! 0)" "snd (?a ! 2)"
    using arg_cong [OF demo_answers, of "\<lambda>xs. xs ! 0"] arg_cong [OF demo_answers, of "\<lambda>xs. xs ! 2"] by (auto simp: split_beta)
  moreover have "2 < length demo_calls" by (simp add: demo_calls_def Let_def)
  ultimately have "1800 \<le> fst (demo_calls ! 2) - fst (demo_calls ! 0)" using trading_day_settles [of 1800 0 2 demo_calls demo_today] by simp
  with demo_answers show ?thesis by blast
qed

end
