(* ===== verification/Membership.thy ===== *)
theory Membership
  imports Json Errors "HOL-Library.List_Lexorder" "HOL-Library.Char_ord"
begin

text \<open>
  Who is collected and why: the membership ledger of \<open>src/universe/membership.py\<close>, the status policy of
  \<open>src/universe/status_policy.py\<close> and the code shape of \<open>src/core/symbols.py\<close>. The ledger file is the list of its
  lines, each decoded or \<open>None\<close> when it is not a JSON text. A decoded object has each key once.
\<close>

section \<open>Rows\<close>

record membership_row =
  m_symbol :: string
  m_tier :: string
  m_source :: string
  m_decided_at_ns :: int
  m_direction :: "string option"
  m_warning_level :: "string option"
  m_ls_shard :: "int option"
  m_kis_slot :: "string option"
  m_trade_value_krw :: "int option"
  m_reason :: "string option"

definition TIER_RANK_OF :: "(string \<times> nat) list" where
  "TIER_RANK_OF = [(''C'', 0), (''B'', 1), (''A'', 2)]"

definition ACK_SOURCE :: string where "ACK_SOURCE = ''ack''"

definition FIELD_NAMES :: "string list" where
  "FIELD_NAMES = [''symbol'', ''tier'', ''source'', ''decided_at_ns'', ''direction'', ''warning_level'', ''ls_shard'', ''kis_slot'', ''trade_value_krw'', ''reason'']"

fun is_int :: "json \<Rightarrow> bool" where "is_int (JInt _) = True" | "is_int _ = False"

fun is_str :: "json \<Rightarrow> bool" where "is_str (JStr _) = True" | "is_str _ = False"

definition is_optional_str :: "json \<Rightarrow> bool" where "is_optional_str v \<longleftrightarrow> v = JNull \<or> is_str v"

definition is_optional_int :: "json \<Rightarrow> bool" where "is_optional_int v \<longleftrightarrow> v = JNull \<or> is_int v"

fun is_tier :: "json \<Rightarrow> bool" where "is_tier (JStr s) = (map_of TIER_RANK_OF s \<noteq> None)" | "is_tier _ = False"

definition FIELD_VALIDATORS :: "(string \<times> (json \<Rightarrow> bool)) list" where
  "FIELD_VALIDATORS = [(''symbol'', is_str), (''tier'', is_tier), (''source'', is_str), (''decided_at_ns'', is_int), (''direction'', is_optional_str),
     (''warning_level'', is_optional_str), (''ls_shard'', is_optional_int), (''kis_slot'', is_optional_str), (''trade_value_krw'', is_optional_int), (''reason'', is_optional_str)]"

fun the_str :: "json \<Rightarrow> string" where "the_str (JStr s) = s" | "the_str _ = []"

fun the_int :: "json \<Rightarrow> int" where "the_int (JInt i) = i" | "the_int _ = 0"

fun opt_str :: "json \<Rightarrow> string option" where "opt_str (JStr s) = Some s" | "opt_str _ = None"

fun opt_int :: "json \<Rightarrow> int option" where "opt_int (JInt i) = Some i" | "opt_int _ = None"

text \<open>\<open>MembershipRow(**record)\<close> of a validated record.\<close>

definition row_of :: "jobj \<Rightarrow> membership_row" where
  "row_of ob = \<lparr>m_symbol = the_str (jget ob ''symbol''), m_tier = the_str (jget ob ''tier''), m_source = the_str (jget ob ''source''),
     m_decided_at_ns = the_int (jget ob ''decided_at_ns''), m_direction = opt_str (jget ob ''direction''), m_warning_level = opt_str (jget ob ''warning_level''),
     m_ls_shard = opt_int (jget ob ''ls_shard''), m_kis_slot = opt_str (jget ob ''kis_slot''), m_trade_value_krw = opt_int (jget ob ''trade_value_krw''),
     m_reason = opt_str (jget ob ''reason'')\<rparr>"

definition parse_row :: "json \<Rightarrow> membership_row result" where
  "parse_row obj = (case obj of
       JObj ob \<Rightarrow>
         if set (map fst ob) \<noteq> set FIELD_NAMES then Inl (ValueError ''record must be a JSON object with exactly fields'')
         else (case find (\<lambda>(name, valid). \<not> valid (jget ob name)) FIELD_VALIDATORS of
                 Some (name, _) \<Rightarrow> Inl (ValueError (''field '' @ name @ '' has invalid value''))
               | None \<Rightarrow> Inr (row_of ob))
     | _ \<Rightarrow> Inl (ValueError ''record must be a JSON object with exactly fields''))"

definition asdict :: "membership_row \<Rightarrow> json" where
  "asdict r = JObj [(''symbol'', JStr (m_symbol r)), (''tier'', JStr (m_tier r)), (''source'', JStr (m_source r)), (''decided_at_ns'', JInt (m_decided_at_ns r)),
     (''direction'', jopt_str (m_direction r)), (''warning_level'', jopt_str (m_warning_level r)), (''ls_shard'', jopt_int (m_ls_shard r)),
     (''kis_slot'', jopt_str (m_kis_slot r)), (''trade_value_krw'', jopt_int (m_trade_value_krw r)), (''reason'', jopt_str (m_reason r))]"

text \<open>\<open>json.dumps(..., sort_keys=True)\<close> writes the object with its keys sorted.\<close>

definition sort_keys :: "json \<Rightarrow> json" where
  "sort_keys j = (case j of JObj ob \<Rightarrow> JObj (sort_key fst ob) | _ \<Rightarrow> j)"

definition encode_row :: "membership_row \<Rightarrow> json result" where
  "encode_row r = (case parse_row (asdict r) of
       Inl _ \<Rightarrow> Inl (KrxAlphaError (''rejected row for symbol '' @ m_symbol r))
     | Inr _ \<Rightarrow> Inr (sort_keys (asdict r)))"

section \<open>The ledger file\<close>

definition append_membership :: "json option list \<Rightarrow> membership_row list \<Rightarrow> unit result \<times> json option list" where
  "append_membership lines rows =
     (if rows = [] then (Inr (), lines)
      else case rmap encode_row rows of Inl e \<Rightarrow> (Inl e, lines) | Inr payload \<Rightarrow> (Inr (), lines @ map Some payload))"

definition read_line :: "json option \<Rightarrow> membership_row result" where
  "read_line l = (case l of None \<Rightarrow> Inl (KrxAlphaError ''malformed line'')
     | Some j \<Rightarrow> (case parse_row j of Inl _ \<Rightarrow> Inl (KrxAlphaError ''malformed line'') | Inr r \<Rightarrow> Inr r))"

text \<open>A missing file has no lines.\<close>

definition read_membership :: "json option list \<Rightarrow> membership_row list result" where
  "read_membership lines = rmap read_line lines"

definition tier_rank_of :: "membership_row \<Rightarrow> nat result" where
  "tier_rank_of r = (case map_of TIER_RANK_OF (m_tier r) of None \<Rightarrow> Inl (KeyError (m_tier r)) | Some n \<Rightarrow> Inr n)"

definition take_row :: "membership_row \<Rightarrow> (string, membership_row) dict \<Rightarrow> (string, membership_row) dict result" where
  "take_row r current =
     (if m_source r = ACK_SOURCE then Inr current
      else case map_of current (m_symbol r) of
        None \<Rightarrow> Inr (AList.update (m_symbol r) r current)
      | Some existing \<Rightarrow> rbind (tier_rank_of r) (\<lambda>n. rbind (tier_rank_of existing) (\<lambda>k.
          Inr (if k \<le> n then AList.update (m_symbol r) r current else current))))"

definition effective_tiers :: "membership_row list \<Rightarrow> (string, membership_row) dict result" where
  "effective_tiers rows = rfold take_row rows []"

section \<open>Security status\<close>

datatype warning_level = WL_NONE | WL_CAUTION | WL_WARNING | WL_RISK | WL_UNKNOWN

definition EXCLUSION_FLAG_SOURCES :: "(string \<times> string) list" where
  "EXCLUSION_FLAG_SOURCES = [(''managed'', ''managed''), (''halted'', ''trading_halted''), (''liquidation'', ''liquidation_trading''), (''short_overheated'', ''short_overheated'')]"

definition WARNING_CODE_LEVELS :: "(string \<times> warning_level) list" where
  "WARNING_CODE_LEVELS = [(''00'', WL_NONE), (''01'', WL_CAUTION), (''02'', WL_WARNING), (''03'', WL_RISK)]"

record status_verdict =
  sv_exclude :: bool
  sv_warning_level :: warning_level
  sv_flags :: "string list"

definition classify_security_status :: "jobj \<Rightarrow> status_verdict" where
  "classify_security_status status =
     (let excl = map fst (filter (\<lambda>(flag, key). jget status key = JBool True) EXCLUSION_FLAG_SOURCES);
          flags = excl @ (if jget status ''status_code'' = JStr ''57'' then [''margin_100''] else [])
            @ (if jget status ''credit_available'' = JBool False then [''credit_unavailable''] else []);
          level = (case jget status ''market_warning_code'' of JStr code \<Rightarrow> map_of WARNING_CODE_LEVELS code | _ \<Rightarrow> None) in
      \<lparr>sv_exclude = (excl \<noteq> []), sv_warning_level = (case level of None \<Rightarrow> WL_UNKNOWN | Some l \<Rightarrow> l), sv_flags = sort flags\<rparr>)"

definition is_krx_short_code :: "json \<Rightarrow> bool" where
  "is_krx_short_code code = (case code of
       JStr s \<Rightarrow> length s = 6 \<and> list_all (\<lambda>c. is_digit c \<or> 65 \<le> (of_char c :: nat) \<and> (of_char c :: nat) \<le> 90) s
     | _ \<Rightarrow> False)"

section \<open>Round trip of rows\<close>

definition wf_row :: "membership_row \<Rightarrow> bool" where
  "wf_row r \<longleftrightarrow> m_tier r \<in> {''A'', ''B'', ''C''}"

lemma tier_wf: "map_of TIER_RANK_OF t \<noteq> None \<longleftrightarrow> t \<in> {''A'', ''B'', ''C''}"
  by (auto simp: TIER_RANK_OF_def)

lemma jopt_valid [simp]: "is_optional_str (jopt_str x)" "is_optional_int (jopt_int y)" "opt_str (jopt_str x) = x" "opt_int (jopt_int y) = y"
  by (simp_all add: jopt_str_def is_optional_str_def jopt_int_def is_optional_int_def split: option.split)

lemma parse_valid: "parse_row j = Inr r \<Longrightarrow> wf_row r"
proof -
  assume p: "parse_row j = Inr r"
  then obtain ob where ob: "j = JObj ob" "r = row_of ob" and v: "find (\<lambda>(name, valid). \<not> valid (jget ob name)) FIELD_VALIDATORS = None"
    by (auto simp: parse_row_def split: json.splits option.splits if_splits)
  have "(''tier'', is_tier) \<in> set FIELD_VALIDATORS" by (simp add: FIELD_VALIDATORS_def)
  with v have "is_tier (jget ob ''tier'')" unfolding find_None_iff by fastforce
  then show ?thesis unfolding ob wf_row_def tier_wf [symmetric] by (cases "jget ob ''tier''") (simp_all add: row_of_def)
qed

lemma parse_fields:
  assumes "set (map fst ob) = set FIELD_NAMES" "\<And>name. jget ob name = jget ob' name" "asdict r = JObj ob'" "wf_row r"
  shows "parse_row (JObj ob) = Inr r"
proof -
  have f: "jget ob ''symbol'' = JStr (m_symbol r)" "jget ob ''tier'' = JStr (m_tier r)" "jget ob ''source'' = JStr (m_source r)"
    "jget ob ''decided_at_ns'' = JInt (m_decided_at_ns r)" "jget ob ''direction'' = jopt_str (m_direction r)"
    "jget ob ''warning_level'' = jopt_str (m_warning_level r)" "jget ob ''ls_shard'' = jopt_int (m_ls_shard r)"
    "jget ob ''kis_slot'' = jopt_str (m_kis_slot r)" "jget ob ''trade_value_krw'' = jopt_int (m_trade_value_krw r)" "jget ob ''reason'' = jopt_str (m_reason r)"
    using assms(3) unfolding assms(2) by (auto simp: asdict_def)
  have t: "map_of TIER_RANK_OF (m_tier r) \<noteq> None" using assms(4) unfolding tier_wf wf_row_def .
  have "find (\<lambda>(name, valid). \<not> valid (jget ob name)) FIELD_VALIDATORS = None" using t by (simp add: FIELD_VALIDATORS_def f)
  then show ?thesis using assms(1) by (simp add: parse_row_def row_of_def f)
qed

lemma parse_asdict: "wf_row r \<Longrightarrow> parse_row (asdict r) = Inr r"
  using parse_fields [of "case asdict r of JObj ob \<Rightarrow> ob | _ \<Rightarrow> []" _ r] by (simp add: asdict_def FIELD_NAMES_def insert_commute)

lemma parse_sorted: "wf_row r \<Longrightarrow> parse_row (sort_keys (asdict r)) = Inr r"
proof -
  assume w: "wf_row r"
  obtain ob where ob: "asdict r = JObj ob" by (simp add: asdict_def)
  have keys: "distinct (map fst ob)" "set (map fst ob) = set FIELD_NAMES" using ob by (auto simp: asdict_def FIELD_NAMES_def)
  have "map_of (sort_key fst ob) = map_of ob"
    using keys(1) by (intro map_of_inject_set [THEN iffD2]) (simp_all add: distinct_map inj_on_def)
  then have "jget (sort_key fst ob) name = jget ob name" for name by (simp add: jget_def)
  then show ?thesis using parse_fields [of "sort_key fst ob" ob r] w ob keys(2) by (simp add: sort_keys_def)
qed

lemma parse_row_of: "parse_row (JObj ob) = Inr r \<Longrightarrow> r = row_of ob"
  by (auto simp: parse_row_def split: if_splits option.splits)

lemma parse_asdict_iff: "parse_row (asdict r) = Inr s \<longleftrightarrow> wf_row r \<and> s = r"
proof
  assume p: "parse_row (asdict r) = Inr s"
  have "m_tier s = m_tier r" using parse_row_of [OF p [unfolded asdict_def]] by (simp add: row_of_def)
  then have "wf_row r" using parse_valid [OF p] by (simp add: wf_row_def)
  then show "wf_row r \<and> s = r" using parse_asdict p by simp
qed (simp add: parse_asdict)

lemma encode_row_eq: "encode_row r = (if wf_row r then Inr (sort_keys (asdict r)) else Inl (KrxAlphaError (''rejected row for symbol '' @ m_symbol r)))"
proof (cases "wf_row r")
  case False
  then have "\<exists>e. parse_row (asdict r) = Inl e" using parse_asdict_iff by (cases "parse_row (asdict r)") auto
  then show ?thesis using False by (auto simp: encode_row_def)
qed (simp add: encode_row_def parse_asdict)

section \<open>The ledger\<close>

lemma encode_all: "rmap encode_row rows = Inr payload \<longleftrightarrow> list_all wf_row rows \<and> payload = map (sort_keys \<circ> asdict) rows"
proof (induction rows arbitrary: payload)
  case (Cons r rows)
  then show ?case by (auto simp: rbind_Inr_iff encode_row_eq)
qed auto

lemma rmap_append_Inr: "rmap f xs = Inr ys \<Longrightarrow> rmap f (xs @ zs) = rbind (rmap f zs) (\<lambda>ws. Inr (ys @ ws))"
proof (induction xs arbitrary: ys)
  case Nil
  then show ?case by (cases "rmap f zs") simp_all
next
  case (Cons x xs)
  then obtain y ys' where "f x = Inr y" "rmap f xs = Inr ys'" "ys = y # ys'" by (auto simp: rbind_Inr_iff)
  then show ?case using Cons.IH by (cases "rmap f zs") simp_all
qed

lemma read_written: "list_all wf_row rows \<Longrightarrow> read_membership (map Some (map (sort_keys \<circ> asdict) rows)) = Inr rows"
  by (induction rows) (simp_all add: read_membership_def read_line_def parse_sorted)

lemma read_rows_valid: "read_membership lines = Inr rows \<Longrightarrow> list_all wf_row rows"
proof (induction lines arbitrary: rows)
  case (Cons l lines)
  then obtain r rs where "read_line l = Inr r" "read_membership lines = Inr rs" "rows = r # rs" by (auto simp: read_membership_def rbind_Inr_iff)
  then show ?case using Cons.IH parse_valid by (auto simp: read_line_def split: option.splits sum.splits)
qed (simp add: read_membership_def)

lemma append_then_read:
  assumes "append_membership lines rows = (Inr (), lines')" "read_membership lines = Inr before"
  shows "read_membership lines' = Inr (before @ rows)"
proof (cases "rows = []")
  case True
  then show ?thesis using assms by (simp add: append_membership_def)
next
  case False
  then have e: "list_all wf_row rows" and l: "lines' = lines @ map Some (map (sort_keys \<circ> asdict) rows)"
    using assms(1) encode_all by (auto simp: append_membership_def split: sum.splits)
  show ?thesis using rmap_append_Inr [OF assms(2) [unfolded read_membership_def]] read_written [OF e] unfolding l by (simp add: read_membership_def)
qed

section \<open>Effective tiers\<close>

definition rank :: "membership_row \<Rightarrow> nat" where
  "rank r = (case map_of TIER_RANK_OF (m_tier r) of None \<Rightarrow> 0 | Some n \<Rightarrow> n)"

definition decisions_for :: "string \<Rightarrow> membership_row list \<Rightarrow> membership_row list" where
  "decisions_for symbol rows = filter (\<lambda>r. m_symbol r = symbol \<and> m_source r \<noteq> ACK_SOURCE) rows"

text \<open>The latest row at the highest tier seen for a symbol.\<close>

definition latest_highest :: "membership_row list \<Rightarrow> membership_row option" where
  "latest_highest rs = (if rs = [] then None else Some (last (filter (\<lambda>r. rank r = Max (set (map rank rs))) rs)))"

lemma tier_rank_of_wf: "wf_row r \<Longrightarrow> tier_rank_of r = Inr (rank r)"
  using tier_wf [of "m_tier r"] by (auto simp: tier_rank_of_def rank_def wf_row_def split: option.splits)

lemma latest_highest_snoc:
  "latest_highest (rs @ [r]) = (case latest_highest rs of None \<Rightarrow> Some r | Some e \<Rightarrow> if rank e \<le> rank r then Some r else Some e)"
proof (cases "rs = []")
  case False
  let ?m = "Max (set (map rank rs))"
  have m: "?m \<in> set (map rank rs)" using False by (intro Max_in) auto
  then have ne: "filter (\<lambda>r. rank r = ?m) rs \<noteq> []" by (auto simp: filter_empty_conv)
  then have "last (filter (\<lambda>r. rank r = ?m) rs) \<in> set (filter (\<lambda>r. rank r = ?m) rs)" by (rule last_in_set)
  then have e: "rank (last (filter (\<lambda>r. rank r = ?m) rs)) = ?m" by simp
  have M: "Max (set (map rank (rs @ [r]))) = max (rank r) ?m" using False by simp
  show ?thesis
  proof (cases "?m \<le> rank r")
    case True
    then have "Max (set (map rank (rs @ [r]))) = rank r" using M by simp
    then show ?thesis using False True e by (simp add: latest_highest_def)
  next
    case less: False
    then have "Max (set (map rank (rs @ [r]))) = ?m" using M by simp
    then show ?thesis using False less e by (auto simp: latest_highest_def)
  qed
qed (simp add: latest_highest_def)

lemma effective_spec:
  assumes "list_all wf_row rows"
  shows "\<exists>d. effective_tiers rows = Inr d \<and> (\<forall>symbol. map_of d symbol = latest_highest (decisions_for symbol rows)) \<and> dict_all wf_row d"
  using assms
proof (induction rows rule: rev_induct)
  case Nil
  then show ?case by (simp add: effective_tiers_def latest_highest_def decisions_for_def)
next
  case (snoc r rows)
  then obtain d where d: "effective_tiers rows = Inr d" "\<forall>symbol. map_of d symbol = latest_highest (decisions_for symbol rows)" "dict_all wf_row d" "wf_row r"
    by auto
  have step: "effective_tiers (rows @ [r]) = take_row r d" using d(1) by (cases "take_row r d") (simp_all add: effective_tiers_def rfold_append)
  show ?case
  proof (cases "m_source r = ACK_SOURCE")
    case True
    then show ?thesis using d step by (simp add: take_row_def decisions_for_def)
  next
    case False
    have dec: "decisions_for symbol (rows @ [r]) = (if symbol = m_symbol r then decisions_for symbol rows @ [r] else decisions_for symbol rows)" for symbol
      using False by (simp add: decisions_for_def)
    show ?thesis
    proof (cases "map_of d (m_symbol r)")
      case None
      then show ?thesis using d step False by (auto simp: take_row_def dec latest_highest_snoc)
    next
      case (Some e)
      have "wf_row e" using d(3) Some by (rule dict_all_lookup)
      then have "take_row r d = Inr (if rank e \<le> rank r then AList.update (m_symbol r) r d else d)"
        using False Some d(4) by (simp add: take_row_def tier_rank_of_wf)
      then show ?thesis using d step Some by (auto simp: dec latest_highest_snoc)
    qed
  qed
qed


definition demo_row :: "string \<Rightarrow> membership_row" where
  "demo_row t = \<lparr>m_symbol = ''005930'', m_tier = t, m_source = ''pool'', m_decided_at_ns = 1, m_direction = None, m_warning_level = None,
     m_ls_shard = Some 0, m_kis_slot = None, m_trade_value_krw = None, m_reason = None\<rparr>"


section \<open>Status verdicts\<close>

text \<open>A security is excluded exactly for one of the four flags; margin and credit flags only inform.\<close>

lemma excluded_iff: "sv_exclude (classify_security_status st) \<longleftrightarrow>
    (\<exists>key \<in> {''managed'', ''trading_halted'', ''liquidation_trading'', ''short_overheated''}. jget st key = JBool True)"
  by (simp add: classify_security_status_def Let_def EXCLUSION_FLAG_SOURCES_def)

lemma unmapped_code_unknown: "(\<And>c. jget st ''market_warning_code'' = JStr c \<Longrightarrow> c \<notin> {''00'', ''01'', ''02'', ''03''}) \<Longrightarrow> sv_warning_level (classify_security_status st) = WL_UNKNOWN"
  by (auto simp: classify_security_status_def Let_def WARNING_CODE_LEVELS_def split: json.splits)

lemma flags_sorted: "sorted (sv_flags (classify_security_status st))"
  by (simp add: classify_security_status_def Let_def)

end
