(* ===== verification/Lifecycle.thy ===== *)
theory Lifecycle
  imports Recovery Layout
begin

text \<open>
  The crash record of the daemon, \<open>src/core/lifecycle.py\<close>: its JSON form, reading it back and the daily
  budget of crash alerts. The start is a date, a time and an offset that a naive start lacks. Any
  exception while reading is the absence of a record.
\<close>

record lifecycle_record =
  lr_run_id :: string
  lr_started_at :: "date \<times> time \<times> int option"
  lr_clean_exit :: bool
  lr_crash_error :: "string option"
  lr_crash_alert_day :: "date option"
  lr_crash_alerts_sent :: int

definition iso_start :: "date \<times> time \<times> int option \<Rightarrow> string" where
  "iso_start t = (case t of (d, tod, off) \<Rightarrow> date_isoformat d @ ''T'' @ iso_time tod @ (case off of None \<Rightarrow> [] | Some z \<Rightarrow> iso_offset z))"

definition lifecycle_to_json :: "lifecycle_record \<Rightarrow> json" where
  "lifecycle_to_json r = JObj [(''run_id'', JStr (lr_run_id r)), (''started_at'', JStr (iso_start (lr_started_at r))), (''clean_exit'', JBool (lr_clean_exit r)),
     (''crash_error'', jopt_str (lr_crash_error r)), (''crash_alert_day'', jopt_str (map_option date_isoformat (lr_crash_alert_day r))),
     (''crash_alerts_sent'', JInt (lr_crash_alerts_sent r))]"

definition alert_day_of :: "json \<Rightarrow> date option option" where
  "alert_day_of v = (if v = JNull then Some None else map_option Some (date_fromisoformat (py_str v)))"

definition lifecycle_from_json :: "json \<Rightarrow> lifecycle_record option" where
  "lifecycle_from_json raw = (case raw of
       JObj ob \<Rightarrow>
         Option.bind (map_of ob ''run_id'') (\<lambda>run_id. Option.bind (map_of ob ''started_at'') (\<lambda>started. Option.bind (fromisoformat (py_str started)) (\<lambda>started_at.
         Option.bind (map_of ob ''clean_exit'') (\<lambda>clean. Option.bind (alert_day_of (jget ob ''crash_alert_day'')) (\<lambda>alert_day.
         Option.bind (map_of ob ''crash_alerts_sent'') (\<lambda>sent.
           (case int_of_json sent of Inl _ \<Rightarrow> None
            | Inr n \<Rightarrow> Some \<lparr>lr_run_id = py_str run_id, lr_started_at = started_at, lr_clean_exit = truthy clean,
                lr_crash_error = (if jget ob ''crash_error'' = JNull then None else Some (py_str (jget ob ''crash_error''))),
                lr_crash_alert_day = alert_day, lr_crash_alerts_sent = n\<rparr>)))))))
     | _ \<Rightarrow> None)"

definition read_lifecycle :: "json option \<Rightarrow> lifecycle_record option" where
  "read_lifecycle doc = Option.bind doc lifecycle_from_json"

definition crash_alert_allowed :: "lifecycle_record option \<Rightarrow> date \<Rightarrow> int \<Rightarrow> bool" where
  "crash_alert_allowed r today budget =
     (if (case r of None \<Rightarrow> None | Some x \<Rightarrow> lr_crash_alert_day x) \<noteq> Some today then True
      else (case r of None \<Rightarrow> 0 | Some x \<Rightarrow> lr_crash_alerts_sent x) < budget)"

definition wf_start :: "date \<times> time \<times> int option \<Rightarrow> bool" where
  "wf_start t \<longleftrightarrow> (case t of (d, tod, off) \<Rightarrow> valid_date d \<and> tod < 86400000000 \<and> (case off of None \<Rightarrow> True | Some z \<Rightarrow> \<bar>z\<bar> < 86400000000))"

definition wf_lifecycle :: "lifecycle_record \<Rightarrow> bool" where
  "wf_lifecycle r \<longleftrightarrow> wf_start (lr_started_at r) \<and> (case lr_crash_alert_day r of None \<Rightarrow> True | Some d \<Rightarrow> valid_date d)"

lemma start_read_back: "wf_start t \<Longrightarrow> fromisoformat (iso_start t) = Some t"
proof -
  assume w: "wf_start t"
  obtain d tod off where t: "t = (d, tod, off)" by (cases t)
  let ?z = "case off of None \<Rightarrow> [] | Some z \<Rightarrow> iso_offset z"
  have v: "valid_date d" "tod < 86400000000" using w by (simp_all add: wf_start_def t)
  have z: "clock_end ?z" "parse_iso_offset ?z = Some off"
    using w clock_end_offset parse_iso_offset_show by (cases off; simp add: wf_start_def t clock_end_def [of "[]"] parse_iso_offset_def [of "[]"])+
  have c: "parse_clock (iso_time tod @ ?z) = Some (tod_hour tod, tod_minute tod, tod_second tod, tod_us tod, ?z)"
    using parse_clock_show [of "tod_hour tod" "tod_minute tod" "tod_second tod" "tod_us tod" ?z] tod_parts_less(1) [OF v(2)] tod_parts_less(2-4) [of tod] z(1)
    by (simp add: iso_time_def)
  have ne: "iso_time tod \<noteq> []" by (simp add: iso_time_def)
  show ?thesis using parse_iso_date_show [OF v(1)] c ne z(2) tod_parts_less(1) [OF v(2)] tod_parts_less(2-4) [of tod]
    by (simp add: t iso_start_def fromisoformat_def clock_us_parts)
qed

text \<open>What the daemon wrote before it died is what the next start reads.\<close>

lemma lifecycle_read_back: "wf_lifecycle r \<Longrightarrow> read_lifecycle (Some (lifecycle_to_json r)) = Some r"
proof -
  assume w: "wf_lifecycle r"
  have s: "fromisoformat (iso_start (lr_started_at r)) = Some (lr_started_at r)" using w start_read_back by (simp add: wf_lifecycle_def)
  have a: "alert_day_of (jopt_str (map_option date_isoformat (lr_crash_alert_day r))) = Some (lr_crash_alert_day r)"
    using w date_fromisoformat_show by (cases "lr_crash_alert_day r") (simp_all add: alert_day_of_def jopt_str_def wf_lifecycle_def)
  show ?thesis by (simp add: read_lifecycle_def lifecycle_to_json_def lifecycle_from_json_def s a) (cases "lr_crash_error r"; simp add: jopt_str_def)
qed

text \<open>Within a day alerts stop at the budget, a new day starts afresh, and a lost record never blocks.\<close>

lemma crash_alert_budget:
  "crash_alert_allowed None today budget"
  "lr_crash_alert_day r \<noteq> Some today \<Longrightarrow> crash_alert_allowed (Some r) today budget"
  "lr_crash_alert_day r = Some today \<Longrightarrow> crash_alert_allowed (Some r) today budget \<longleftrightarrow> lr_crash_alerts_sent r < budget"
  by (simp_all add: crash_alert_allowed_def)

end
