(* ===== verification/Oms_Amounts.thy ===== *)
theory Oms_Amounts
  imports Demo_Session
begin

text \<open>
  What the journal does not carry: reconciliation stores the broker's cumulative amount in the
  order on every pass, and journals it only when the quantity grew. An amount corrected at an
  unchanged quantity therefore leaves the next fill record out of step with the replay, which is
  why the replay theorems ask the broker for amounts that are a function of the quantity.
\<close>

text \<open>An open order whose row repeats its quantity with another amount takes the amount over in silence.\<close>

lemma settle_one_amount_only:
  assumes "map_of (m_orders (r_oms rc)) cid = Some ord" "o_client_id ord = cid" "o_status ord \<notin> TERMINAL_STATUSES"
    and "o_broker_order_no ord = Some no" "by_no sts no = Some st"
    and "derive_status st (no \<in> set (child_parents sts)) = Inr (o_status ord)"
    and "s_filled_qty st = o_filled_qty ord" "o_filled_qty ord \<le> i_qty (o_intent ord)"
  shows "settle_one env sts cid rc = (Inr (), put_r (ord\<lparr>o_filled_amount_krw := s_filled_amount_krw st\<rparr>) rc)"
proof -
  have "ord\<lparr>o_filled_qty := s_filled_qty st, o_filled_amount_krw := s_filled_amount_krw st, o_status := o_status ord\<rparr>
      = ord\<lparr>o_filled_amount_krw := s_filled_amount_krw st\<rparr>"
    using assms(7) by simp
  then show ?thesis using assms
    by (simp add: settle_one_def book_fill_def settle_status_def transition_def)
qed

text \<open>The record of the next fill counts its amount from the silent value.\<close>

lemma book_fill_record:
  assumes "fst (book_fill env ord st rc) = Inr ()" "o_filled_qty ord < s_filled_qty st" "j_torn (m_journal (r_oms rc)) = []"
  shows "recs (r_oms (snd (book_fill env ord st rc))) = recs (r_oms rc) @ [append_record (j_mode (m_journal (r_oms rc)))
      (now_of env (r_oms rc)) ''fill''
      [(''client_id'', JStr (o_client_id ord)), (''delta_qty'', JInt (s_filled_qty st - o_filled_qty ord)),
       (''delta_amount_krw'', JInt (s_filled_amount_krw st - o_filled_amount_krw ord)),
       (''cumulative_qty'', JInt (s_filled_qty st)), (''cumulative_amount_krw'', JInt (s_filled_amount_krw st))]]"
proof -
  obtain pnl l where "apply_fill (m_ledger (r_oms rc)) (i_symbol (o_intent ord)) (i_side (o_intent ord))
      (s_filled_qty st - o_filled_qty ord) (s_filled_amount_krw st - o_filled_amount_krw ord) = Inr (pnl, l)"
    using assms(1,2) by (auto simp: book_fill_def Let_def split: sum.splits)
  then show ?thesis using assms(2,3)
    by (simp add: book_fill_def Let_def record_r_def record_event_recs(1) now_of_def split_beta)
qed

lemma replay_fill_mismatch:
  assumes "o_filled_amount_krw b \<noteq> a0"
  shows "replay_event (append_record mode ts ''fill''
      [(''client_id'', JStr cid), (''delta_qty'', JInt dq), (''delta_amount_krw'', JInt (a - a0)),
       (''cumulative_qty'', JInt q), (''cumulative_amount_krw'', JInt a)]) b
    = Inl (ExecutionError ''inconsistent cumulative fill'')"
  using assms by (simp add: replay_event_def replay_fill_def append_record_def has_key_def need_def jget_def)

text \<open>
  C36. An amount correction breaks the restart. When a reconciliation sees an open order at the same
  quantity with another amount, it stores the amount and writes nothing; the next fill is booked, and
  the record it leaves makes the replay of that order raise, so that day's session cannot be rebuilt.
\<close>

theorem amount_correction_breaks_replay:
  assumes ord: "map_of (m_orders (r_oms rc)) cid = Some ord" "o_client_id ord = cid" "o_status ord \<notin> TERMINAL_STATUSES"
    and row: "o_broker_order_no ord = Some no" "by_no sts no = Some st"
      "derive_status st (no \<in> set (child_parents sts)) = Inr (o_status ord)"
    and qty: "s_filled_qty st = o_filled_qty ord" "o_filled_qty ord \<le> i_qty (o_intent ord)"
    and amount: "s_filled_amount_krw st \<noteq> o_filled_amount_krw ord"
    and torn: "j_torn (m_journal (r_oms rc)) = []" and mirror: "same_order ord b"
    and corrected: "ord' = ord\<lparr>o_filled_amount_krw := s_filled_amount_krw st\<rparr>" "rc' = put_r ord' rc"
    and fill: "o_filled_qty ord < s_filled_qty st'" "book_fill env' ord' st' rc' = (Inr (), rc2)"
  shows "settle_one env sts cid rc = (Inr (), rc') \<and> recs (r_oms rc') = recs (r_oms rc)
    \<and> (\<exists>r. recs (r_oms rc2) = recs (r_oms rc) @ [r] \<and> replay_event r b = Inl (ExecutionError ''inconsistent cumulative fill''))"
proof (intro conjI exI)
  show "settle_one env sts cid rc = (Inr (), rc')"
    unfolding corrected by (rule settle_one_amount_only [OF ord row qty])
  show same: "recs (r_oms rc') = recs (r_oms rc)" by (simp add: corrected put_r_def)
  have "j_torn (m_journal (r_oms rc')) = []" using torn by (simp add: corrected put_r_def put_order_def)
  from book_fill_record [OF _ _ this, of env' ord' st'] show "recs (r_oms rc2) = recs (r_oms rc) @ [append_record
      (j_mode (m_journal (r_oms rc'))) (now_of env' (r_oms rc')) ''fill''
      [(''client_id'', JStr (o_client_id ord')), (''delta_qty'', JInt (s_filled_qty st' - o_filled_qty ord')),
       (''delta_amount_krw'', JInt (s_filled_amount_krw st' - o_filled_amount_krw ord')),
       (''cumulative_qty'', JInt (s_filled_qty st')), (''cumulative_amount_krw'', JInt (s_filled_amount_krw st'))]]"
    using fill same by (simp add: corrected)
qed (rule replay_fill_mismatch, use amount mirror in \<open>simp add: corrected same_order_def\<close>)

definition amt_order :: order where
  "amt_order = (new_order ''live-20260303-1'' demo_intent PARTIALLY_FILLED demo_ts)
     \<lparr>o_broker_order_no := Some ''117'', o_filled_qty := 1, o_filled_amount_krw := 70000\<rparr>"

definition amt_row :: "int \<Rightarrow> int \<Rightarrow> broker_order_status" where
  "amt_row qty amount = \<lparr>s_broker_order_no = ''117'', s_original_order_no = [], s_org_no = [], s_symbol = ''005930'',
     s_side = SELL, s_ordered_qty = 3, s_price = 70000, s_filled_qty = qty, s_filled_amount_krw = amount,
     s_remaining_qty = 3 - qty, s_rejected_qty = 0, s_cancelled = False, s_order_time = ''093000''\<rparr>"

definition amt_recon :: "order \<Rightarrow> live_state recon" where
  "amt_recon ord = \<lparr>r_oms = demo_start\<lparr>m_orders := [(''live-20260303-1'', ord)]\<rparr>, r_known = [''117''], r_changed = []\<rparr>"

lemma amt_booked:
  "fst (book_fill demo_reconcile (amt_order\<lparr>o_filled_amount_krw := 70010\<rparr>) (amt_row 2 140000)
     (put_r (amt_order\<lparr>o_filled_amount_krw := 70010\<rparr>) (amt_recon amt_order))) = Inr ()"
  by (simp add: book_fill_def amt_order_def amt_row_def amt_recon_def new_order_def demo_intent_def apply_fill_def
      put_r_def put_order_def demo_start_def new_oms_def demo_ledger_def new_ledger_def record_r_def record_event_def
      journal_append_def demo_journal_def Let_def)

theorem amount_correction_breaks_replay_witness:
  "\<exists>r. recs (r_oms (snd (book_fill demo_reconcile (amt_order\<lparr>o_filled_amount_krw := 70010\<rparr>) (amt_row 2 140000)
       (put_r (amt_order\<lparr>o_filled_amount_krw := 70010\<rparr>) (amt_recon amt_order)))))
     = recs (r_oms (amt_recon amt_order)) @ [r]
   \<and> replay_event r amt_order = Inl (ExecutionError ''inconsistent cumulative fill'')"
proof -
  let ?o' = "amt_order\<lparr>o_filled_amount_krw := 70010\<rparr>"
  let ?bf = "book_fill demo_reconcile ?o' (amt_row 2 140000) (put_r ?o' (amt_recon amt_order))"
  have "?bf = (Inr (), snd ?bf)" using amt_booked by (metis prod.collapse)
  then show ?thesis
    by (intro amount_correction_breaks_replay [where ord = amt_order and cid = "''live-20260303-1''" and no = "''117''"
        and sts = "[amt_row 1 70010]" and st = "amt_row 1 70010" and st' = "amt_row 2 140000" and ord' = ?o'
        and env' = demo_reconcile and env = demo_reconcile, THEN conjunct2, THEN conjunct2])
      (simp_all add: amt_order_def amt_recon_def amt_row_def new_order_def TERMINAL_STATUSES_def by_no_def child_parents_def
        derive_status_def demo_intent_def demo_start_def new_oms_def demo_journal_def same_order_def)
qed

end
