(* ===== verification/PyCalendar.thy ===== *)
theory PyCalendar
  imports IsoTime
begin

text \<open>
  Arithmetic on Python's \<open>date\<close> and \<open>datetime\<close>: the date of a proleptic ordinal and the sum of a
  datetime and a timedelta, which keeps the offset. A sum outside the years 1 to 9999 raises
  \<open>OverflowError\<close>, here \<open>None\<close>.
\<close>

definition MAX_ORDINAL :: int where "MAX_ORDINAL = 3652059"

definition month_of :: "nat \<Rightarrow> nat \<Rightarrow> nat" where
  "month_of y doy = (if doy < days_before_month y 2 then 1
     else if doy < days_before_month y 3 then 2
     else if doy < days_before_month y 4 then 3
     else if doy < days_before_month y 5 then 4
     else if doy < days_before_month y 6 then 5
     else if doy < days_before_month y 7 then 6
     else if doy < days_before_month y 8 then 7
     else if doy < days_before_month y 9 then 8
     else if doy < days_before_month y 10 then 9
     else if doy < days_before_month y 11 then 10
     else if doy < days_before_month y 12 then 11
     else 12)"

definition fromordinal :: "int \<Rightarrow> date" where
  "fromordinal n =
     (let n0 = nat (n - 1); a = n0 div 146097; r = n0 mod 146097;
          b = min 3 (r div 36524); r2 = r - 36524 * b;
          c = r2 div 1461; r3 = r2 mod 1461;
          d = min 3 (r3 div 365); doy = r3 - 365 * d;
          y = 400 * a + 100 * b + 4 * c + d + 1; m = month_of y doy
      in \<lparr>d_year = y, d_month = m, d_day = doy - days_before_month y m + 1\<rparr>)"

definition date_add :: "date \<Rightarrow> int \<Rightarrow> date option" where
  "date_add d n = (let k = toordinal d + n in if 1 \<le> k \<and> k \<le> MAX_ORDINAL then Some (fromordinal k) else None)"

definition dt_add :: "datetime \<Rightarrow> timedelta \<Rightarrow> datetime option" where
  "dt_add t delta = (let u = local_us t + delta; k = u div us_per_day in
     if 1 \<le> k \<and> k \<le> MAX_ORDINAL then Some \<lparr>dt_date = fromordinal k, dt_tod = nat (u mod us_per_day), dt_off = dt_off t\<rparr> else None)"

text \<open>
  \<open>timedelta(seconds=x)\<close> of a float: whole seconds, and the fraction to the nearest microsecond, ties to
  even. \<open>total_seconds\<close> is the correctly rounded quotient.
\<close>

definition td_seconds :: "rat \<Rightarrow> timedelta" where
  "td_seconds x = (let w = (if 0 \<le> x then \<lfloor>x\<rfloor> else \<lceil>x\<rceil>) in w * us_per_s + rne (fl ((x - of_int w) * 1000000)))"

definition total_seconds :: "timedelta \<Rightarrow> rat" where
  "total_seconds d = fl (of_int d / 1000000)"

section \<open>The calendar\<close>

definition year_length :: "nat \<Rightarrow> nat" where "year_length y = (if is_leap y then 366 else 365)"

lemma days_before_months:
  "days_before_month y 1 = 0" "days_before_month y (Suc 0) = 0" "days_before_month y 2 = 31"
  "days_before_month y 3 = (if is_leap y then 60 else 59)" "days_before_month y 4 = (if is_leap y then 91 else 90)"
  "days_before_month y 5 = (if is_leap y then 121 else 120)" "days_before_month y 6 = (if is_leap y then 152 else 151)"
  "days_before_month y 7 = (if is_leap y then 182 else 181)" "days_before_month y 8 = (if is_leap y then 213 else 212)"
  "days_before_month y 9 = (if is_leap y then 244 else 243)" "days_before_month y 10 = (if is_leap y then 274 else 273)"
  "days_before_month y 11 = (if is_leap y then 305 else 304)" "days_before_month y 12 = (if is_leap y then 335 else 334)"
  by (simp_all add: days_before_month_def days_in_month_def upt_rec)

lemma month_of_correct:
  assumes "doy < year_length y"
  shows "1 \<le> month_of y doy \<and> month_of y doy \<le> 12 \<and> days_before_month y (month_of y doy) \<le> doy
    \<and> doy - days_before_month y (month_of y doy) < days_in_month y (month_of y doy)"
  using assms unfolding month_of_def year_length_def
  by (cases "is_leap y") (auto simp: days_before_months days_in_month_def split: if_split)

lemma year_ordinal:
  assumes "b \<le> 3" "c \<le> 24" "d \<le> 3"
  shows "(let p = 400 * a + 100 * b + 4 * c + d in p * 365 + p div 4 - p div 100 + p div 400)
    = 146097 * a + 36524 * b + 1461 * c + 365 * (d :: nat)"
proof -
  let ?p = "400 * a + 100 * b + 4 * c + d"
  have "?p div 4 = 100 * a + 25 * b + c" by (rule div_nat_eqI) (use assms in simp_all)
  moreover have "?p div 100 = 4 * a + b" by (rule div_nat_eqI) (use assms in simp_all)
  moreover have "?p div 400 = a" by (rule div_nat_eqI) (use assms in simp_all)
  ultimately show ?thesis by (simp add: Let_def)
qed

lemma is_leap_year:
  assumes "b \<le> 3" "c \<le> 24"
  shows "is_leap (400 * a + 100 * b + 4 * c + 3 + 1) \<longleftrightarrow> c \<noteq> 24 \<or> b = 3"
proof -
  let ?y = "400 * a + 100 * b + 4 * c + 3 + 1"
  have "?y = 4 * (100 * a + 25 * b + c + 1)" by simp
  then have "?y mod 4 = 0" by simp
  moreover have "?y = (4 * c + 4) + 100 * (4 * a + b)" by simp
  then have "?y mod 100 = (4 * c + 4) mod 100" by (metis mod_mult_self2)
  then have "?y mod 100 = 0 \<longleftrightarrow> c = 24" using assms(2) by (cases "c = 24") simp_all
  moreover have "?y mod 400 = 0 \<longleftrightarrow> b = 3" if "c = 24"
  proof -
    have "?y = (100 * b + 100) + 400 * a" using that by simp
    then have "?y mod 400 = (100 * b + 100) mod 400" by (metis mod_mult_self2)
    then show ?thesis using assms(1) by (cases "b = 3") simp_all
  qed
  ultimately show ?thesis by (auto simp: is_leap_def)
qed

lemma min_div:
  fixes r k m :: nat
  assumes "0 < k"
  shows "k * min m (r div k) \<le> r" and "min m (r div k) < m \<Longrightarrow> r - k * min m (r div k) < k"
proof -
  have "k * min m (r div k) \<le> k * (r div k)" by simp
  then show "k * min m (r div k) \<le> r" by (rule order_trans) simp
  show "r - k * min m (r div k) < k" if "min m (r div k) < m"
  proof -
    have "min m (r div k) = r div k" using that by simp
    then show ?thesis using assms by (simp add: minus_mult_div_eq_mod)
  qed
qed

lemma fromordinal_correct:
  assumes "1 \<le> n"
  shows "toordinal (fromordinal n) = n
    \<and> 1 \<le> d_month (fromordinal n) \<and> d_month (fromordinal n) \<le> 12 \<and> 1 \<le> d_day (fromordinal n)
    \<and> d_day (fromordinal n) \<le> days_in_month (d_year (fromordinal n)) (d_month (fromordinal n))
    \<and> (n \<le> MAX_ORDINAL \<longrightarrow> 1 \<le> d_year (fromordinal n) \<and> d_year (fromordinal n) \<le> 9999)"
proof -
  define n0 a r b r2 c r3 d doy where defs: "n0 = nat (n - 1)" "a = n0 div 146097" "r = n0 mod 146097" "b = min 3 (r div 36524)"
    "r2 = r - 36524 * b" "c = r2 div 1461" "r3 = r2 mod 1461" "d = min 3 (r3 div 365)" "doy = r3 - 365 * d"
  define y where "y = 400 * a + 100 * b + 4 * c + d + 1"
  have eq: "fromordinal n = \<lparr>d_year = y, d_month = month_of y doy, d_day = doy - days_before_month y (month_of y doy) + 1\<rparr>"
    unfolding fromordinal_def Let_def y_def defs by (rule refl)
  have r: "r \<le> 146096" "n0 = 146097 * a + r" by (simp_all add: defs(2,3))
  have b3: "b \<le> 3" "36524 * b \<le> r" "b < 3 \<Longrightarrow> r - 36524 * b < 36524" using min_div [of 36524 3 r] by (simp_all add: defs(4))
  have b4: "r2 \<le> 36524" using b3 r(1) by (cases "b = 3") (simp_all add: defs(5))
  have c: "r2 = 1461 * c + r3" "r3 < 1461" by (simp_all add: defs(6,7))
  have c24: "c \<le> 24" using c(1) b4 by simp
  have d: "d \<le> 3" "365 * d \<le> r3" "d < 3 \<Longrightarrow> r3 - 365 * d < 365" using min_div [of 365 3 r3] by (simp_all add: defs(8))
  have doy: "r3 = 365 * d + doy" using d(2) by (simp add: defs(9))
  have doy2: "doy < 365 \<or> d = 3 \<and> doy \<le> 365" using d c(2) doy by (cases "d = 3") simp_all
  have n0: "n0 = 146097 * a + 36524 * b + 1461 * c + 365 * d + doy" using r(2) b3(2) c(1) doy by (simp add: defs(5))
  have leap: "doy < year_length y"
  proof (cases "doy = 365")
    case True
    then have "d = 3" "r3 = 1460" using doy2 doy by simp_all
    then have "c = 24 \<Longrightarrow> r2 = 36524" using c(1) by simp
    then have "c \<noteq> 24 \<or> b = 3" using b3 by (cases "b = 3") (auto simp: defs(5))
    then have "is_leap y" using is_leap_year [OF b3(1) c24] \<open>d = 3\<close> by (simp add: y_def)
    then show ?thesis using True by (simp add: year_length_def)
  qed (use doy2 in \<open>auto simp: year_length_def\<close>)
  note m = month_of_correct [OF leap]
  let ?Y = "(y - 1) * 365 + (y - 1) div 4 - (y - 1) div 100 + (y - 1) div 400" and ?m = "month_of y doy"
  have "y - 1 = 400 * a + 100 * b + 4 * c + d" by (simp add: y_def)
  then have "?Y + doy = n0" using year_ordinal [OF b3(1) c24 d(1), of a] n0 unfolding Let_def by simp
  moreover have "?Y + days_before_month y ?m + (doy - days_before_month y ?m + 1) = ?Y + doy + 1" using m by linarith
  moreover have "toordinal (fromordinal n) = int (?Y + days_before_month y ?m + (doy - days_before_month y ?m + 1))"
    unfolding toordinal_def eq Let_def by (simp only: date.select_convs)
  ultimately have "toordinal (fromordinal n) = int n0 + 1" by simp
  moreover have "y \<le> 9999" if "n \<le> MAX_ORDINAL"
  proof -
    have "n0 \<le> 3652058" using that by (simp add: MAX_ORDINAL_def defs(1))
    moreover have "a \<le> 24" using calculation n0 by linarith
    ultimately show ?thesis using n0 b3(1) c24 d(1) unfolding y_def by linarith
  qed
  moreover have "1 \<le> y" by (simp add: y_def)
  moreover have "int n0 + 1 = n" using assms by (simp add: defs(1))
  ultimately show ?thesis using m by (simp add: eq)
qed

lemma valid_fromordinal: "1 \<le> n \<Longrightarrow> n \<le> MAX_ORDINAL \<Longrightarrow> valid_date (fromordinal n)"
  using fromordinal_correct [of n] by (simp add: valid_date_def)

lemma date_add_ordinal: "date_add d n = Some d' \<Longrightarrow> toordinal d' = toordinal d + n \<and> valid_date d'"
  using fromordinal_correct [of "toordinal d + n"] valid_fromordinal [of "toordinal d + n"]
  by (auto simp: date_add_def Let_def split: if_splits)

lemma dt_add_instant:
  assumes "dt_add t delta = Some t'"
  shows "utc_us t' = utc_us t + delta" "valid_date (dt_date t')" "dt_tod t' < 86400000000" "dt_off t' = dt_off t"
proof -
  let ?u = "local_us t + delta"
  have k: "1 \<le> ?u div us_per_day" "?u div us_per_day \<le> MAX_ORDINAL"
    and t': "t' = \<lparr>dt_date = fromordinal (?u div us_per_day), dt_tod = nat (?u mod us_per_day), dt_off = dt_off t\<rparr>"
    using assms by (auto simp: dt_add_def Let_def split: if_splits)
  have tod: "int (nat (?u mod us_per_day)) = ?u mod us_per_day" "?u mod us_per_day < us_per_day" by simp_all
  have "local_us t' = ?u div us_per_day * us_per_day + ?u mod us_per_day"
    using fromordinal_correct [OF k(1)] tod(1) unfolding local_us_def t' by simp
  also have "\<dots> = ?u" by (rule div_mult_mod_eq)
  finally show "utc_us t' = utc_us t + delta" by (simp add: utc_us_def t')
  show "valid_date (dt_date t')" using valid_fromordinal [OF k] by (simp add: t')
  show "dt_tod t' < 86400000000" using tod(2) by (simp add: t' nat_less_iff)
  show "dt_off t' = dt_off t" by (simp add: t')
qed

end
