(* ===== verification/HostTokens.thy ===== *)
theory HostTokens
  imports Pacing PyCalendar Lifecycle
begin

text \<open>
  The host-shared broker contract of \<open>deploy/shared/host_broker_contract.py\<close>: file names, declared rates,
  the single-issuer token store (\<open>TokenStore\<close>; \<open>AsyncTokenStore\<close> is the same code with \<open>await\<close>) and the
  pacing file. \<open>sha\<close> is the hexadecimal SHA-256 of a text. Floats are rationals rounded by \<open>fl\<close>, so the
  finiteness checks of the code hold. What a call reads from the world is its environment: lock attempts,
  clock readings, the answer of the issuing request. A call's section under the file lock is one
  transition of the two shared files; a run is any sequence of such sections, of whichever processes.
\<close>

section \<open>Names and rates\<close>

datatype token_error =
    LockTimeout
  | IssueThrottled
  | StoreReadError string
  | IssueFailed string
  | ContractValueError string
  | DirNotShared
  | DateOverflow

definition VENDOR_IDS :: "string list" where
  "VENDOR_IDS = [''ls'', ''toss'', ''dbsec'', ''kiwoom'']"

definition MIN_ISSUE_INTERVAL_S :: "(string \<times> rat) list" where
  "MIN_ISSUE_INTERVAL_S = [(''dbsec'', 61)]"

definition WILDCARD_SCOPE :: string where "WILDCARD_SCOPE = ''*''"

definition TOSS_RATES :: "(string \<times> rat) list" where
  "TOSS_RATES = [(''AUTH'', 5), (''ACCOUNT'', 1), (''ASSET'', 5), (''STOCK'', 5), (''STOCK_ALL'', 1), (''STOCK_TRADING_TREND'', 10),
     (''MARKET_INFO'', 3), (''MARKET_DATA'', 15), (''MARKET_DATA_CHART'', 20), (''RANKING'', 5), (''MARKET_INDICATOR'', 10),
     (''MARKET_INDICATOR_CHART'', 5), (''ORDER'', 10), (''ORDER_HISTORY'', 5), (''ORDER_INFO'', 6), (''CONDITIONAL_ORDER'', 5),
     (''CONDITIONAL_ORDER_HISTORY'', 10)]"

definition DEFAULT_RATES :: "((string \<times> string option) \<times> rat) list" where
  "DEFAULT_RATES = [((''dbsec'', None), 20), ((''dbsec'', Some ''chart''), 4), ((''dbsec'', Some ''quote''), 3),
     ((''ls'', None), fl (1 / fl (105 / 100))), ((''kiwoom'', Some WILDCARD_SCOPE), 5)]
     @ map (\<lambda>(scope, rate). ((''toss'', Some scope), rate)) TOSS_RATES"

definition validate_vendor :: "string \<Rightarrow> token_error + string" where
  "validate_vendor vendor = (if vendor \<in> set VENDOR_IDS then Inr vendor else Inl (ContractValueError ''invalid vendor''))"

definition credential_digest :: "(string \<Rightarrow> string) \<Rightarrow> string \<Rightarrow> token_error + string" where
  "credential_digest sha app_key = (if app_key = [] then Inl (ContractValueError ''credential must be non-empty'') else Inr (take 12 (sha app_key)))"

text \<open>\<open>_SCOPE_RE.fullmatch\<close>.\<close>

definition validate_scope :: "string \<Rightarrow> token_error + string" where
  "validate_scope scope =
     (if scope = WILDCARD_SCOPE \<or> scope = [] \<or> \<not> list_all name_char scope then Inl (ContractValueError ''invalid scope'') else Inr scope)"

datatype require_shared = SharedAuto | SharedAlways | SharedNever

definition resolve_host_broker_dir :: "string \<Rightarrow> require_shared \<Rightarrow> bool \<Rightarrow> (string \<Rightarrow> bool) \<Rightarrow> token_error + string" where
  "resolve_host_broker_dir configured req container marker_file =
     (let enforced = (req = SharedAlways \<or> req = SharedAuto \<and> container) in
      if enforced \<and> \<not> marker_file configured then Inl DirNotShared else Inr configured)"

definition token_record_name :: "(string \<Rightarrow> string) \<Rightarrow> string \<Rightarrow> string \<Rightarrow> token_error + string" where
  "token_record_name sha vendor app_key = (case validate_vendor vendor of Inl e \<Rightarrow> Inl e | Inr _ \<Rightarrow>
     (case credential_digest sha app_key of Inl e \<Rightarrow> Inl e | Inr digest \<Rightarrow> Inr (''token_'' @ vendor @ ''_'' @ digest @ ''.json'')))"

definition issue_guard_name :: "(string \<Rightarrow> string) \<Rightarrow> string \<Rightarrow> string \<Rightarrow> token_error + string" where
  "issue_guard_name sha vendor app_key = (case validate_vendor vendor of Inl e \<Rightarrow> Inl e | Inr _ \<Rightarrow>
     (case credential_digest sha app_key of Inl e \<Rightarrow> Inl e | Inr digest \<Rightarrow> Inr (''token_issue_'' @ vendor @ ''_'' @ digest @ ''.state'')))"

definition admission_state_name :: "(string \<Rightarrow> string) \<Rightarrow> string \<Rightarrow> string \<Rightarrow> string option \<Rightarrow> token_error + string" where
  "admission_state_name sha vendor app_key scope = (case validate_vendor vendor of Inl e \<Rightarrow> Inl e | Inr _ \<Rightarrow>
     (case credential_digest sha app_key of Inl e \<Rightarrow> Inl e | Inr digest \<Rightarrow>
        (case scope of None \<Rightarrow> Inr (''admission_'' @ vendor @ ''_'' @ digest @ ''.state'')
         | Some sc \<Rightarrow> (case validate_scope sc of Inl e \<Rightarrow> Inl e
             | Inr _ \<Rightarrow> Inr (''admission_'' @ vendor @ ''_'' @ digest @ ''_'' @ sc @ ''.state'')))))"

definition rate_for :: "string \<Rightarrow> string option \<Rightarrow> token_error + rat" where
  "rate_for vendor scope = (case map_of DEFAULT_RATES (vendor, scope) of
       Some r \<Rightarrow> Inr r
     | None \<Rightarrow> (case (scope, map_of DEFAULT_RATES (vendor, Some WILDCARD_SCOPE)) of
          (Some _, Some r) \<Rightarrow> Inr r
        | _ \<Rightarrow> Inl (ContractValueError ''undeclared rate'')))"

section \<open>Token records\<close>

record issued_token =
  it_access_token :: string
  it_expires_in_seconds :: "rat option"

record token_record =
  tr_access_token :: string
  tr_issued_at :: datetime
  tr_expires_at :: "datetime option"
  tr_generation :: int

text \<open>A datetime text with an offset; anything else is rejected.\<close>

definition aware_of :: "json \<Rightarrow> datetime option" where
  "aware_of v = (case v of JStr s \<Rightarrow> (case fromisoformat s of
       Some (d, t, Some off) \<Rightarrow> Some \<lparr>dt_date = d, dt_tod = t, dt_off = off\<rparr> | _ \<Rightarrow> None) | _ \<Rightarrow> None)"

definition RECORD_KEYS :: "string list" where
  "RECORD_KEYS = [''schema_version'', ''access_token'', ''issued_at'', ''expires_at'', ''generation'']"

definition parse_record :: "json \<Rightarrow> token_record option" where
  "parse_record payload = (case payload of
       JObj ob \<Rightarrow>
         if set (map fst ob) \<noteq> set RECORD_KEYS then None
         else if jget ob ''schema_version'' \<noteq> JInt 1 then None
         else (case (jget ob ''access_token'', jget ob ''generation'', aware_of (jget ob ''issued_at'')) of
             (JStr token, JInt generation, Some issued_at) \<Rightarrow>
               if token = [] \<or> generation < 1 then None
               else if jget ob ''expires_at'' = JNull
                 then Some \<lparr>tr_access_token = token, tr_issued_at = issued_at, tr_expires_at = None, tr_generation = generation\<rparr>
               else map_option (\<lambda>e. \<lparr>tr_access_token = token, tr_issued_at = issued_at, tr_expires_at = Some e, tr_generation = generation\<rparr>)
                 (aware_of (jget ob ''expires_at''))
           | _ \<Rightarrow> None)
     | _ \<Rightarrow> None)"

text \<open>\<open>Doc None\<close> is a file that is not a JSON text.\<close>

datatype stored_doc = DocMissing | DocUnreadable | Doc "json option"

definition read_record_file :: "stored_doc \<Rightarrow> token_error + token_record option" where
  "read_record_file f = (case f of
       DocMissing \<Rightarrow> Inr None
     | DocUnreadable \<Rightarrow> Inl (StoreReadError ''token record is unreadable'')
     | Doc None \<Rightarrow> Inl (StoreReadError ''token record is malformed'')
     | Doc (Some j) \<Rightarrow> (case parse_record j of None \<Rightarrow> Inl (StoreReadError ''token record schema is invalid'') | Some r \<Rightarrow> Inr (Some r)))"

definition write_record_file :: "token_record \<Rightarrow> stored_doc" where
  "write_record_file r = Doc (Some (JObj [(''schema_version'', JInt 1), (''access_token'', JStr (tr_access_token r)),
     (''issued_at'', JStr (isoformat (tr_issued_at r))), (''expires_at'', jopt_str (map_option isoformat (tr_expires_at r))),
     (''generation'', JInt (tr_generation r))]))"

definition build_record :: "issued_token \<Rightarrow> token_record option \<Rightarrow> datetime \<Rightarrow> token_error + token_record" where
  "build_record issued previous now =
     (let generation = (case previous of Some p \<Rightarrow> tr_generation p + 1 | None \<Rightarrow> 1);
          rec = (\<lambda>e. \<lparr>tr_access_token = it_access_token issued, tr_issued_at = now, tr_expires_at = e, tr_generation = generation\<rparr>) in
      case it_expires_in_seconds issued of
        None \<Rightarrow> Inr (rec None)
      | Some s \<Rightarrow> (case dt_add now (td_seconds s) of None \<Rightarrow> Inl DateOverflow | Some e \<Rightarrow> Inr (rec (Some e))))"

text \<open>A margin that leads before year 1 overflows; the store's margins are seconds to hours.\<close>

definition is_usable :: "token_record \<Rightarrow> datetime \<Rightarrow> rat \<Rightarrow> rat \<Rightarrow> bool" where
  "is_usable r now margin max_age = (case tr_expires_at r of
       None \<Rightarrow> total_seconds (utc_us now - utc_us (tr_issued_at r)) < max_age
     | Some e \<Rightarrow> utc_us now < utc_us e - td_seconds margin)"

definition endswith :: "string \<Rightarrow> string \<Rightarrow> bool" where
  "endswith s suf \<longleftrightarrow> length suf \<le> length s \<and> drop (length s - length suf) s = suf"

text \<open>The guard beside a token file, from the name of the file and the text of its path.\<close>

definition guard_name_for_token :: "(string \<Rightarrow> string) \<Rightarrow> string \<Rightarrow> string \<Rightarrow> string \<Rightarrow> string" where
  "guard_name_for_token sha path_text name vendor =
     (let pre = ''token_'' @ vendor @ ''_''; digest = take (length name - length ''.json'' - length pre) (drop (length pre) name) in
      if startswith name pre \<and> endswith name ''.json'' \<and> digest \<noteq> [] then ''token_issue_'' @ vendor @ ''_'' @ digest @ ''.state''
      else ''token_issue_'' @ vendor @ ''_'' @ take 12 (sha path_text) @ ''.state'')"

text \<open>\<open>Guard None\<close> is a text that is no finite float, or longer than 64 bytes.\<close>

datatype guard_file = GuardMissing | GuardUnreadable | Guard "rat option"

definition read_guard_value :: "guard_file \<Rightarrow> token_error + rat option" where
  "read_guard_value g = (case g of
       GuardMissing \<Rightarrow> Inr None
     | GuardUnreadable \<Rightarrow> Inl (StoreReadError ''token issuance guard is unreadable'')
     | Guard None \<Rightarrow> Inl (StoreReadError ''token issuance guard is malformed'')
     | Guard (Some v) \<Rightarrow> if v < 0 then Inl (StoreReadError ''token issuance guard is malformed'') else Inr (Some v))"

definition issue_interval :: "string \<Rightarrow> rat" where
  "issue_interval vendor = (case map_of MIN_ISSUE_INTERVAL_S vendor of None \<Rightarrow> 0 | Some i \<Rightarrow> i)"

definition throttle_delay_seconds :: "string \<Rightarrow> guard_file \<Rightarrow> rat \<Rightarrow> token_error + rat" where
  "throttle_delay_seconds vendor g now_epoch =
     (let interval = issue_interval vendor in
      if interval \<le> 0 then Inr 0
      else case read_guard_value g of
          Inl e \<Rightarrow> Inl e
        | Inr None \<Rightarrow> Inr 0
        | Inr (Some final) \<Rightarrow> (let wait = fl (fl (final + interval) - now_epoch) in Inr (if wait > 0 then wait else 0)))"

section \<open>The store\<close>

record token_store =
  ts_vendor :: string
  ts_lock_timeout :: rat
  ts_margin :: rat
  ts_policy :: string
  ts_max_age :: rat

definition validate_store_args :: "token_store \<Rightarrow> token_error + unit" where
  "validate_store_args c = (case validate_vendor (ts_vendor c) of Inl e \<Rightarrow> Inl e | Inr _ \<Rightarrow>
     if ts_lock_timeout c \<le> 0 then Inl (ContractValueError ''lock_timeout_seconds must be positive'')
     else if ts_margin c < 0 then Inl (ContractValueError ''expiry_margin_seconds must be non-negative'')
     else if ts_max_age c < 0 then Inl (ContractValueError ''unknown_expiry_max_age_seconds must be non-negative'')
     else if ts_policy c \<notin> {''wait'', ''raise''} then Inl (ContractValueError ''invalid issue_throttle_policy'')
     else Inr ())"

definition new_token_store :: "string \<Rightarrow> rat \<Rightarrow> rat \<Rightarrow> string \<Rightarrow> rat \<Rightarrow> token_error + token_store" where
  "new_token_store vendor lock_timeout margin policy max_age =
     (let c = \<lparr>ts_vendor = vendor, ts_lock_timeout = lock_timeout, ts_margin = margin, ts_policy = policy, ts_max_age = max_age\<rparr> in
      case validate_store_args c of Inl e \<Rightarrow> Inl e | Inr _ \<Rightarrow> Inr c)"

definition usable :: "token_store \<Rightarrow> token_record \<Rightarrow> datetime \<Rightarrow> bool" where
  "usable c r now = is_usable r now (ts_margin c) (ts_max_age c)"

record token_files =
  tf_record :: stored_doc
  tf_guard :: guard_file

text \<open>
  \<open>ie_free k\<close>: lock attempt \<open>k\<close> finds the lock free. \<open>ie_mono 0\<close> is the monotonic clock when the deadline is
  set, \<open>ie_mono (Suc k)\<close> after the failed attempt \<open>k\<close>.
\<close>

record issue_env =
  ie_free :: "nat \<Rightarrow> bool"
  ie_mono :: "nat \<Rightarrow> rat"
  ie_first :: datetime
  ie_now :: datetime
  ie_guard :: datetime
  ie_stamp :: datetime
  ie_issue :: "token_error + issued_token"
  ie_built :: datetime

definition timestamp :: "datetime \<Rightarrow> rat" where
  "timestamp t = total_seconds (utc_us t - 719163 * us_per_day)"

fun hold_lock :: "nat \<Rightarrow> (nat \<Rightarrow> bool) \<Rightarrow> (nat \<Rightarrow> rat) \<Rightarrow> rat \<Rightarrow> nat \<Rightarrow> (token_error + unit) option" where
  "hold_lock 0 free mclock deadline k = None"
| "hold_lock (Suc n) free mclock deadline k =
     (if free k then Some (Inr ())
      else if deadline \<le> mclock (Suc k) then Some (Inl LockTimeout)
      else hold_lock n free mclock deadline (Suc k))"

definition guard_before_issue :: "token_store \<Rightarrow> issue_env \<Rightarrow> guard_file \<Rightarrow> (token_error + rat option) \<times> guard_file" where
  "guard_before_issue c env g =
     (if issue_interval (ts_vendor c) \<le> 0 then (Inr None, g)
      else case throttle_delay_seconds (ts_vendor c) g (timestamp (ie_guard env)) of
          Inl e \<Rightarrow> (Inl e, g)
        | Inr wait \<Rightarrow>
            if wait > 0 \<and> (ts_policy c = ''raise'' \<or> wait > ts_lock_timeout c) then (Inl IssueThrottled, g)
            else (Inr (if wait > 0 then Some wait else None), Guard (Some (timestamp (ie_stamp env)))))"

definition issue_section :: "token_store \<Rightarrow> issue_env \<Rightarrow> token_record option \<Rightarrow> token_files \<Rightarrow> (token_error + token_record) \<times> token_files" where
  "issue_section c env cached f =
     (case guard_before_issue c env (tf_guard f) of
        (Inl e, g) \<Rightarrow> (Inl e, f\<lparr>tf_guard := g\<rparr>)
      | (Inr _, g) \<Rightarrow> (case ie_issue env of
            Inl e \<Rightarrow> (Inl e, f\<lparr>tf_guard := g\<rparr>)
          | Inr issued \<Rightarrow> (case build_record issued cached (ie_built env) of
                Inl e \<Rightarrow> (Inl e, f\<lparr>tf_guard := g\<rparr>)
              | Inr r \<Rightarrow> (Inr r, f\<lparr>tf_record := write_record_file r, tf_guard := g\<rparr>))))"

text \<open>What \<open>get_or_issue\<close> and \<open>replace_rejected\<close> do while they hold the lock.\<close>

definition locked_get :: "token_store \<Rightarrow> issue_env \<Rightarrow> token_files \<Rightarrow> (token_error + token_record) \<times> token_files" where
  "locked_get c env f = (case read_record_file (tf_record f) of
       Inl e \<Rightarrow> (Inl e, f)
     | Inr (Some r) \<Rightarrow> if usable c r (ie_now env) then (Inr r, f) else issue_section c env (Some r) f
     | Inr None \<Rightarrow> issue_section c env None f)"

definition locked_replace :: "token_store \<Rightarrow> string \<Rightarrow> issue_env \<Rightarrow> token_files \<Rightarrow> (token_error + token_record) \<times> token_files" where
  "locked_replace c rejected env f = (case read_record_file (tf_record f) of
       Inl e \<Rightarrow> (Inl e, f)
     | Inr (Some r) \<Rightarrow> if tr_access_token r \<noteq> rejected \<and> usable c r (ie_now env) then (Inr r, f) else issue_section c env (Some r) f
     | Inr None \<Rightarrow> issue_section c env None f)"

text \<open>
  The record file is read first without the lock, when it held \<open>pre\<close>; under the lock the files are \<open>f\<close>.
  Fuel bounds the lock attempts, and running out of it is \<open>None\<close>.
\<close>

definition get_or_issue :: "nat \<Rightarrow> token_store \<Rightarrow> issue_env \<Rightarrow> stored_doc \<Rightarrow> token_files \<Rightarrow> ((token_error + token_record) \<times> token_files) option" where
  "get_or_issue fuel c env pre f = (case read_record_file pre of
       Inl e \<Rightarrow> Some (Inl e, f)
     | Inr cached \<Rightarrow>
         if (case cached of Some r \<Rightarrow> usable c r (ie_first env) | None \<Rightarrow> False) then Some (Inr (the cached), f)
         else (case hold_lock fuel (ie_free env) (ie_mono env) (fl (ie_mono env 0 + ts_lock_timeout c)) 0 of
             None \<Rightarrow> None
           | Some (Inl e) \<Rightarrow> Some (Inl e, f)
           | Some (Inr _) \<Rightarrow> Some (locked_get c env f)))"

definition replace_rejected :: "nat \<Rightarrow> token_store \<Rightarrow> string \<Rightarrow> issue_env \<Rightarrow> token_files \<Rightarrow> ((token_error + token_record) \<times> token_files) option" where
  "replace_rejected fuel c rejected env f =
     (case hold_lock fuel (ie_free env) (ie_mono env) (fl (ie_mono env 0 + ts_lock_timeout c)) 0 of
        None \<Rightarrow> None
      | Some (Inl e) \<Rightarrow> Some (Inl e, f)
      | Some (Inr _) \<Rightarrow> Some (locked_replace c rejected env f))"

section \<open>The pacing file\<close>

text \<open>An empty file, or one that is not a finite float, counts as free from the epoch on.\<close>

definition read_next_free_locked :: "rat option \<Rightarrow> rat" where
  "read_next_free_locked content = (case content of None \<Rightarrow> 0 | Some v \<Rightarrow> v)"

definition book_slot :: "rat \<Rightarrow> rat option \<Rightarrow> rat option \<Rightarrow> rat \<Rightarrow> (bool \<times> rat) \<times> rat option" where
  "book_slot interval max_lead content now =
     (let slot = max now (read_next_free_locked content) in
      if (case max_lead of Some lead \<Rightarrow> fl (slot - now) > lead | None \<Rightarrow> False)
      then ((False, max (fl (fl (slot - now) - the max_lead)) interval), content)
      else ((True, fl (slot - now)), Some (fl (slot + interval))))"

record host_pacer =
  hp_interval :: rat
  hp_max_lead :: "rat option"

definition new_host_pacer :: "rat \<Rightarrow> rat \<Rightarrow> rat option \<Rightarrow> token_error + host_pacer" where
  "new_host_pacer max_rate time_period max_lead =
     (if max_rate \<le> 0 \<or> time_period \<le> 0 then Inl (ContractValueError ''max_rate and time_period must be positive'')
      else if (case max_lead of Some m \<Rightarrow> m \<le> 0 | None \<Rightarrow> False) then Inl (ContractValueError ''max_lead_seconds must be positive'')
      else Inr \<lparr>hp_interval = fl (time_period / max_rate), hp_max_lead = max_lead\<rparr>)"

text \<open>As in \<open>Pacing\<close>: attempt \<open>k\<close> finds the file \<open>file k\<close> and the clock \<open>clock k\<close>.\<close>

fun bounded_loop :: "nat \<Rightarrow> host_pacer \<Rightarrow> (nat \<Rightarrow> rat option) \<Rightarrow> (nat \<Rightarrow> rat) \<Rightarrow> nat \<Rightarrow> rat list \<Rightarrow> (rat list \<times> rat option) option" where
  "bounded_loop 0 p files clock k sleeps = None"
| "bounded_loop (Suc n) p files clock k sleeps =
     (case book_slot (hp_interval p) (hp_max_lead p) (files k) (clock k) of
        ((True, wait), content) \<Rightarrow> Some (sleeps @ sleep_if wait, content)
      | ((False, wait), content) \<Rightarrow> bounded_loop n p files clock (Suc k) (sleeps @ sleep_if wait))"

definition pacer_acquire :: "nat \<Rightarrow> host_pacer \<Rightarrow> (nat \<Rightarrow> rat option) \<Rightarrow> (nat \<Rightarrow> rat) \<Rightarrow> (rat list \<times> rat option) option" where
  "pacer_acquire fuel p files clock = (case hp_max_lead p of
       Some _ \<Rightarrow> bounded_loop fuel p files clock 0 []
     | None \<Rightarrow> (case book_slot (hp_interval p) None (files 0) (clock 0) of ((_, delay), content) \<Rightarrow> Some (sleep_if delay, content)))"

text \<open>
  The copy of the contract in \<open>src/brokers/kis/rate.py\<close> books the same slots: one file is paced alike by
  both, so the spacing of \<open>Pacing\<close> carries over to every project of the host.
\<close>

lemma book_slot_unconditional: "book_slot (hl_interval h) None content now = ((True, fst (book_unconditional h content now)), snd (book_unconditional h content now))"
  by (simp add: book_slot_def book_unconditional_def read_next_free_locked_def read_next_free_def Let_def)

lemma book_slot_bounded: "book_slot (hl_interval h) (Some lead) content now = try_book_or_wait h lead content now"
  by (simp add: book_slot_def try_book_or_wait_def read_next_free_locked_def read_next_free_def Let_def not_less)

lemma bounded_loop_matches:
  "bounded_loop n \<lparr>hp_interval = hl_interval h, hp_max_lead = Some lead\<rparr> files clock k sleeps = acquire_loop n h lead files clock k sleeps"
  by (induction n arbitrary: k sleeps) (auto simp: book_slot_bounded split: prod.splits bool.splits)

lemma contract_pacer_is_kis_limiter:
  assumes "new_host_pacer rate 1 max_lead = Inr p" "new_host_limiter rate max_lead in_container marker = Inr h"
  shows "pacer_acquire fuel p files clock = host_acquire fuel h files clock"
proof -
  have "p = \<lparr>hp_interval = hl_interval h, hp_max_lead = hl_max_lead h\<rparr>"
    using assms by (auto simp: new_host_pacer_def new_host_limiter_def split: if_splits)
  then show ?thesis
    by (cases "hl_max_lead h")
      (simp_all add: pacer_acquire_def host_acquire_def bounded_loop_matches book_slot_unconditional split_beta)
qed

section \<open>Locks\<close>

lemma hold_lock_returns:
  assumes "free (k + n) \<or> deadline \<le> mclock (Suc (k + n))"
  shows "\<exists>r. hold_lock (Suc n) free mclock deadline k = Some r"
  using assms
proof (induction n arbitrary: k)
  case (Suc n)
  then show ?case using Suc.IH [of "Suc k"] by auto
qed auto

section \<open>Records survive the file\<close>

definition wf_token :: "token_record \<Rightarrow> bool" where
  "wf_token r \<longleftrightarrow> tr_access_token r \<noteq> [] \<and> 1 \<le> tr_generation r \<and> valid_datetime (tr_issued_at r)
     \<and> (case tr_expires_at r of None \<Rightarrow> True | Some e \<Rightarrow> valid_datetime e)"

lemma aware_isoformat: "valid_datetime t \<Longrightarrow> aware_of (JStr (isoformat t)) = Some t"
  using start_read_back [of "(dt_date t, dt_tod t, Some (dt_off t))"]
  by (cases t) (simp add: aware_of_def wf_start_def valid_datetime_def iso_start_def isoformat_def)

lemma record_read_back:
  assumes "wf_token r"
  shows "read_record_file (write_record_file r) = Inr (Some r)"
proof (cases "tr_expires_at r")
  case None
  with assms show ?thesis
    by (cases r) (simp add: write_record_file_def read_record_file_def parse_record_def RECORD_KEYS_def wf_token_def aware_isoformat jopt_str_def insert_commute)
next
  case (Some e)
  with assms have "aware_of (JStr (isoformat e)) = Some e" by (simp add: wf_token_def aware_isoformat)
  with assms Some show ?thesis
    by (cases r) (simp add: write_record_file_def read_record_file_def parse_record_def RECORD_KEYS_def wf_token_def aware_isoformat jopt_str_def insert_commute)
qed

lemma parsed_generation: "parse_record j = Some r \<Longrightarrow> 1 \<le> tr_generation r"
  by (auto simp: parse_record_def split: json.splits if_splits option.splits)

lemma read_generation: "read_record_file d = Inr (Some r) \<Longrightarrow> 1 \<le> tr_generation r"
  by (auto simp: read_record_file_def dest: parsed_generation split: stored_doc.splits option.splits)

lemma built_record:
  assumes "build_record issued previous now = Inr r" "valid_datetime now" "it_access_token issued \<noteq> []"
    and "\<And>p. previous = Some p \<Longrightarrow> 1 \<le> tr_generation p"
  shows "wf_token r \<and> tr_access_token r = it_access_token issued \<and> tr_issued_at r = now
    \<and> tr_generation r = (case previous of Some p \<Rightarrow> tr_generation p + 1 | None \<Rightarrow> 1)"
proof -
  have "1 \<le> (case previous of Some p \<Rightarrow> tr_generation p + 1 | None \<Rightarrow> 1)" using assms(4) by (cases previous) force+
  moreover have "valid_datetime e" if "dt_add now d = Some e" for d e
    using dt_add_instant [OF that] assms(2) by (simp add: valid_datetime_def)
  ultimately show ?thesis using assms(1-3)
    by (auto simp: build_record_def wf_token_def Let_def split: option.splits)
qed

section \<open>One issue for the host\<close>

fun get_calls :: "nat \<Rightarrow> (token_store \<times> issue_env \<times> stored_doc) list \<Rightarrow> token_files \<Rightarrow> token_files list" where
  "get_calls fuel [] f = []"
| "get_calls fuel ((c, env, pre) # calls) f = (case get_or_issue fuel c env pre f of
       None \<Rightarrow> get_calls fuel calls f
     | Some (_, f') \<Rightarrow> f' # get_calls fuel calls f')"

lemma get_usable_keeps:
  assumes "read_record_file (tf_record f) = Inr (Some r)" "usable c r (ie_now env)" "get_or_issue fuel c env pre f = Some (res, f')"
  shows "f' = f"
proof -
  have "locked_get c env f = (Inr r, f)" using assms(1,2) by (simp add: locked_get_def)
  then show ?thesis using assms(3) by (auto simp: get_or_issue_def split: sum.splits option.splits if_splits)
qed

lemma issue_section_issued:
  assumes "issue_section c env cached f = (Inr r, f')"
  obtains it where "ie_issue env = Inr it" "build_record it cached (ie_built env) = Inr r" "tf_record f' = write_record_file r"
proof -
  obtain u g where g: "guard_before_issue c env (tf_guard f) = (u, g)" by fastforce
  with assms obtain it where it: "ie_issue env = Inr it" by (auto simp: issue_section_def split: sum.splits)
  from assms g it obtain r' where b: "build_record it cached (ie_built env) = Inr r'" by (auto simp: issue_section_def split: sum.splits)
  show thesis using that [OF it] assms g it b by (auto simp: issue_section_def split: sum.splits)
qed

lemma get_or_issue_issued:
  assumes "get_or_issue fuel c env pre f = Some (Inr r, f')" "f' \<noteq> f"
  obtains cached it where "read_record_file (tf_record f) = Inr cached" "\<And>q. cached = Some q \<Longrightarrow> \<not> usable c q (ie_now env)"
    "ie_issue env = Inr it" "build_record it cached (ie_built env) = Inr r" "tf_record f' = write_record_file r"
proof -
  have g: "locked_get c env f = (Inr r, f')"
    using assms by (auto simp: get_or_issue_def split: sum.splits option.splits if_splits)
  obtain cached where rd: "read_record_file (tf_record f) = Inr cached"
    using g by (cases "read_record_file (tf_record f)") (auto simp: locked_get_def)
  have nu: "\<not> usable c q (ie_now env)" if "cached = Some q" for q
    using g assms(2) rd that by (auto simp: locked_get_def split: if_splits)
  have "issue_section c env cached f = (Inr r, f')"
    using g rd nu by (cases cached) (auto simp: locked_get_def)
  then show thesis by (rule issue_section_issued) (use that rd nu in auto)
qed

lemma later_gets_keep:
  assumes "read_record_file (tf_record f) = Inr (Some r)" "\<forall>(c, env, pre) \<in> set calls. usable c r (ie_now env)"
  shows "set (get_calls fuel calls f) \<subseteq> {f}"
  using assms(2)
proof (induction calls)
  case (Cons a calls)
  obtain c env pre where a: "a = (c, env, pre)" by (cases a)
  show ?case
  proof (cases "get_or_issue fuel c env pre f")
    case (Some p)
    obtain res f' where p: "p = (res, f')" by (cases p)
    have "f' = f" using get_usable_keeps [OF assms(1), of c env fuel pre res f'] Cons.prems Some by (simp add: a p)
    then show ?thesis using Cons Some by (simp add: a p)
  qed (use Cons in \<open>simp add: a\<close>)
qed simp

text \<open>
  C37. A host issues a token once: a call that issued has found no usable token under the lock, its record has
  the next generation and is what the file yields, and as long as the token is usable no later call of any
  process, whatever it saw before taking the lock, issues again.
\<close>

theorem token_issued_once:
  assumes got: "get_or_issue fuel c env pre f = Some (Inr r, f')" and issued: "f' \<noteq> f"
    and clock: "valid_datetime (ie_built env)" and named: "\<forall>it. ie_issue env = Inr it \<longrightarrow> it_access_token it \<noteq> []"
    and later: "\<forall>(c', env', pre') \<in> set calls. usable c' r (ie_now env')"
  shows "(\<forall>q. read_record_file (tf_record f) = Inr (Some q) \<longrightarrow> \<not> usable c q (ie_now env) \<and> tr_generation r = tr_generation q + 1)
    \<and> read_record_file (tf_record f') = Inr (Some r)
    \<and> set (get_calls fuel' calls f') \<subseteq> {f'}"
proof -
  obtain cached it where rd: "read_record_file (tf_record f) = Inr cached" and nu: "\<And>q. cached = Some q \<Longrightarrow> \<not> usable c q (ie_now env)"
    and it: "ie_issue env = Inr it" and b: "build_record it cached (ie_built env) = Inr r" and w: "tf_record f' = write_record_file r"
    using get_or_issue_issued [OF got issued] by blast
  have r: "wf_token r \<and> tr_access_token r = it_access_token it \<and> tr_issued_at r = ie_built env
      \<and> tr_generation r = (case cached of Some p \<Rightarrow> tr_generation p + 1 | None \<Rightarrow> 1)"
    by (rule built_record [OF b clock]) (use named it rd read_generation in auto)
  have again: "read_record_file (tf_record f') = Inr (Some r)" using r w record_read_back by simp
  with later_gets_keep [OF again later, of fuel'] rd nu r show ?thesis by auto
qed

section \<open>Issues are spaced\<close>

text \<open>The instants at which calls pass the guard of one credential, and that each slept as long as it was told to.\<close>

fun issue_stamps :: "(token_store \<times> issue_env) list \<Rightarrow> guard_file \<Rightarrow> rat list" where
  "issue_stamps [] g = []"
| "issue_stamps ((c, env) # calls) g = (case guard_before_issue c env g of
       (Inr _, g') \<Rightarrow> timestamp (ie_stamp env) # issue_stamps calls g'
     | (Inl _, g') \<Rightarrow> issue_stamps calls g')"

fun slept_enough :: "(token_store \<times> issue_env) list \<Rightarrow> guard_file \<Rightarrow> bool" where
  "slept_enough [] g = True"
| "slept_enough ((c, env) # calls) g =
     (0 \<le> timestamp (ie_guard env) \<and> timestamp (ie_stamp env) \<le> 2 ^ 33
      \<and> timestamp (ie_guard env) + (case fst (guard_before_issue c env g) of Inr (Some w) \<Rightarrow> w | _ \<Rightarrow> 0) \<le> timestamp (ie_stamp env)
      \<and> slept_enough calls (snd (guard_before_issue c env g)))"

lemma fl_close: "\<bar>x\<bar> \<le> 2 ^ 34 \<Longrightarrow> \<bar>fl x - x\<bar> \<le> 1 / 2 ^ 19"
proof -
  assume "\<bar>x\<bar> \<le> 2 ^ 34"
  then have "\<bar>x\<bar> / 2 ^ 53 \<le> 2 ^ 34 / 2 ^ 53" by (intro divide_right_mono) simp_all
  with fl_error [of x] show ?thesis by simp
qed

lemma guard_passed:
  assumes "guard_before_issue c env g = (Inr w, g')" "0 < issue_interval (ts_vendor c)"
  shows "g' = Guard (Some (timestamp (ie_stamp env)))"
    and "read_guard_value g = Inr (Some v) \<Longrightarrow>
      (let d = fl (fl (v + issue_interval (ts_vendor c)) - timestamp (ie_guard env)) in w = (if 0 < d then Some d else None))"
  using assms by (auto simp: guard_before_issue_def throttle_delay_seconds_def Let_def split: sum.splits option.splits if_splits)

lemma guard_failed: "guard_before_issue c env g = (Inl e, g') \<Longrightarrow> g' = g"
  by (auto simp: guard_before_issue_def split: sum.splits if_splits)

lemma issue_interval_values: "issue_interval vendor = 0 \<or> issue_interval vendor = 61"
  by (auto simp: issue_interval_def MIN_ISSUE_INTERVAL_S_def)

lemma stamp_after_guard:
  assumes passed: "guard_before_issue c env g = (Inr w, g')" and interval: "0 < issue_interval (ts_vendor c)"
    and before: "read_guard_value g = Inr (Some v)" "v \<le> 2 ^ 33"
    and slept: "slept_enough ((c, env) # calls) g"
  shows "v + issue_interval (ts_vendor c) - 1 / 2 ^ 18 \<le> timestamp (ie_stamp env)"
proof -
  let ?I = "issue_interval (ts_vendor c)" and ?t = "timestamp (ie_guard env)" and ?s = "timestamp (ie_stamp env)"
  let ?x = "fl (v + ?I)"
  have I: "?I = 61" using issue_interval_values [of "ts_vendor c"] interval by auto
  have v: "0 \<le> v" using before(1) by (auto simp: read_guard_value_def split: guard_file.splits option.splits if_splits)
  have t: "0 \<le> ?t" "?s \<le> 2 ^ 33" "?t + (case w of Some d \<Rightarrow> d | None \<Rightarrow> 0) \<le> ?s" using slept passed by (simp_all split: option.splits)
  have w: "w = (if 0 < fl (?x - ?t) then Some (fl (?x - ?t)) else None)" using guard_passed(2) [OF passed interval before(1)] by (simp add: Let_def)
  have le: "?t \<le> ?s" using t(3) w by (auto split: if_splits)
  have x: "\<bar>?x - (v + ?I)\<bar> \<le> 1 / 2 ^ 19" by (rule fl_close) (use v before(2) I in simp)
  have "(1 :: rat) / 2 ^ 19 \<le> 1" "(2 :: rat) ^ 33 + 62 \<le> 2 ^ 34" by simp_all
  then have "\<bar>?x - ?t\<bar> \<le> 2 ^ 34" using x v before(2) I t(1,2) le by linarith
  then have d: "\<bar>fl (?x - ?t) - (?x - ?t)\<bar> \<le> 1 / 2 ^ 19" by (rule fl_close)
  have "?x - 1 / 2 ^ 19 \<le> ?s"
  proof (cases "0 < fl (?x - ?t)")
    case True
    then have "?t + fl (?x - ?t) \<le> ?s" using t(3) w by simp
    then show ?thesis using d by linarith
  qed (use d le in linarith)
  moreover have "(1 :: rat) / 2 ^ 18 = 1 / 2 ^ 19 + 1 / 2 ^ 19" by simp
  ultimately show ?thesis using x by linarith
qed

lemma first_stamp:
  assumes "issue_stamps calls (Guard (Some v)) = s # ss" "v \<le> 2 ^ 33" "slept_enough calls (Guard (Some v))"
    and "\<forall>(c, env) \<in> set calls. ts_vendor c = vendor" "0 < issue_interval vendor"
  shows "v + issue_interval vendor - 1 / 2 ^ 18 \<le> s"
  using assms(1,3,4)
proof (induction calls)
  case (Cons a calls)
  obtain c env where a: "a = (c, env)" by (cases a)
  have c: "ts_vendor c = vendor" using Cons.prems(3) by (simp add: a)
  obtain r g' where g: "guard_before_issue c env (Guard (Some v)) = (r, g')" by fastforce
  show ?case
  proof (cases r)
    case (Inl e)
    then have "g' = Guard (Some v)" using g guard_failed by blast
    then show ?thesis using Cons Inl g by (simp add: a)
  next
    case (Inr w)
    have "read_guard_value (Guard (Some v)) = Inr (Some v)"
      using g Inr assms(5) by (auto simp: guard_before_issue_def throttle_delay_seconds_def read_guard_value_def c Let_def split: if_splits)
    with stamp_after_guard [of c env "Guard (Some v)" w g' v calls] show ?thesis
      using Cons.prems g Inr assms(2,5) by (simp add: a c)
  qed
qed simp

text \<open>
  C38. Token issues of a throttled vendor are spaced: over any sequence of calls of any processes on one
  credential, each passes the guard at least the vendor's minimum interval after the one that passed
  before it, up to four microseconds of floating-point rounding, provided a told sleep is slept and the
  clock does not run back within a call.
\<close>

theorem token_issues_spaced:
  assumes "Suc i < length (issue_stamps calls g)" "slept_enough calls g"
    and "\<forall>(c, env) \<in> set calls. ts_vendor c = vendor" "0 < issue_interval vendor"
  shows "issue_stamps calls g ! i + issue_interval vendor - 1 / 2 ^ 18 \<le> issue_stamps calls g ! Suc i"
  using assms(1-3)
proof (induction calls arbitrary: g i)
  case (Cons a calls)
  obtain c env where a: "a = (c, env)" by (cases a)
  have c: "ts_vendor c = vendor" and rest: "\<forall>(c, env) \<in> set calls. ts_vendor c = vendor" using Cons.prems(3) by (simp_all add: a)
  obtain r g' where g: "guard_before_issue c env g = (r, g')" by fastforce
  have slept: "slept_enough calls g'" "timestamp (ie_stamp env) \<le> 2 ^ 33" using Cons.prems(2) g by (simp_all add: a)
  show ?case
  proof (cases r)
    case (Inl e)
    then show ?thesis using Cons.IH [OF _ slept(1) rest, of i] Cons.prems(1) g by (simp add: a)
  next
    case (Inr w)
    have g': "g' = Guard (Some (timestamp (ie_stamp env)))" using guard_passed(1) [of c env g w g'] g Inr assms(4) c by simp
    show ?thesis
    proof (cases i)
      case 0
      obtain s ss where ss: "issue_stamps calls g' = s # ss" using Cons.prems(1) g Inr by (cases "issue_stamps calls g'") (simp_all add: a 0)
      then show ?thesis using first_stamp [of calls _ s ss vendor] slept rest assms(4) g Inr by (simp add: a 0 g')
    next
      case (Suc j)
      then show ?thesis using Cons.IH [OF _ slept(1) rest, of j] Cons.prems(1) g Inr by (simp add: a)
    qed
  qed
qed simp

definition demo_clock :: "nat \<Rightarrow> datetime" where
  "demo_clock n = \<lparr>dt_date = \<lparr>d_year = 1970, d_month = 1, d_day = 1\<rparr>, dt_tod = n * 1000000, dt_off = 0\<rparr>"

definition demo_store :: token_store where
  "demo_store = \<lparr>ts_vendor = ''dbsec'', ts_lock_timeout = 120, ts_margin = 60, ts_policy = ''wait'', ts_max_age = 43200\<rparr>"

definition demo_issue :: "nat \<Rightarrow> nat \<Rightarrow> issue_env" where
  "demo_issue asked stamp = \<lparr>ie_free = (\<lambda>_. True), ie_mono = (\<lambda>_. 0), ie_first = demo_clock asked, ie_now = demo_clock asked, ie_guard = demo_clock asked,
     ie_stamp = demo_clock stamp, ie_issue = Inr \<lparr>it_access_token = ''t'', it_expires_in_seconds = None\<rparr>, ie_built = demo_clock stamp\<rparr>"

lemma demo_issue_sel:
  "ie_now (demo_issue a b) = demo_clock a" "ie_guard (demo_issue a b) = demo_clock a" "ie_stamp (demo_issue a b) = demo_clock b"
  "ie_built (demo_issue a b) = demo_clock b" "ie_issue (demo_issue a b) = Inr \<lparr>it_access_token = ''t'', it_expires_in_seconds = None\<rparr>"
  by (simp_all add: demo_issue_def)

lemma demo_clock_us: "utc_us (demo_clock n) = 719163 * us_per_day + int n * us_per_s"
  by (simp add: utc_us_def local_us_def demo_clock_def toordinal_def days_before_month_def)

lemma demo_timestamp: "n \<le> 2 ^ 33 \<Longrightarrow> timestamp (demo_clock n) = of_nat n"
  using fl_of_int [of "int n"] by (simp add: timestamp_def demo_clock_us total_seconds_def)

theorem token_issued_once_witness:
  "\<exists>r f. get_or_issue 1 demo_store (demo_issue 100 100) DocMissing \<lparr>tf_record = DocMissing, tf_guard = GuardMissing\<rparr> = Some (Inr r, f)
     \<and> read_record_file (tf_record f) = Inr (Some r) \<and> set (get_calls 1 [(demo_store, demo_issue 200 200, DocMissing)] f) \<subseteq> {f}"
proof -
  let ?init = "\<lparr>tf_record = DocMissing, tf_guard = GuardMissing\<rparr>"
  let ?r = "\<lparr>tr_access_token = ''t'', tr_issued_at = demo_clock 100, tr_expires_at = None, tr_generation = 1\<rparr>"
  let ?f = "\<lparr>tf_record = write_record_file ?r, tf_guard = Guard (Some (timestamp (demo_clock 100)))\<rparr>"
  have "guard_before_issue demo_store (demo_issue 100 100) GuardMissing = (Inr None, Guard (Some (timestamp (demo_clock 100))))"
    by (simp add: guard_before_issue_def demo_store_def issue_interval_def MIN_ISSUE_INTERVAL_S_def throttle_delay_seconds_def
        read_guard_value_def demo_issue_sel)
  then have "locked_get demo_store (demo_issue 100 100) ?init = (Inr ?r, ?f)"
    by (simp add: locked_get_def read_record_file_def issue_section_def build_record_def demo_issue_sel)
  then have got: "get_or_issue 1 demo_store (demo_issue 100 100) DocMissing ?init = Some (Inr ?r, ?f)"
    by (simp add: get_or_issue_def read_record_file_def demo_issue_def)
  have "total_seconds (utc_us (demo_clock 200) - utc_us (demo_clock 100)) = 100"
    using fl_of_int [of 100] by (simp add: demo_clock_us total_seconds_def)
  then have u: "usable demo_store ?r (demo_clock 200)" by (simp add: usable_def is_usable_def demo_store_def)
  have "valid_datetime (demo_clock 100)" by (simp add: valid_datetime_def demo_clock_def valid_date_def days_in_month_def)
  then have "read_record_file (tf_record ?f) = Inr (Some ?r) \<and> set (get_calls 1 [(demo_store, demo_issue 200 200, DocMissing)] ?f) \<subseteq> {?f}"
    using token_issued_once [OF got, of "[(demo_store, demo_issue 200 200, DocMissing)]" 1] u
    by (simp add: demo_issue_sel write_record_file_def del: get_calls.simps)
  with got show ?thesis by blast
qed

theorem token_issues_spaced_witness:
  "let calls = [(demo_store, demo_issue 100 100), (demo_store, demo_issue 110 161)] in
   length (issue_stamps calls GuardMissing) = 2
   \<and> issue_stamps calls GuardMissing ! 0 + 61 - 1 / 2 ^ 18 \<le> issue_stamps calls GuardMissing ! 1"
proof -
  let ?calls = "[(demo_store, demo_issue 100 100), (demo_store, demo_issue 110 161)]"
  have I: "issue_interval ''dbsec'' = 61" by (simp add: issue_interval_def MIN_ISSUE_INTERVAL_S_def)
  have ts: "timestamp (demo_clock 100) = 100" "timestamp (demo_clock 110) = 110" "timestamp (demo_clock 161) = 161"
    by (simp_all add: demo_timestamp)
  have fls: "fl 161 = 161" "fl 51 = 51" using fl_of_int [of 161] fl_of_int [of 51] by simp_all
  have first: "guard_before_issue demo_store (demo_issue 100 100) GuardMissing = (Inr None, Guard (Some 100))"
    by (simp add: guard_before_issue_def demo_store_def I throttle_delay_seconds_def read_guard_value_def demo_issue_def ts)
  have second: "guard_before_issue demo_store (demo_issue 110 161) (Guard (Some 100)) = (Inr (Some 51), Guard (Some 161))"
    by (simp add: guard_before_issue_def demo_store_def I throttle_delay_seconds_def read_guard_value_def demo_issue_def ts fls)
  have n: "length (issue_stamps ?calls GuardMissing) = 2" by (simp add: first second)
  have s: "slept_enough ?calls GuardMissing" by (simp add: first second demo_issue_sel ts)
  have "\<forall>(c, env) \<in> set ?calls. ts_vendor c = ''dbsec''" by (simp add: demo_store_def)
  from token_issues_spaced [OF _ s this, of 0] n I show ?thesis unfolding Let_def by (simp add: numeral_2_eq_2)
qed

end
