(* ===== verification/ImageGc.thy ===== *)
theory ImageGc
  imports Errors Layout "HOL-Library.List_Lexorder" "HOL-Library.Char_ord" "HOL-Library.Product_Lexorder" "HOL-Library.Multiset"
begin

text \<open>
  The image collector of the deploy host, \<open>deploy/host/vps_image_gc.py\<close>. What docker answers is the
  environment of a run: the parsed rows of \<open>docker images\<close>, the containers and the image each one runs,
  the \<open>:latest\<close> image of a repository, and whether a removal succeeds. \<open>created\<close> is the instant in
  microseconds; rows that do not parse are dropped before this model starts.
\<close>

section \<open>Selection\<close>

record image_tag =
  im_repository :: string
  im_tag :: string
  im_image_id :: string
  im_created :: int

text \<open>\<open>sorted(xs, key=key, reverse=True)\<close> keeps equal elements in their order.\<close>

definition sorted_reverse :: "('a \<Rightarrow> 'k::linorder) \<Rightarrow> 'a list \<Rightarrow> 'a list" where
  "sorted_reverse key xs = rev (sort_key key (rev xs))"

definition setdefault_append :: "('a \<Rightarrow> 'k) \<Rightarrow> 'a \<Rightarrow> ('k, 'a list) dict \<Rightarrow> ('k, 'a list) dict" where
  "setdefault_append key x d = (case map_of d (key x) of None \<Rightarrow> d @ [(key x, [x])] | Some xs \<Rightarrow> AList.update (key x) (xs @ [x]) d)"

definition grouped_by :: "('a \<Rightarrow> 'k) \<Rightarrow> 'a list \<Rightarrow> ('k, 'a list) dict" where
  "grouped_by key xs = fold (setdefault_append key) xs []"

definition is_candidate :: "string list \<Rightarrow> image_tag \<Rightarrow> bool" where
  "is_candidate repositories t \<longleftrightarrow> im_repository t \<in> set repositories \<and> startswith (im_tag t) ''sha-''"

definition age_key :: "image_tag \<Rightarrow> int \<times> string" where
  "age_key t = (im_created t, im_tag t)"

definition select_tag_removals :: "image_tag list \<Rightarrow> string list \<Rightarrow> string list \<Rightarrow> int \<Rightarrow> image_tag list result" where
  "select_tag_removals tags repositories protected keep =
     (if keep < 1 then Inl (ValueError ''keep must be >= 1'')
      else let doomed = concat (map (\<lambda>(_, ts). filter (\<lambda>t. im_image_id t \<notin> set protected) (drop (nat keep) (sorted_reverse age_key ts)))
                 (grouped_by im_repository (filter (is_candidate repositories) tags)))
           in Inr (sort_key (\<lambda>t. (im_repository t, im_tag t)) doomed))"

text \<open>An evidence file is its parent directory and its name.\<close>

definition select_evidence_removals :: "(string \<times> string) list \<Rightarrow> int \<Rightarrow> (string \<times> string) list result" where
  "select_evidence_removals files keep =
     (if keep < 1 then Inl (ValueError ''keep must be >= 1'')
      else Inr (sort_key (\<lambda>f. f) (concat (map (\<lambda>(_, siblings). drop (nat keep) (sorted_reverse snd siblings)) (grouped_by fst files)))))"

section \<open>A run\<close>

record gc_args =
  ga_repos :: "string list"
  ga_keep :: int
  ga_evidence_keep :: int
  ga_dry_run :: bool

record docker =
  dk_images :: "image_tag list option"
  dk_containers :: "string list option"
  dk_container_image :: "string \<Rightarrow> string option"
  dk_latest :: "string \<Rightarrow> string option"
  dk_rmi_ok :: "string \<Rightarrow> bool"
  dk_prune_ok :: bool
  dk_evidence :: "(string \<times> (string \<times> string) list) list"
  dk_unlink_ok :: "string \<times> string \<Rightarrow> bool"

datatype gc_status = GcSkipped | GcOk | GcDegraded "string list"

record gc_outcome =
  go_exit :: int
  go_status :: gc_status
  go_removed :: "image_tag list"
  go_kept :: int
  go_evidence_removed :: "(string \<times> string) list"

definition protected_image_ids :: "docker \<Rightarrow> string list \<Rightarrow> string list option" where
  "protected_image_ids dk repositories = (case dk_containers dk of
       None \<Rightarrow> None
     | Some cs \<Rightarrow> Some (List.map_filter (dk_container_image dk) cs @ List.map_filter (dk_latest dk) repositories))"

definition tag_ref :: "image_tag \<Rightarrow> string" where
  "tag_ref t = im_repository t @ '':'' @ im_tag t"

definition gc_degraded :: "string list \<Rightarrow> gc_outcome" where
  "gc_degraded failed = \<lparr>go_exit = 1, go_status = GcDegraded failed, go_removed = [], go_kept = 0, go_evidence_removed = []\<rparr>"

text \<open>The work under the image lock: untag, prune, trim the evidence of every project.\<close>

definition gc_collect :: "gc_args \<Rightarrow> docker \<Rightarrow> image_tag list \<Rightarrow> string list \<Rightarrow> gc_outcome result" where
  "gc_collect args dk tags protected =
     rbind (select_tag_removals tags (ga_repos args) protected (ga_keep args)) (\<lambda>removals.
     rbind (rmap (\<lambda>(_, fs). select_evidence_removals fs (ga_evidence_keep args)) (dk_evidence dk)) (\<lambda>victims.
       let removed = (if ga_dry_run args then [] else filter (\<lambda>t. dk_rmi_ok dk (tag_ref t)) removals);
           failed = (if ga_dry_run args then [] else map tag_ref (filter (\<lambda>t. \<not> dk_rmi_ok dk (tag_ref t)) removals)
                       @ (if dk_prune_ok dk then [] else [''prune'']));
           gone = (if ga_dry_run args then [] else filter (dk_unlink_ok dk) (concat victims))
       in Inr \<lparr>go_exit = (if failed = [] then 0 else 1), go_status = (if failed = [] then GcOk else GcDegraded failed),
            go_removed = removed, go_kept = int (length (filter (is_candidate (ga_repos args)) tags)) - int (length removals),
            go_evidence_removed = gone\<rparr>))"

definition gc_main :: "gc_args \<Rightarrow> bool \<Rightarrow> docker \<Rightarrow> gc_outcome result" where
  "gc_main args lock_free dk =
     (if ga_keep args < 1 then Inl (ValueError ''--keep must be >= 1'')
      else if ga_evidence_keep args < 1 then Inl (ValueError ''--evidence-keep must be >= 1'')
      else if \<not> lock_free then Inr \<lparr>go_exit = 0, go_status = GcSkipped, go_removed = [], go_kept = 0, go_evidence_removed = []\<rparr>
      else case dk_images dk of
          None \<Rightarrow> Inr (gc_degraded [''images''])
        | Some tags \<Rightarrow> (case protected_image_ids dk (ga_repos args) of
              None \<Rightarrow> Inr (gc_degraded [''ps''])
            | Some protected \<Rightarrow> gc_collect args dk tags protected))"

section \<open>Groups and ranks\<close>

lemma setdefault_append_at: "map_of (setdefault_append key x d) k
    = (if k = key x then Some ((case map_of d k of None \<Rightarrow> [] | Some xs \<Rightarrow> xs) @ [x]) else map_of d k)"
  by (auto simp: setdefault_append_def map_add_def split: option.splits)

lemma setdefault_append_wf: "wf_dict d \<Longrightarrow> wf_dict (setdefault_append key x d)"
  by (auto simp: setdefault_append_def map_of_eq_None_iff split: option.splits)

lemma grouped_from:
  assumes "wf_dict d"
  shows "wf_dict (fold (setdefault_append key) xs d)
    \<and> map_of (fold (setdefault_append key) xs d) k
      = (let g = (case map_of d k of None \<Rightarrow> [] | Some ys \<Rightarrow> ys) @ filter (\<lambda>x. key x = k) xs in
         if map_of d k = None \<and> g = [] then None else Some g)"
  using assms
proof (induction xs arbitrary: d)
  case Nil
  then show ?case by (auto simp: Let_def split: option.splits)
next
  case (Cons x xs)
  from Cons.IH [OF setdefault_append_wf [OF Cons.prems], of key x] show ?case
    by (auto simp: Let_def setdefault_append_at split: option.splits)
qed

lemma grouped_member: "(k, ts) \<in> set (grouped_by key xs) \<longleftrightarrow> ts = filter (\<lambda>x. key x = k) xs \<and> ts \<noteq> []"
proof -
  have g: "wf_dict (grouped_by key xs)" "map_of (grouped_by key xs) k = (let g = filter (\<lambda>x. key x = k) xs in if g = [] then None else Some g)"
    using grouped_from [of "[]" key xs k] by (simp_all add: grouped_by_def)
  have "(k, ts) \<in> set (grouped_by key xs) \<longleftrightarrow> map_of (grouped_by key xs) k = Some ts" using g(1) by simp
  then show ?thesis by (auto simp: g(2) Let_def)
qed

lemma mset_sorted_reverse [simp]: "mset (sorted_reverse key xs) = mset xs"
  by (simp add: sorted_reverse_def)

lemma set_sorted_reverse [simp]: "set (sorted_reverse key xs) = set xs"
  by (simp add: sorted_reverse_def)

lemma sorted_reverse_desc:
  assumes "distinct (map key xs)"
  shows "sorted_wrt (\<lambda>x y. key y < key x) (sorted_reverse key xs)"
proof -
  let ?ys = "sort_key key (rev xs)"
  have "distinct (map key ?ys)"
    using assms by (metis distinct_map distinct_rev mset_eq_imp_distinct_iff mset_sort rev_map set_rev set_sort)
  then have "sorted_wrt (<) (map key ?ys)" by (simp add: strict_sorted_iff)
  then show ?thesis by (simp add: sorted_reverse_def sorted_wrt_rev sorted_wrt_map)
qed

text \<open>What a cut of the descending order drops: the elements with at least that many above them.\<close>

lemma filter_above_nth:
  assumes "sorted_wrt (\<lambda>x y. key y < key x) ys" "i < length ys"
  shows "filter (\<lambda>y. key (ys ! i) < (key y :: 'k::linorder)) ys = take i ys"
  using assms
proof (induction ys arbitrary: i)
  case (Cons y ys)
  show ?case
  proof (cases i)
    case 0
    have "filter (\<lambda>z. key y < key z) ys = []" using Cons.prems(1) by (auto simp: filter_empty_conv)
    then show ?thesis by (simp add: 0)
  next
    case (Suc j)
    then have "ys ! j \<in> set ys" using Cons.prems(2) by simp
    with Cons Suc show ?thesis by auto
  qed
qed simp

lemma drop_sorted_reverse:
  assumes "distinct (map key xs)"
  shows "x \<in> set (drop n (sorted_reverse key xs)) \<longleftrightarrow> x \<in> set xs \<and> n \<le> length (filter (\<lambda>y. key x < key y) xs)"
proof -
  let ?ys = "sorted_reverse key xs"
  have desc: "sorted_wrt (\<lambda>x y. key y < key x) ?ys" using assms by (rule sorted_reverse_desc)
  have "mset (filter (\<lambda>y. key x < key y) ?ys) = mset (filter (\<lambda>y. key x < key y) xs)" by simp
  then have len: "length (filter (\<lambda>y. key x < key y) xs) = length (filter (\<lambda>y. key x < key y) ?ys)" by (metis size_mset)
  have rank: "length (filter (\<lambda>y. key (?ys ! i) < key y) ?ys) = i" if "i < length ?ys" for i
    using filter_above_nth [OF desc that] that by simp
  show ?thesis
  proof
    assume "x \<in> set (drop n ?ys)"
    then obtain j where "j < length ?ys - n" "x = drop n ?ys ! j" by (auto simp: in_set_conv_nth)
    then obtain i where i: "n + i < length ?ys" "x = ?ys ! (n + i)" by (intro that [of j]) simp_all
    then show "x \<in> set xs \<and> n \<le> length (filter (\<lambda>y. key x < key y) xs)"
      using len rank [OF i(1)] nth_mem [OF i(1)] by simp
  next
    assume x: "x \<in> set xs \<and> n \<le> length (filter (\<lambda>y. key x < key y) xs)"
    then obtain i where i: "i < length ?ys" "x = ?ys ! i" by (metis in_set_conv_nth set_sorted_reverse)
    then have "n \<le> i" using x len rank [OF i(1)] by simp
    then show "x \<in> set (drop n ?ys)" using i by (auto simp: in_set_conv_nth intro!: exI [of _ "i - n"])
  qed
qed

definition newer_tags :: "string list \<Rightarrow> image_tag list \<Rightarrow> image_tag \<Rightarrow> image_tag list" where
  "newer_tags repositories tags t =
     filter (\<lambda>u. is_candidate repositories u \<and> im_repository u = im_repository t \<and> age_key t < age_key u) tags"

lemma select_exact:
  assumes "select_tag_removals tags repositories protected keep = Inr doomed"
    and "distinct (map (\<lambda>t. (im_repository t, im_tag t)) tags)"
  shows "t \<in> set doomed \<longleftrightarrow> t \<in> set tags \<and> is_candidate repositories t \<and> im_image_id t \<notin> set protected
    \<and> keep \<le> int (length (newer_tags repositories tags t))"
proof -
  let ?cs = "filter (is_candidate repositories) tags"
  let ?g = "\<lambda>r. filter (\<lambda>u. im_repository u = r) ?cs"
  have keep: "1 \<le> keep" using assms(1) by (simp add: select_tag_removals_def split: if_splits)
  have dist: "distinct (map age_key (?g r))" for r
  proof -
    have "distinct (map (\<lambda>t. (im_repository t, im_tag t)) (?g r))" using assms(2) by (simp add: distinct_map inj_on_def distinct_filter)
    then show ?thesis by (auto simp: distinct_map inj_on_def age_key_def)
  qed
  have "t \<in> set doomed \<longleftrightarrow> (\<exists>r ts. (r, ts) \<in> set (grouped_by im_repository ?cs) \<and> t \<in> set (drop (nat keep) (sorted_reverse age_key ts)) \<and> im_image_id t \<notin> set protected)"
    using assms(1) keep by (auto simp: select_tag_removals_def Let_def) (blast | force)+
  also have "\<dots> \<longleftrightarrow> (\<exists>r. t \<in> set (drop (nat keep) (sorted_reverse age_key (?g r))) \<and> im_image_id t \<notin> set protected)"
    unfolding grouped_member by (metis drop_Nil equals0D list.set(1) rev.simps(1) sort_key_simps(1) sorted_reverse_def)
  also have "\<dots> \<longleftrightarrow> t \<in> set tags \<and> is_candidate repositories t \<and> im_image_id t \<notin> set protected
      \<and> nat keep \<le> length (filter (\<lambda>u. age_key t < age_key u) (?g (im_repository t)))"
    unfolding drop_sorted_reverse [OF dist] by auto
  also have "filter (\<lambda>u. age_key t < age_key u) (?g (im_repository t)) = newer_tags repositories tags t"
    by (simp add: newer_tags_def conj_ac)
  finally show ?thesis using keep by (simp add: nat_le_iff)
qed

text \<open>
  C39. The collector untags exactly what is superseded: with the lock, outside a dry run and with docker
  answering, the tags removed are the \<open>sha-\<close> tags of the listed repositories whose image no container and
  no \<open>:latest\<close> uses, that have at least \<open>keep\<close> newer ones in their repository, and whose removal docker
  accepted; otherwise nothing is removed.
\<close>

theorem image_gc_exact:
  assumes "gc_main args lock_free dk = Inr out" "dk_images dk = Some tags"
    and "distinct (map (\<lambda>t. (im_repository t, im_tag t)) tags)"
  shows "t \<in> set (go_removed out) \<longleftrightarrow> lock_free \<and> \<not> ga_dry_run args \<and> t \<in> set tags \<and> is_candidate (ga_repos args) t
    \<and> (\<exists>protected. protected_image_ids dk (ga_repos args) = Some protected \<and> im_image_id t \<notin> set protected)
    \<and> ga_keep args \<le> int (length (newer_tags (ga_repos args) tags t)) \<and> dk_rmi_ok dk (tag_ref t)"
proof (cases "lock_free \<and> protected_image_ids dk (ga_repos args) \<noteq> None")
  case True
  then obtain protected where p: "protected_image_ids dk (ga_repos args) = Some protected" by blast
  with True assms(1,2) have c: "gc_collect args dk tags protected = Inr out" by (simp add: gc_main_def split: if_splits)
  then obtain doomed where d: "select_tag_removals tags (ga_repos args) protected (ga_keep args) = Inr doomed"
    by (cases "select_tag_removals tags (ga_repos args) protected (ga_keep args)") (simp_all add: gc_collect_def)
  have "go_removed out = (if ga_dry_run args then [] else filter (\<lambda>t. dk_rmi_ok dk (tag_ref t)) doomed)"
    using c d by (cases "rmap (\<lambda>(_, fs). select_evidence_removals fs (ga_evidence_keep args)) (dk_evidence dk)")
      (auto simp: gc_collect_def Let_def)
  with select_exact [OF d assms(3), of t] True p show ?thesis by auto
next
  case False
  with assms(1,2) have "go_removed out = []" by (auto simp: gc_main_def gc_degraded_def split: if_splits option.splits)
  with False show ?thesis by auto
qed

definition demo_tag :: "string \<Rightarrow> string \<Rightarrow> int \<Rightarrow> image_tag" where
  "demo_tag tag ident created = \<lparr>im_repository = ''krx'', im_tag = tag, im_image_id = ident, im_created = created\<rparr>"

definition demo_docker :: docker where
  "demo_docker = \<lparr>dk_images = Some [demo_tag ''sha-1'' ''a'' 1, demo_tag ''sha-2'' ''b'' 2, demo_tag ''sha-3'' ''c'' 3],
     dk_containers = Some [''web''], dk_container_image = (\<lambda>_. Some ''b''), dk_latest = (\<lambda>_. Some ''c''), dk_rmi_ok = (\<lambda>_. True),
     dk_prune_ok = True, dk_evidence = [], dk_unlink_ok = (\<lambda>_. True)\<rparr>"

definition demo_args :: gc_args where
  "demo_args = \<lparr>ga_repos = [''krx''], ga_keep = 1, ga_evidence_keep = 20, ga_dry_run = False\<rparr>"

theorem image_gc_exact_witness:
  "\<exists>out. gc_main demo_args True demo_docker = Inr out
     \<and> demo_tag ''sha-1'' ''a'' 1 \<in> set (go_removed out) \<and> demo_tag ''sha-2'' ''b'' 2 \<notin> set (go_removed out)
     \<and> demo_tag ''sha-3'' ''c'' 3 \<notin> set (go_removed out)"
proof -
  let ?tags = "[demo_tag ''sha-1'' ''a'' 1, demo_tag ''sha-2'' ''b'' 2, demo_tag ''sha-3'' ''c'' 3]"
  obtain out where out: "gc_main demo_args True demo_docker = Inr out"
    by (simp add: gc_main_def demo_args_def demo_docker_def protected_image_ids_def gc_collect_def select_tag_removals_def Let_def)
  have tags: "dk_images demo_docker = Some ?tags" by (simp add: demo_docker_def)
  have dist: "distinct (map (\<lambda>t. (im_repository t, im_tag t)) ?tags)" by (simp add: demo_tag_def)
  have prot: "protected_image_ids demo_docker (ga_repos demo_args) = Some [''b'', ''c'']"
    by (simp add: protected_image_ids_def demo_docker_def demo_args_def map_filter_simps)
  show ?thesis
    using out image_gc_exact [OF out tags dist, of "demo_tag ''sha-1'' ''a'' 1"] image_gc_exact [OF out tags dist, of "demo_tag ''sha-2'' ''b'' 2"]
      image_gc_exact [OF out tags dist, of "demo_tag ''sha-3'' ''c'' 3"]
    unfolding prot
    by (simp add: demo_args_def demo_tag_def is_candidate_def newer_tags_def age_key_def startswith_def) (simp add: demo_docker_def)
qed

end
