(* ===== verification/JsonFiles.thy ===== *)
theory JsonFiles
  imports Recovery
begin

text \<open>
  Small JSON documents shared between processes. A file is missing, unreadable, or a text: decoded, or
  \<open>None\<close> when it is not JSON. Reading a member that is absent, or converting a value that does not
  convert, raises in the sources; the readers here yield \<open>None\<close>.
\<close>

datatype text_file = FileMissing | FileUnreadable | FileText "json option"

text \<open>\<open>v == n\<close> of a decoded value and an int.\<close>

fun json_is_int :: "json \<Rightarrow> int \<Rightarrow> bool" where
  "json_is_int (JInt i) n = (i = n)"
| "json_is_int (JBool b) n = ((if b then 1 else 0) = n)"
| "json_is_int (JFloat x) n = (x = of_int n)"
| "json_is_int _ n = False"

text \<open>\<open>list(v)\<close>: a dict yields its keys, a string its characters.\<close>

fun json_list :: "json \<Rightarrow> json list option" where
  "json_list (JList xs) = Some xs"
| "json_list (JObj ob) = Some (map (\<lambda>(k, _). JStr k) ob)"
| "json_list (JStr s) = Some (map (\<lambda>c. JStr [c]) s)"
| "json_list _ = None"

definition item :: "json \<Rightarrow> string \<Rightarrow> json option" where
  "item j k = (case j of JObj ob \<Rightarrow> map_of ob k | _ \<Rightarrow> None)"

definition int_item :: "json \<Rightarrow> string \<Rightarrow> int option" where
  "int_item j k = Option.bind (item j k) (\<lambda>v. case int_of_json v of Inl _ \<Rightarrow> None | Inr i \<Rightarrow> Some i)"

definition str_item :: "json \<Rightarrow> string \<Rightarrow> string option" where
  "str_item j k = map_option py_str (item j k)"

fun all_some :: "'a option list \<Rightarrow> 'a list option" where
  "all_some [] = Some []"
| "all_some (x # xs) = Option.bind x (\<lambda>y. map_option (Cons y) (all_some xs))"

lemma all_some_map [simp]: "(\<And>x. x \<in> set xs \<Longrightarrow> f x = Some (g x)) \<Longrightarrow> all_some (map f xs) = Some (map g xs)"
  by (induction xs) simp_all

lemma all_some_Some: "all_some (map Some xs) = Some xs"
  by (induction xs) simp_all

end
