(* ===== verification/Candidates.thy ===== *)
theory Candidates
  imports JsonFiles Lifecycle Membership RealtimeContracts "HOL-Library.Product_Lexorder"
begin

text \<open>
  Session pools: the selection of \<open>src/universe/aftermarket.py\<close> and \<open>src/universe/premarket.py\<close> from the two
  ranking screens of a venue, and the candidate file of \<open>src/universe/ipc.py\<close> through which it reaches the
  collectors. A \<open>datetime\<close> is its fields with an optional offset (\<open>stamp\<close>); a file is missing, unreadable, or
  a text, decoded or \<open>None\<close> when it is not JSON. The rankings are what the broker client returned.
\<close>

section \<open>Snapshots\<close>

type_synonym stamp = "date \<times> time \<times> int option"

definition stamp_us :: "stamp \<Rightarrow> int" where
  "stamp_us t = (case t of (d, tod, off) \<Rightarrow> toordinal d * us_per_day + int tod - (case off of None \<Rightarrow> 0 | Some z \<Rightarrow> z))"

definition is_kst_timestamp :: "stamp \<Rightarrow> bool" where
  "is_kst_timestamp t \<longleftrightarrow> snd (snd t) = Some kst_off"

record candidate_snapshot =
  cs_schema_version :: int
  cs_rev :: int
  cs_session_date :: date
  cs_session :: string
  cs_generated_at :: stamp
  cs_source_asof :: stamp
  cs_effective_from :: stamp
  cs_policy_version :: string
  cs_capacity :: int
  cs_eligible_count :: int
  cs_selected_count :: int
  cs_candidates :: "json list"

definition rev_of :: "date \<Rightarrow> int" where
  "rev_of d = int (parse_nat (strftime_Ymd d))"

section \<open>Selection\<close>

record ranking_row =
  rr_symbol :: string
  rr_rank :: int
  rr_change_pct :: rat
  rr_trade_value_krw :: int

definition valid_rows :: "ranking_row list \<Rightarrow> bool" where
  "valid_rows rows \<longleftrightarrow> rows \<noteq> [] \<and> distinct (map rr_symbol rows) \<and> list_all (\<lambda>r. is_krx_short_code (JStr (rr_symbol r))) rows
     \<and> list_all (\<lambda>r. 1 \<le> rr_rank r \<and> 0 \<le> rr_trade_value_krw r) rows"

definition row_for :: "ranking_row list \<Rightarrow> string \<Rightarrow> ranking_row option" where
  "row_for rows symbol = find (\<lambda>r. rr_symbol r = symbol) rows"

record pool_row =
  pr_symbol :: string
  pr_limit_up :: bool
  pr_ta_rank :: "int option"
  pr_fl_rank :: "int option"
  pr_trade_value_krw :: int
  pr_change_pct :: rat

definition pool_row_of :: "ranking_row list \<Rightarrow> ranking_row list \<Rightarrow> string \<Rightarrow> pool_row" where
  "pool_row_of ta_rows fl_rows symbol =
     (let ta = row_for ta_rows symbol; fr = row_for fl_rows symbol;
          change = rr_change_pct (the (if fr \<noteq> None then fr else ta))
      in \<lparr>pr_symbol = symbol, pr_limit_up = (change \<ge> 29), pr_ta_rank = map_option rr_rank ta, pr_fl_rank = map_option rr_rank fr,
          pr_trade_value_krw = rr_trade_value_krw (the (if ta \<noteq> None then ta else fr)), pr_change_pct = change\<rparr>)"

text \<open>The sort key; a missing rank is \<open>float('inf')\<close>.\<close>

definition rank_or_inf :: "int option \<Rightarrow> nat \<times> int" where
  "rank_or_inf r = (case r of Some n \<Rightarrow> (0, n) | None \<Rightarrow> (1, 0))"

definition pool_key :: "pool_row \<Rightarrow> nat \<times> (nat \<times> int) \<times> (nat \<times> int) \<times> string" where
  "pool_key r = ((if pr_limit_up r then 0 else 1), rank_or_inf (pr_ta_rank r), rank_or_inf (pr_fl_rank r), pr_symbol r)"

definition source_ranks :: "pool_row \<Rightarrow> jobj" where
  "source_ranks r = (case pr_ta_rank r of Some n \<Rightarrow> [(''trade_amount'', JInt n)] | None \<Rightarrow> [])
     @ (case pr_fl_rank r of Some n \<Rightarrow> [(''fluctuation'', JInt n)] | None \<Rightarrow> [])"

definition pool_reasons :: "pool_row \<Rightarrow> json list" where
  "pool_reasons r = (if pr_limit_up r then [JStr ''limit_up''] else []) @ (if pr_ta_rank r \<noteq> None then [JStr ''trade_amount''] else [])
     @ (if pr_fl_rank r \<noteq> None then [JStr ''fluctuation''] else [])"

definition candidate_json :: "nat \<Rightarrow> pool_row \<Rightarrow> json" where
  "candidate_json index r = JObj [(''symbol'', JStr (pr_symbol r)), (''rank'', JInt (int index)), (''source_ranks'', JObj (source_ranks r)),
     (''metrics'', JObj [(''trade_value_krw'', JInt (pr_trade_value_krw r)), (''change_pct'', JFloat (pr_change_pct r))]),
     (''selection_reasons'', JList (pool_reasons r))]"

definition eligible_symbols :: "ranking_row list \<Rightarrow> ranking_row list \<Rightarrow> string list \<Rightarrow> string list" where
  "eligible_symbols ta_rows fl_rows excluded = filter (\<lambda>s. s \<notin> set excluded) (remdups (map rr_symbol ta_rows @ map rr_symbol fl_rows))"

definition ordered_pool :: "ranking_row list \<Rightarrow> ranking_row list \<Rightarrow> string list \<Rightarrow> pool_row list" where
  "ordered_pool ta_rows fl_rows excluded = sort_key pool_key (map (pool_row_of ta_rows fl_rows) (eligible_symbols ta_rows fl_rows excluded))"

record pool_request =
  pq_session_date :: date
  pq_generated_at :: stamp
  pq_capacity :: int
  pq_excluded :: "string list"
  pq_policy_version :: string
  pq_session :: string
  pq_effective_from :: "stamp option"

text \<open>Comparing an aware and a naive datetime raises \<open>TypeError\<close>.\<close>

definition build_aftermarket_snapshot :: "pool_request \<Rightarrow> ranking_row list \<Rightarrow> ranking_row list \<Rightarrow> candidate_snapshot result" where
  "build_aftermarket_snapshot q ta_rows fl_rows =
     (let generated_at = pq_generated_at q;
          effective = (case pq_effective_from q of None \<Rightarrow> generated_at | Some e \<Rightarrow> e) in
      if is_kst_timestamp effective \<and> snd (snd generated_at) = None then Inl (TypeError ''can't compare offset-naive and offset-aware datetimes'')
      else if \<not> is_kst_timestamp generated_at \<or> \<not> (is_kst_timestamp effective \<and> stamp_us generated_at \<le> stamp_us effective)
         \<or> pq_capacity q < 1 \<or> \<not> valid_rows ta_rows \<or> \<not> valid_rows fl_rows
      then Inl (KrxAlphaError ''invalid aftermarket source'')
      else let union = eligible_symbols ta_rows fl_rows (pq_excluded q) in
        if union = [] then Inl (KrxAlphaError ''no eligible aftermarket candidates'')
        else let selected = take (nat (pq_capacity q)) (ordered_pool ta_rows fl_rows (pq_excluded q)) in
          Inr \<lparr>cs_schema_version = 1, cs_rev = rev_of (pq_session_date q), cs_session_date = pq_session_date q, cs_session = pq_session q,
            cs_generated_at = generated_at, cs_source_asof = generated_at, cs_effective_from = effective,
            cs_policy_version = pq_policy_version q, cs_capacity = pq_capacity q, cs_eligible_count = int (length union),
            cs_selected_count = int (length selected),
            cs_candidates = map (\<lambda>(i, r). candidate_json (Suc i) r) (enumerate 0 selected)\<rparr>)"

section \<open>The candidate file\<close>

definition write_candidate_snapshot :: "candidate_snapshot \<Rightarrow> text_file" where
  "write_candidate_snapshot s = FileText (Some (JObj [(''schema_version'', JInt (cs_schema_version s)), (''rev'', JInt (cs_rev s)),
     (''session_date'', JStr (date_isoformat (cs_session_date s))), (''session'', JStr (cs_session s)),
     (''generated_at'', JStr (iso_start (cs_generated_at s))), (''source_asof'', JStr (iso_start (cs_source_asof s))),
     (''effective_from'', JStr (iso_start (cs_effective_from s))), (''policy_version'', JStr (cs_policy_version s)),
     (''capacity'', JInt (cs_capacity s)), (''eligible_count'', JInt (cs_eligible_count s)), (''selected_count'', JInt (cs_selected_count s)),
     (''candidates'', JList (cs_candidates s))]))"

definition stamp_item :: "json \<Rightarrow> string \<Rightarrow> stamp option" where
  "stamp_item j k = Option.bind (str_item j k) fromisoformat"

text \<open>The validated snapshot; every exception while reading it is \<open>None\<close>.\<close>

definition parse_snapshot :: "json \<Rightarrow> date \<Rightarrow> string \<Rightarrow> int \<Rightarrow> candidate_snapshot option" where
  "parse_snapshot data expected_date expected_session max_candidates =
     Option.bind (item data ''schema_version'') (\<lambda>schema_version. Option.bind (item data ''rev'') (\<lambda>rev.
     Option.bind (Option.bind (str_item data ''session_date'') date_fromisoformat) (\<lambda>session_date. Option.bind (str_item data ''session'') (\<lambda>session.
     Option.bind (stamp_item data ''generated_at'') (\<lambda>generated_at. Option.bind (stamp_item data ''source_asof'') (\<lambda>source_asof.
     Option.bind (stamp_item data ''effective_from'') (\<lambda>effective_from. Option.bind (str_item data ''policy_version'') (\<lambda>policy_version.
     Option.bind (int_item data ''capacity'') (\<lambda>capacity. Option.bind (int_item data ''eligible_count'') (\<lambda>eligible_count.
     Option.bind (int_item data ''selected_count'') (\<lambda>selected_count. Option.bind (Option.bind (item data ''candidates'') json_list) (\<lambda>rows.
     Option.bind (all_some (map (\<lambda>row. str_item row ''symbol'') rows)) (\<lambda>symbols. Option.bind (all_some (map (\<lambda>row. int_item row ''rank'') rows)) (\<lambda>ranks.
       if \<not> json_is_int schema_version 1 \<or> session_date \<noteq> expected_date \<or> session \<noteq> expected_session \<or> \<not> json_is_int rev (rev_of session_date)
         \<or> \<not> list_all is_kst_timestamp [source_asof, generated_at, effective_from]
         \<or> \<not> (stamp_us source_asof \<le> stamp_us generated_at \<and> stamp_us generated_at \<le> stamp_us effective_from)
         \<or> capacity < 1 \<or> selected_count \<noteq> int (length rows) \<or> eligible_count < selected_count \<or> max_candidates < 1
         \<or> \<not> distinct symbols \<or> \<not> list_all (\<lambda>s. is_krx_short_code (JStr s)) symbols \<or> sort ranks \<noteq> map int [1..<Suc (length rows)]
       then None
       else let kept = (if int (length rows) > max_candidates then take (nat max_candidates) (sort_key (\<lambda>row. the (int_item row ''rank'')) rows) else rows) in
         Some \<lparr>cs_schema_version = 1, cs_rev = rev_of session_date, cs_session_date = session_date, cs_session = session,
           cs_generated_at = generated_at, cs_source_asof = source_asof, cs_effective_from = effective_from, cs_policy_version = policy_version,
           cs_capacity = capacity, cs_eligible_count = eligible_count,
           cs_selected_count = (if int (length rows) > max_candidates then int (length kept) else selected_count), cs_candidates = kept\<rparr>))))))))))))))"

definition read_candidate_snapshot :: "text_file \<Rightarrow> date \<Rightarrow> string \<Rightarrow> int \<Rightarrow> candidate_snapshot result" where
  "read_candidate_snapshot f expected_date expected_session max_candidates = (case f of
       FileMissing \<Rightarrow> Inl (KrxAlphaError ''missing candidate snapshot'')
     | FileText (Some data) \<Rightarrow> (case parse_snapshot data expected_date expected_session max_candidates of
         None \<Rightarrow> Inl (KrxAlphaError ''corrupt candidate snapshot'') | Some s \<Rightarrow> Inr s)
     | _ \<Rightarrow> Inl (KrxAlphaError ''corrupt candidate snapshot''))"

text \<open>The scanner's own candidates file.\<close>

definition write_candidates :: "json list \<Rightarrow> int \<Rightarrow> string list \<Rightarrow> text_file" where
  "write_candidates candidates rv dropped = FileText (Some (JObj [(''rev'', JInt rv), (''candidates'', JList candidates),
     (''dropped_count'', JInt (int (length dropped))), (''dropped_symbols'', JList (map JStr dropped))]))"

definition read_candidates :: "text_file \<Rightarrow> json option result" where
  "read_candidates f = (case f of FileMissing \<Rightarrow> Inr None | FileText (Some j) \<Rightarrow> Inr (Some j)
     | _ \<Rightarrow> Inl (KrxAlphaError ''corrupt candidates file''))"

definition emit_entry :: "jobj \<Rightarrow> json result" where
  "emit_entry row = rbind (raw_item row ''symbol'') (\<lambda>s. rbind (raw_item row ''selection_reasons'') (\<lambda>v.
     case json_list v of None \<Rightarrow> Inl (TypeError ''object is not iterable'')
     | Some reasons \<Rightarrow> Inr (JObj ([(''symbol'', JStr (py_str s)), (''selection_reasons'', JList reasons)]
         @ List.map_filter (\<lambda>k. map_option (Pair k) (map_of row k)) [''tier'', ''core_rank'', ''direction'', ''warning_level'']))))"

definition emit_candidates :: "jobj list \<Rightarrow> int \<Rightarrow> string list \<Rightarrow> text_file \<Rightarrow> int result \<times> text_file" where
  "emit_candidates rows rv dropped f = (case rmap emit_entry rows of
       Inl e \<Rightarrow> (Inl e, f)
     | Inr mapped \<Rightarrow> (Inr (int (length mapped)), write_candidates mapped rv dropped))"

section \<open>Refreshing a pool\<close>

fun venue_binding :: "market_venue \<Rightarrow> (string \<times> string \<times> string) option" where
  "venue_binding KRX = Some (''J'', ''aftermarket'', ''aftermarket_v1'')"
| "venue_binding NXT = Some (''NX'', ''aftermarket_nxt'', ''aftermarket_nxt_v1'')"
| "venue_binding VENUE_UNKNOWN = None"

definition aftermarket_candidate_session :: "market_venue \<Rightarrow> string result" where
  "aftermarket_candidate_session venue = (case venue_binding venue of
       None \<Rightarrow> Inl (ValueError ''unknown aftermarket venue'') | Some (_, session, _) \<Rightarrow> Inr session)"

text \<open>\<open>rank_ta\<close> and \<open>rank_fl\<close> answer the ranking requests of the client for a market division.\<close>

definition refresh_aftermarket_candidates :: "date \<Rightarrow> stamp \<Rightarrow> (string \<Rightarrow> ranking_row list result) \<Rightarrow> (string \<Rightarrow> ranking_row list result)
    \<Rightarrow> int \<Rightarrow> market_venue \<Rightarrow> string list \<Rightarrow> text_file \<Rightarrow> candidate_snapshot result \<times> text_file" where
  "refresh_aftermarket_candidates session_date generated_at rank_ta rank_fl capacity venue excluded f = (case venue_binding venue of
       None \<Rightarrow> (Inl (ValueError ''unknown aftermarket venue''), f)
     | Some (market_div, session, policy) \<Rightarrow>
         (case rbind (rank_ta market_div) (\<lambda>ta. rbind (rank_fl market_div) (\<lambda>fr.
            build_aftermarket_snapshot \<lparr>pq_session_date = session_date, pq_generated_at = generated_at, pq_capacity = capacity, pq_excluded = excluded,
              pq_policy_version = policy, pq_session = session, pq_effective_from = None\<rparr> ta fr)) of
            Inl e \<Rightarrow> (Inl e, f)
          | Inr s \<Rightarrow> (Inr s, write_candidate_snapshot s)))"

definition date_before :: "date \<Rightarrow> date \<Rightarrow> bool" where
  "date_before a b \<longleftrightarrow> toordinal a < toordinal b"

definition refresh_premarket_pool :: "date \<Rightarrow> stamp \<Rightarrow> stamp \<Rightarrow> (string \<Rightarrow> ranking_row list result) \<Rightarrow> (string \<Rightarrow> ranking_row list result)
    \<Rightarrow> int \<Rightarrow> string list \<Rightarrow> text_file \<Rightarrow> candidate_snapshot result \<times> text_file" where
  "refresh_premarket_pool target_date generated_at effective_from rank_ta rank_fl capacity excluded f =
     (if snd (snd generated_at) = None \<or> \<not> date_before (fst generated_at) target_date
      then (Inl (KrxAlphaError ''premarket pool must be generated before the target date''), f)
      else if snd (snd effective_from) = None \<or> fst effective_from \<noteq> target_date
      then (Inl (KrxAlphaError ''premarket effective_from must fall on the target date''), f)
      else case rbind (rank_ta ''NX'') (\<lambda>ta. rbind (rank_fl ''NX'') (\<lambda>fr.
            build_aftermarket_snapshot \<lparr>pq_session_date = target_date, pq_generated_at = generated_at, pq_capacity = capacity, pq_excluded = excluded,
              pq_policy_version = ''premarket_v1'', pq_session = ''premarket'', pq_effective_from = Some effective_from\<rparr> ta fr)) of
          Inl e \<Rightarrow> (Inl e, f)
        | Inr s \<Rightarrow> (Inr s, write_candidate_snapshot s))"

definition premarket_pool_ready :: "text_file \<Rightarrow> date \<Rightarrow> int \<Rightarrow> bool" where
  "premarket_pool_ready f target_date max_candidates =
     (case read_candidate_snapshot f target_date ''premarket'' max_candidates of Inl _ \<Rightarrow> False | Inr _ \<Rightarrow> True)"

section \<open>What is written is accepted\<close>

lemma stamp_read_back: "wf_start t \<Longrightarrow> fromisoformat (iso_start t) = Some t"
  by (rule start_read_back)

definition sound_snapshot :: "candidate_snapshot \<Rightarrow> string list \<Rightarrow> bool" where
  "sound_snapshot s symbols \<longleftrightarrow> cs_schema_version s = 1 \<and> cs_rev s = rev_of (cs_session_date s) \<and> valid_date (cs_session_date s)
     \<and> wf_start (cs_source_asof s) \<and> wf_start (cs_generated_at s) \<and> wf_start (cs_effective_from s)
     \<and> is_kst_timestamp (cs_source_asof s) \<and> is_kst_timestamp (cs_generated_at s) \<and> is_kst_timestamp (cs_effective_from s)
     \<and> stamp_us (cs_source_asof s) \<le> stamp_us (cs_generated_at s) \<and> stamp_us (cs_generated_at s) \<le> stamp_us (cs_effective_from s)
     \<and> 1 \<le> cs_capacity s \<and> cs_selected_count s = int (length (cs_candidates s)) \<and> cs_selected_count s \<le> cs_eligible_count s
     \<and> map (\<lambda>row. str_item row ''symbol'') (cs_candidates s) = map Some symbols
     \<and> map (\<lambda>row. int_item row ''rank'') (cs_candidates s) = map (Some \<circ> int) [1..<Suc (length symbols)]
     \<and> distinct symbols \<and> list_all (\<lambda>x. is_krx_short_code (JStr x)) symbols"

lemma sort_ranks: "sort (map int [1..<Suc n]) = map int [1..<Suc n]"
  by (rule sort_key_id_if_sorted) (simp add: sorted_map del: upt_Suc)

lemma ranked_rows_sorted:
  assumes "map (\<lambda>row. int_item row ''rank'') rows = map (Some \<circ> int) [1..<Suc n]"
  shows "sort_key (\<lambda>row. the (int_item row ''rank'')) rows = rows"
proof -
  have "map (\<lambda>row. the (int_item row ''rank'')) rows = map the (map (\<lambda>row. int_item row ''rank'') rows)" by simp
  also have "\<dots> = map int [1..<Suc n]" unfolding assms by simp
  finally have "sorted (map (\<lambda>row. the (int_item row ''rank'')) rows)" by (simp add: sorted_map del: upt_Suc)
  then show ?thesis by (rule sort_key_id_if_sorted)
qed

lemma sound_snapshot_read:
  assumes "sound_snapshot s symbols" "1 \<le> m"
  shows "read_candidate_snapshot (write_candidate_snapshot s) (cs_session_date s) (cs_session s) m
    = Inr (s\<lparr>cs_candidates := take (nat m) (cs_candidates s), cs_selected_count := min m (cs_selected_count s)\<rparr>)"
proof -
  let ?rows = "cs_candidates s" and ?n = "length symbols"
  note h = assms(1) [unfolded sound_snapshot_def]
  have len: "length ?rows = ?n" using h by (metis length_map)
  have syms: "all_some (map (\<lambda>row. str_item row ''symbol'') ?rows) = Some symbols" using h all_some_Some by metis
  have ranks: "all_some (map (\<lambda>row. int_item row ''rank'') ?rows) = Some (map int [1..<Suc ?n])"
    using h all_some_Some [of "map int [1..<Suc ?n]"] by (simp add: comp_def)
  have sorted: "sort_key (\<lambda>row. the (int_item row ''rank'')) ?rows = ?rows"
    by (rule ranked_rows_sorted [of _ ?n]) (use h in blast)
  have stamps: "fromisoformat (iso_start (cs_generated_at s)) = Some (cs_generated_at s)"
    "fromisoformat (iso_start (cs_source_asof s)) = Some (cs_source_asof s)"
    "fromisoformat (iso_start (cs_effective_from s)) = Some (cs_effective_from s)" using h by (simp_all add: stamp_read_back)
  have short: "take (nat m) ?rows = ?rows" "min m (int ?n) = int ?n" if "\<not> int ?n > m" using that len by simp_all
  have long: "int (length (take (nat m) ?rows)) = m" "min m (int ?n) = m" if "int ?n > m" using that len assms(2) by simp_all
  show ?thesis
    using h syms ranks sorted stamps assms(2) len sort_ranks [of ?n] date_fromisoformat_show [of "cs_session_date s"] short long
    by (cases s) (simp add: read_candidate_snapshot_def write_candidate_snapshot_def parse_snapshot_def item_def str_item_def stamp_item_def
        int_item_def Let_def del: upt_Suc split: if_split)
qed

section \<open>The selected pool\<close>

definition selected_symbols :: "candidate_snapshot \<Rightarrow> string list" where
  "selected_symbols s = List.map_filter (\<lambda>row. str_item row ''symbol'') (cs_candidates s)"

lemma eligible_distinct: "distinct (eligible_symbols ta fr excl)"
  by (simp add: eligible_symbols_def)

lemma eligible_iff: "x \<in> set (eligible_symbols ta fr excl) \<longleftrightarrow> (x \<in> rr_symbol ` set ta \<or> x \<in> rr_symbol ` set fr) \<and> x \<notin> set excl"
  by (auto simp: eligible_symbols_def)

lemma pool_row_symbol [simp]: "pr_symbol (pool_row_of ta fr x) = x"
  by (simp add: pool_row_of_def Let_def)

lemma ordered_pool_symbols:
  "distinct (map pr_symbol (ordered_pool ta fr excl))" "set (ordered_pool ta fr excl) = pool_row_of ta fr ` set (eligible_symbols ta fr excl)"
  "length (ordered_pool ta fr excl) = length (eligible_symbols ta fr excl)" "sorted (map pool_key (ordered_pool ta fr excl))"
proof -
  show "set (ordered_pool ta fr excl) = pool_row_of ta fr ` set (eligible_symbols ta fr excl)" "length (ordered_pool ta fr excl) = length (eligible_symbols ta fr excl)"
    "sorted (map pool_key (ordered_pool ta fr excl))"
    by (simp_all add: ordered_pool_def)
  have "distinct (map (pool_row_of ta fr) (eligible_symbols ta fr excl))"
    using eligible_distinct by (simp add: distinct_map inj_on_def) (metis pool_row_symbol)
  then have "distinct (ordered_pool ta fr excl)" by (simp add: ordered_pool_def)
  moreover have "inj_on pr_symbol (set (ordered_pool ta fr excl))" by (auto simp: ordered_pool_def inj_on_def)
  ultimately show "distinct (map pr_symbol (ordered_pool ta fr excl))" by (simp add: distinct_map)
qed

lemma candidate_items:
  "str_item (candidate_json i r) ''symbol'' = Some (pr_symbol r)" "int_item (candidate_json i r) ''rank'' = Some (int i)"
  by (simp_all add: candidate_json_def str_item_def int_item_def item_def)

lemma built_rows:
  fixes sel :: "pool_row list"
  defines "rows \<equiv> map (\<lambda>(i, r). candidate_json (Suc i) r) (enumerate 0 sel)"
  shows "length rows = length sel" "map (\<lambda>row. str_item row ''symbol'') rows = map (Some \<circ> pr_symbol) sel"
    "map (\<lambda>row. int_item row ''rank'') rows = map (Some \<circ> int) [1..<Suc (length sel)]"
    "List.map_filter (\<lambda>row. str_item row ''symbol'') rows = map pr_symbol sel"
proof -
  show "length rows = length sel" "map (\<lambda>row. str_item row ''symbol'') rows = map (Some \<circ> pr_symbol) sel"
    by (auto simp: rows_def intro!: nth_equalityI simp: candidate_items nth_enumerate_eq)
  show "map (\<lambda>row. int_item row ''rank'') rows = map (Some \<circ> int) [1..<Suc (length sel)]"
    by (rule nth_equalityI) (auto simp: rows_def candidate_items nth_enumerate_eq simp del: upt_Suc)
  show "List.map_filter (\<lambda>row. str_item row ''symbol'') rows = map pr_symbol sel"
    by (rule nth_equalityI) (auto simp: rows_def map_filter_def candidate_items nth_enumerate_eq case_prod_beta comp_def filter_True)
qed

lemma valid_row_codes: "valid_rows rows \<Longrightarrow> x \<in> rr_symbol ` set rows \<Longrightarrow> is_krx_short_code (JStr x)"
  by (auto simp: valid_rows_def list_all_iff)

lemma built_snapshot:
  assumes "build_aftermarket_snapshot q ta fr = Inr s"
  defines "sel \<equiv> take (nat (pq_capacity q)) (ordered_pool ta fr (pq_excluded q))"
  shows "cs_candidates s = map (\<lambda>(i, r). candidate_json (Suc i) r) (enumerate 0 sel)" "cs_session_date s = pq_session_date q" "cs_session s = pq_session q"
    "cs_eligible_count s = int (length (eligible_symbols ta fr (pq_excluded q)))" "valid_rows ta" "valid_rows fr" "1 \<le> pq_capacity q"
    "valid_date (pq_session_date q) \<Longrightarrow> wf_start (pq_generated_at q) \<Longrightarrow> wf_start (case pq_effective_from q of None \<Rightarrow> pq_generated_at q | Some e \<Rightarrow> e)
      \<Longrightarrow> sound_snapshot s (map pr_symbol sel)"
proof -
  show rows: "cs_candidates s = map (\<lambda>(i, r). candidate_json (Suc i) r) (enumerate 0 sel)" "cs_session_date s = pq_session_date q" "cs_session s = pq_session q"
    "cs_eligible_count s = int (length (eligible_symbols ta fr (pq_excluded q)))" and v: "valid_rows ta" "valid_rows fr" "1 \<le> pq_capacity q"
    using assms(1) by (auto simp: build_aftermarket_snapshot_def Let_def sel_def split: if_splits)
  let ?eff = "case pq_effective_from q of None \<Rightarrow> pq_generated_at q | Some e \<Rightarrow> e"
  have head: "cs_schema_version s = 1" "cs_rev s = rev_of (pq_session_date q)" "cs_source_asof s = pq_generated_at q"
    "cs_generated_at s = pq_generated_at q" "cs_effective_from s = ?eff" "cs_capacity s = pq_capacity q" "cs_selected_count s = int (length sel)"
    "is_kst_timestamp (pq_generated_at q)" "is_kst_timestamp ?eff" "stamp_us (pq_generated_at q) \<le> stamp_us ?eff"
    using assms(1) by (auto simp: build_aftermarket_snapshot_def Let_def sel_def split: if_splits)
  have "is_krx_short_code (JStr (pr_symbol r))" if "r \<in> set sel" for r
  proof -
    have "r \<in> set (ordered_pool ta fr (pq_excluded q))" using that unfolding sel_def by (rule in_set_takeD)
    then obtain x where x: "x \<in> set (eligible_symbols ta fr (pq_excluded q))" "r = pool_row_of ta fr x"
      unfolding ordered_pool_symbols(2) by (rule imageE)
    from x(1) have "x \<in> rr_symbol ` set ta \<or> x \<in> rr_symbol ` set fr" unfolding eligible_iff by (rule conjunct1)
    then have "is_krx_short_code (JStr x)" using valid_row_codes [OF v(1), of x] valid_row_codes [OF v(2), of x] by (rule disjE)
    then show ?thesis by (simp only: x(2) pool_row_symbol)
  qed
  then have codes: "list_all (\<lambda>x. is_krx_short_code (JStr x)) (map pr_symbol sel)" by (simp add: list_all_iff)
  have dist: "distinct (map pr_symbol sel)" using ordered_pool_symbols(1) by (simp add: sel_def take_map [symmetric] distinct_take)
  have len: "length sel \<le> length (eligible_symbols ta fr (pq_excluded q))" by (simp add: sel_def ordered_pool_symbols)
  assume "valid_date (pq_session_date q)" "wf_start (pq_generated_at q)" "wf_start (case pq_effective_from q of None \<Rightarrow> pq_generated_at q | Some e \<Rightarrow> e)"
  then show "sound_snapshot s (map pr_symbol sel)"
    using codes dist len built_rows(1-3) [of sel] v(3)
    by (simp add: sound_snapshot_def rows head comp_def del: upt_Suc)
qed

text \<open>The taken prefix of a sorted list is below the rest.\<close>

lemma take_below_drop:
  assumes "sorted (map key xs)" "x \<in> set (take n xs)" "y \<in> set xs" "y \<notin> set (take n xs)"
  shows "key x \<le> (key y :: 'k::linorder)"
proof -
  have "y \<in> set (drop n xs)" using assms(3,4) by (metis Un_iff append_take_drop_id set_append)
  moreover have "sorted (map key (take n xs) @ map key (drop n xs))" using assms(1) by (metis append_take_drop_id map_append)
  ultimately show ?thesis using assms(2) by (auto simp: sorted_append)
qed

text \<open>
  C40. A session pool reaches its collector: whatever the two rankings were, a pool the selection accepted is
  read back by the collector, cut to its own capacity by rank; the pool holds as many eligible symbols as
  fit, none of them excluded, and none of those left out precedes a chosen one in the order of limit-up,
  trade-amount rank, fluctuation rank and symbol.
\<close>

theorem pool_reaches_collector:
  assumes "build_aftermarket_snapshot q ta fr = Inr s" "valid_date (pq_session_date q)" "wf_start (pq_generated_at q)"
    and "wf_start (case pq_effective_from q of None \<Rightarrow> pq_generated_at q | Some e \<Rightarrow> e)" "1 \<le> m"
  shows "read_candidate_snapshot (write_candidate_snapshot s) (pq_session_date q) (pq_session q) m
      = Inr (s\<lparr>cs_candidates := take (nat m) (cs_candidates s), cs_selected_count := min m (cs_selected_count s)\<rparr>)
    \<and> int (length (selected_symbols s)) = min (pq_capacity q) (int (length (eligible_symbols ta fr (pq_excluded q))))
    \<and> set (selected_symbols s) \<subseteq> set (eligible_symbols ta fr (pq_excluded q))
    \<and> (\<forall>x \<in> set (selected_symbols s). \<forall>y \<in> set (eligible_symbols ta fr (pq_excluded q)) - set (selected_symbols s).
         pool_key (pool_row_of ta fr x) \<le> pool_key (pool_row_of ta fr y))"
proof -
  let ?pool = "ordered_pool ta fr (pq_excluded q)" and ?n = "nat (pq_capacity q)"
  note b = built_snapshot [OF assms(1)]
  have sel: "selected_symbols s = map pr_symbol (take ?n ?pool)" using b(1) built_rows(4) by (simp add: selected_symbols_def)
  have read: "read_candidate_snapshot (write_candidate_snapshot s) (pq_session_date q) (pq_session q) m
      = Inr (s\<lparr>cs_candidates := take (nat m) (cs_candidates s), cs_selected_count := min m (cs_selected_count s)\<rparr>)"
    using sound_snapshot_read [OF b(8) [OF assms(2,3,4)] assms(5)] by (simp add: b(2,3))
  have member: "x \<in> set (eligible_symbols ta fr (pq_excluded q)) \<longleftrightarrow> pool_row_of ta fr x \<in> set ?pool" for x
    by (auto simp: ordered_pool_symbols) (metis pool_row_symbol)
  have row: "r = pool_row_of ta fr (pr_symbol r)" if "r \<in> set ?pool" for r using that by (auto simp: ordered_pool_symbols)
  have chosen: "x \<in> set (selected_symbols s) \<longleftrightarrow> pool_row_of ta fr x \<in> set (take ?n ?pool)" for x
  proof
    assume "x \<in> set (selected_symbols s)"
    then obtain r where r: "x = pr_symbol r" "r \<in> set (take ?n ?pool)" unfolding sel set_map by (rule imageE)
    from row [OF in_set_takeD [OF r(2)]] r(2) show "pool_row_of ta fr x \<in> set (take ?n ?pool)" unfolding r(1) by (rule subst)
  next
    assume "pool_row_of ta fr x \<in> set (take ?n ?pool)"
    then have "pr_symbol (pool_row_of ta fr x) \<in> pr_symbol ` set (take ?n ?pool)" by (rule imageI)
    then show "x \<in> set (selected_symbols s)" by (simp only: sel set_map pool_row_symbol)
  qed
  have "pool_key (pool_row_of ta fr x) \<le> pool_key (pool_row_of ta fr y)"
    if "x \<in> set (selected_symbols s)" "y \<in> set (eligible_symbols ta fr (pq_excluded q)) - set (selected_symbols s)" for x y
    using take_below_drop [OF ordered_pool_symbols(4), of "pool_row_of ta fr x" ?n ta fr "pq_excluded q" "pool_row_of ta fr y"] that
    by (simp add: chosen member)
  moreover have "int (length (selected_symbols s)) = min (pq_capacity q) (int (length (eligible_symbols ta fr (pq_excluded q))))"
    using b(7) by (simp add: sel ordered_pool_symbols min_def) linarith
  moreover have "set (selected_symbols s) \<subseteq> set (eligible_symbols ta fr (pq_excluded q))"
    unfolding subset_iff chosen member by (blast intro: in_set_takeD)
  ultimately show ?thesis using read by blast
qed

definition demo_ranking :: "string \<Rightarrow> int \<Rightarrow> rat \<Rightarrow> ranking_row" where
  "demo_ranking symbol place change = \<lparr>rr_symbol = symbol, rr_rank = place, rr_change_pct = change, rr_trade_value_krw = 100\<rparr>"

definition demo_request :: pool_request where
  "demo_request = \<lparr>pq_session_date = \<lparr>d_year = 2026, d_month = 3, d_day = 3\<rparr>,
     pq_generated_at = (\<lparr>d_year = 2026, d_month = 3, d_day = 3\<rparr>, 0, Some kst_off), pq_capacity = 1, pq_excluded = [],
     pq_policy_version = ''aftermarket_v1'', pq_session = ''aftermarket'', pq_effective_from = None\<rparr>"

theorem pool_reaches_collector_witness:
  "let ta = [demo_ranking ''005930'' 1 2]; fr = [demo_ranking ''000660'' 1 30] in
   \<exists>s. build_aftermarket_snapshot demo_request ta fr = Inr s
     \<and> (\<exists>s'. read_candidate_snapshot (write_candidate_snapshot s) (pq_session_date demo_request) (pq_session demo_request) 5 = Inr s')
     \<and> length (selected_symbols s) = 1"
proof -
  let ?ta = "[demo_ranking ''005930'' 1 2]" and ?fr = "[demo_ranking ''000660'' 1 30]"
  have el: "eligible_symbols ?ta ?fr (pq_excluded demo_request) = [''005930'', ''000660'']"
    by (simp add: eligible_symbols_def demo_ranking_def demo_request_def)
  have v: "valid_rows ?ta" "valid_rows ?fr"
    by (simp_all add: valid_rows_def demo_ranking_def is_krx_short_code_def is_digit_def)
  have q: "is_kst_timestamp (pq_generated_at demo_request)" "snd (snd (pq_generated_at demo_request)) = Some kst_off"
    "pq_effective_from demo_request = None" "pq_capacity demo_request = 1"
    by (simp_all add: demo_request_def is_kst_timestamp_def)
  have "\<exists>s. build_aftermarket_snapshot demo_request ?ta ?fr = Inr s" by (simp add: build_aftermarket_snapshot_def Let_def v el q)
  then obtain s where s: "build_aftermarket_snapshot demo_request ?ta ?fr = Inr s" by blast
  have d: "valid_date (pq_session_date demo_request)" by (simp add: demo_request_def valid_date_def days_in_month_def)
  have w: "wf_start (pq_generated_at demo_request)"
    by (simp add: demo_request_def wf_start_def valid_date_def days_in_month_def kst_off_def)
  then have w': "wf_start (case pq_effective_from demo_request of None \<Rightarrow> pq_generated_at demo_request | Some e \<Rightarrow> e)"
    by (simp add: demo_request_def)
  from pool_reaches_collector [OF s d w w', of 5] s show ?thesis unfolding Let_def by (simp add: el q)
qed

end
