(* ===== verification/WsLease.thy ===== *)
theory WsLease
  imports JsonFiles Pacing
begin

text \<open>
  The connection-slot ledger of \<open>src/realtime/ws_lease.py\<close>: collector processes of one credential share a file
  that lists who holds a connection, and every call is one read-modify-write of it under a lock. The
  environment of a call holds what it reads from outside: whether the lock and the writes succeed, the clock
  readings and the fresh token. A run is any sequence of calls, of whichever processes.
\<close>

section \<open>Entries and their file\<close>

datatype lease_role = PRIMARY | STANDBY

fun lease_role_value :: "lease_role \<Rightarrow> string" where
  "lease_role_value PRIMARY = ''primary''"
| "lease_role_value STANDBY = ''standby''"

definition lease_role_of :: "string \<Rightarrow> lease_role option" where
  "lease_role_of s = find (\<lambda>r. lease_role_value r = s) [PRIMARY, STANDBY]"

record lease =
  ls_vendor :: string
  ls_key_id :: string
  ls_owner :: string
  ls_role :: lease_role
  ls_token :: string
  ls_expires_ns :: int

record lease_entry =
  le_owner :: string
  le_role :: lease_role
  le_token :: string
  le_expires_ns :: int
  le_granted_ns :: int
  le_preempt :: bool

datatype lease_unavailable = LeaseUnavailable string

type_synonym 'a leased = "lease_unavailable + 'a"

record lease_ledger =
  wl_vendor :: string
  wl_key_id :: string
  wl_cap :: int
  wl_ttl_ns :: int

definition new_lease_ledger :: "string \<Rightarrow> string \<Rightarrow> int \<Rightarrow> rat \<Rightarrow> lease_ledger result" where
  "new_lease_ledger vendor key_id max_connections ttl_s =
     (if vendor = [] \<or> \<not> list_all name_char vendor \<or> key_id = [] \<or> \<not> list_all name_char key_id
      then Inl (ValueError ''vendor and key_id must match [A-Za-z0-9_-]+'')
      else let x = fl (ttl_s * 1000000000); ttl_ns = (if 0 \<le> x then \<lfloor>x\<rfloor> else \<lceil>x\<rceil>) in
        if max_connections < 1 \<or> ttl_ns \<le> 0 then Inl (ValueError ''max_connections must be >= 1 and ttl_s must be a positive duration'')
        else Inr \<lparr>wl_vendor = vendor, wl_key_id = key_id, wl_cap = max_connections, wl_ttl_ns = ttl_ns\<rparr>)"

definition entry_json :: "lease_entry \<Rightarrow> json" where
  "entry_json e = JObj [(''expires_ns'', JInt (le_expires_ns e)), (''granted_ns'', JInt (le_granted_ns e)), (''owner'', JStr (le_owner e)),
     (''preempt'', JBool (le_preempt e)), (''role'', JStr (lease_role_value (le_role e))), (''token'', JStr (le_token e))]"

definition parse_entry :: "json \<Rightarrow> lease_entry option" where
  "parse_entry j = (case j of
       JObj ob \<Rightarrow>
         (case (jget ob ''owner'', jget ob ''role'', jget ob ''token'', jget ob ''preempt'', jget ob ''expires_ns'', jget ob ''granted_ns'') of
            (JStr owner, JStr role, JStr token, JBool preempt, JInt expires, JInt granted) \<Rightarrow>
              map_option (\<lambda>r. \<lparr>le_owner = owner, le_role = r, le_token = token, le_expires_ns = expires, le_granted_ns = granted, le_preempt = preempt\<rparr>)
                (lease_role_of role)
          | _ \<Rightarrow> None)
     | _ \<Rightarrow> None)"

definition parse_entries :: "json \<Rightarrow> lease_entry list option" where
  "parse_entries payload = (case payload of
       JObj ob \<Rightarrow>
         if \<not> json_is_int (jget ob ''schema_version'') 1 then None
         else (case jget ob ''leases'' of JList items \<Rightarrow> all_some (map parse_entry items) | _ \<Rightarrow> None)
     | _ \<Rightarrow> None)"

definition parse_blocked_until :: "json \<Rightarrow> int option" where
  "parse_blocked_until payload = (case payload of
       JObj ob \<Rightarrow> (case map_of ob ''standby_blocked_until_ns'' of None \<Rightarrow> Some 0 | Some (JInt i) \<Rightarrow> Some i | _ \<Rightarrow> None)
     | _ \<Rightarrow> None)"

definition parse_ledger :: "json \<Rightarrow> (lease_entry list \<times> int) option" where
  "parse_ledger payload = Option.bind (parse_entries payload) (\<lambda>es. map_option (Pair es) (parse_blocked_until payload))"

record lease_env =
  wv_lock_ok :: bool
  wv_now :: int
  wv_now_corrupt :: int
  wv_now_store :: int
  wv_token :: string
  wv_rename_ok :: bool
  wv_write_ok :: bool

definition ledger_json :: "lease_entry list \<Rightarrow> int \<Rightarrow> int \<Rightarrow> json" where
  "ledger_json es blocked now = JObj ([(''leases'', JList (map entry_json es)), (''schema_version'', JInt 1)]
     @ (if blocked > now then [(''standby_blocked_until_ns'', JInt blocked)] else []))"

definition store_ledger :: "lease_env \<Rightarrow> lease_entry list \<Rightarrow> int \<Rightarrow> text_file \<Rightarrow> unit leased \<times> text_file" where
  "store_ledger env es blocked f =
     (if wv_write_ok env then (Inr (), FileText (Some (ledger_json es blocked (wv_now_store env))))
      else (Inl (LeaseUnavailable ''ledger_unwritable''), f))"

text \<open>A corrupt ledger is moved away and replaced by an empty one that bars standbys for one lifetime.\<close>

definition quarantine_ledger :: "lease_ledger \<Rightarrow> lease_env \<Rightarrow> text_file \<Rightarrow> text_file" where
  "quarantine_ledger c env f = snd (store_ledger env [] (wv_now_corrupt env + wl_ttl_ns c) (if wv_rename_ok env then FileMissing else f))"

definition load_ledger :: "lease_ledger \<Rightarrow> lease_env \<Rightarrow> text_file \<Rightarrow> (lease_entry list \<times> int) leased \<times> text_file" where
  "load_ledger c env f = (case f of
       FileMissing \<Rightarrow> (Inr ([], 0), f)
     | FileUnreadable \<Rightarrow> (Inl (LeaseUnavailable ''ledger_unavailable''), f)
     | FileText doc \<Rightarrow> (case Option.bind doc parse_ledger of
         None \<Rightarrow> (Inl (LeaseUnavailable ''ledger_corrupt''), quarantine_ledger c env f)
       | Some r \<Rightarrow> (Inr r, f)))"

definition drop_expired :: "lease_entry list \<Rightarrow> int \<Rightarrow> lease_entry list" where
  "drop_expired es now = filter (\<lambda>e. le_expires_ns e > now) es"

definition lease_of :: "lease_ledger \<Rightarrow> lease_entry \<Rightarrow> lease" where
  "lease_of c e = \<lparr>ls_vendor = wl_vendor c, ls_key_id = wl_key_id c, ls_owner = le_owner e, ls_role = le_role e,
     ls_token = le_token e, ls_expires_ns = le_expires_ns e\<rparr>"

text \<open>A change of, or the removal of, the first entry that satisfies a condition.\<close>

fun update_first :: "(lease_entry \<Rightarrow> bool) \<Rightarrow> (lease_entry \<Rightarrow> lease_entry) \<Rightarrow> lease_entry list \<Rightarrow> lease_entry list" where
  "update_first p u [] = []"
| "update_first p u (e # es) = (if p e then u e # es else e # update_first p u es)"

fun remove_first :: "(lease_entry \<Rightarrow> bool) \<Rightarrow> lease_entry list \<Rightarrow> lease_entry list" where
  "remove_first p [] = []"
| "remove_first p (e # es) = (if p e then es else e # remove_first p es)"

section \<open>Calls\<close>

text \<open>Every call: lock, load, drop what expired, then \<open>act\<close> yields the answer and the entries to store.\<close>

definition with_ledger :: "lease_ledger \<Rightarrow> lease_env \<Rightarrow> (lease_entry list \<Rightarrow> int \<Rightarrow> 'a leased \<times> lease_entry list) \<Rightarrow> text_file \<Rightarrow> 'a leased \<times> text_file" where
  "with_ledger c env act f =
     (if \<not> wv_lock_ok env then (Inl (LeaseUnavailable ''ledger_unavailable''), f)
      else case load_ledger c env f of
          (Inl e, f') \<Rightarrow> (Inl e, f')
        | (Inr (es, blocked), f') \<Rightarrow>
            (case act (drop_expired es (wv_now env)) blocked of (r, es') \<Rightarrow>
              (case store_ledger env es' blocked f' of (Inl e, f'') \<Rightarrow> (Inl e, f'') | (Inr _, f'') \<Rightarrow> (r, f''))))"

definition oldest_standby :: "lease_entry list \<Rightarrow> lease_entry \<Rightarrow> bool" where
  "oldest_standby es e \<longleftrightarrow> le_role e = STANDBY \<and> le_granted_ns e = Min (set (map le_granted_ns (filter (\<lambda>x. le_role x = STANDBY) es)))"

definition acquire_act :: "lease_ledger \<Rightarrow> lease_env \<Rightarrow> string \<Rightarrow> lease_role \<Rightarrow> lease_entry list \<Rightarrow> int \<Rightarrow> lease leased \<times> lease_entry list" where
  "acquire_act c env owner role es blocked =
     (let now = wv_now env; standbys = filter (\<lambda>e. le_role e = STANDBY) es in
      if role = STANDBY \<and> now < blocked then (Inl (LeaseUnavailable ''quarantine''), es)
      else if int (length es) < wl_cap c then
        (let e = \<lparr>le_owner = owner, le_role = role, le_token = wv_token env, le_expires_ns = now + wl_ttl_ns c, le_granted_ns = now, le_preempt = False\<rparr>
         in (Inr (lease_of c e), es @ [e]))
      else if role = PRIMARY \<and> standbys \<noteq> [] then
        (if list_ex le_preempt standbys then (Inl (LeaseUnavailable ''preempt_pending''), es)
         else (Inl (LeaseUnavailable ''preempt_pending''), update_first (oldest_standby es) (\<lambda>e. e\<lparr>le_preempt := True\<rparr>) es))
      else (Inl (LeaseUnavailable ''cap_reached''), es))"

definition find_token :: "lease_entry list \<Rightarrow> string \<Rightarrow> lease_entry option" where
  "find_token es token = find (\<lambda>e. le_token e = token) es"

definition renew_act :: "lease_ledger \<Rightarrow> lease_env \<Rightarrow> string \<Rightarrow> lease_entry list \<Rightarrow> int \<Rightarrow> bool leased \<times> lease_entry list" where
  "renew_act c env token es blocked = (case find_token es token of
       None \<Rightarrow> (Inr False, es)
     | Some e \<Rightarrow> if le_preempt e then (Inr False, es)
         else (Inr True, update_first (\<lambda>e. le_token e = token) (\<lambda>e. e\<lparr>le_expires_ns := wv_now env + wl_ttl_ns c\<rparr>) es))"

definition release_act :: "string \<Rightarrow> lease_entry list \<Rightarrow> int \<Rightarrow> unit leased \<times> lease_entry list" where
  "release_act token es blocked = (Inr (), remove_first (\<lambda>e. le_token e = token) es)"

definition promote_act :: "lease_ledger \<Rightarrow> lease_env \<Rightarrow> string \<Rightarrow> lease_entry list \<Rightarrow> int \<Rightarrow> lease leased \<times> lease_entry list" where
  "promote_act c env token es blocked = (case find_token es token of
       None \<Rightarrow> (Inl (LeaseUnavailable ''standby_not_promotable''), es)
     | Some e \<Rightarrow> if le_preempt e \<or> le_role e \<noteq> STANDBY then (Inl (LeaseUnavailable ''standby_not_promotable''), es)
         else let u = (\<lambda>e. e\<lparr>le_role := PRIMARY, le_expires_ns := wv_now env + wl_ttl_ns c\<rparr>)
              in (Inr (lease_of c (u e)), update_first (\<lambda>e. le_token e = token) u es))"

definition lease_acquire :: "lease_ledger \<Rightarrow> lease_env \<Rightarrow> string \<Rightarrow> lease_role \<Rightarrow> text_file \<Rightarrow> lease leased \<times> text_file" where
  "lease_acquire c env owner role f = with_ledger c env (acquire_act c env owner role) f"

definition lease_renew :: "lease_ledger \<Rightarrow> lease_env \<Rightarrow> lease \<Rightarrow> text_file \<Rightarrow> bool leased \<times> text_file" where
  "lease_renew c env l f = with_ledger c env (renew_act c env (ls_token l)) f"

definition lease_release :: "lease_ledger \<Rightarrow> lease_env \<Rightarrow> lease \<Rightarrow> text_file \<Rightarrow> unit leased \<times> text_file" where
  "lease_release c env l f = with_ledger c env (release_act (ls_token l)) f"

definition lease_promote :: "lease_ledger \<Rightarrow> lease_env \<Rightarrow> lease \<Rightarrow> text_file \<Rightarrow> lease leased \<times> text_file" where
  "lease_promote c env l f = with_ledger c env (promote_act c env (ls_token l)) f"

datatype lease_call = Acquire string lease_role | Renew lease | Release lease | Promote lease

fun lease_step :: "lease_ledger \<Rightarrow> lease_env \<times> lease_call \<Rightarrow> text_file \<Rightarrow> text_file" where
  "lease_step c (env, Acquire owner role) f = snd (lease_acquire c env owner role f)"
| "lease_step c (env, Renew l) f = snd (lease_renew c env l f)"
| "lease_step c (env, Release l) f = snd (lease_release c env l f)"
| "lease_step c (env, Promote l) f = snd (lease_promote c env l f)"

section \<open>The file carries the entries\<close>

lemma role_of_value [simp]: "lease_role_of (lease_role_value r) = Some r"
  by (cases r) (simp_all add: lease_role_of_def)

lemma parse_entry_json [simp]: "parse_entry (entry_json e) = Some e"
  by (cases e) (simp add: parse_entry_def entry_json_def)

lemma ledger_read_back [simp]: "parse_ledger (ledger_json es blocked now) = Some (es, if blocked > now then blocked else 0)"
  by (simp add: parse_ledger_def ledger_json_def parse_entries_def parse_blocked_until_def comp_def)

definition entries_of :: "text_file \<Rightarrow> lease_entry list" where
  "entries_of f = (case f of FileText (Some doc) \<Rightarrow> (case parse_ledger doc of Some (es, _) \<Rightarrow> es | None \<Rightarrow> []) | _ \<Rightarrow> [])"

lemma entries_of_simps [simp]: "entries_of FileMissing = []" "entries_of FileUnreadable = []" "entries_of (FileText None) = []"
  "entries_of (FileText (Some (ledger_json es blocked now))) = es"
  by (simp_all add: entries_of_def)

lemma store_entries: "store_ledger env es blocked f = (r, f') \<Longrightarrow> entries_of f' = es \<or> f' = f"
  by (auto simp: store_ledger_def split: if_splits)

lemma quarantine_entries: "Option.bind doc parse_ledger = None \<Longrightarrow> entries_of (quarantine_ledger c env (FileText doc)) = []"
  by (cases doc) (auto simp: quarantine_ledger_def store_ledger_def entries_of_def)

lemma load_entries:
  "load_ledger c env f = (Inl e, f') \<Longrightarrow> entries_of f' = [] \<or> f' = f"
  "load_ledger c env f = (Inr (es, b), f') \<Longrightarrow> f' = f \<and> entries_of f = es"
proof -
  assume a: "load_ledger c env f = (Inl e, f')"
  show "entries_of f' = [] \<or> f' = f"
  proof (cases f)
    case (FileText doc)
    with a have "Option.bind doc parse_ledger = None" "f' = quarantine_ledger c env f" by (auto simp: load_ledger_def split: option.splits)
    with FileText quarantine_entries show ?thesis by blast
  qed (use a in \<open>simp_all add: load_ledger_def\<close>)
qed (auto simp: load_ledger_def entries_of_def split: text_file.splits option.splits bind_splits)

lemma with_ledger_entries:
  assumes "with_ledger c env act f = (r, f')"
  shows "f' = f \<or> entries_of f' = [] \<or> (\<exists>blocked. entries_of f' = snd (act (drop_expired (entries_of f) (wv_now env)) blocked))"
proof (cases "load_ledger c env f")
  case (Pair l f1)
  show ?thesis
  proof (cases l)
    case (Inl e)
    then show ?thesis using assms Pair load_entries(1) [of c env f e f1] by (auto simp: with_ledger_def split: if_splits)
  next
    case (Inr p)
    obtain es blocked where p: "p = (es, blocked)" by (cases p)
    have l: "f1 = f" "entries_of f = es" using load_entries(2) [of c env f es blocked f1] Pair Inr p by simp_all
    obtain r0 es' where a: "act (drop_expired es (wv_now env)) blocked = (r0, es')" by fastforce
    obtain r1 f2 where s: "store_ledger env es' blocked f = (r1, f2)" by fastforce
    have "f' = f \<or> f' = f2" using assms Pair Inr p l a s by (auto simp: with_ledger_def split: if_splits sum.splits)
    with store_entries [OF s] a l show ?thesis by (metis snd_conv)
  qed
qed

lemmas with_ledger_snd = with_ledger_entries [OF prod.collapse [symmetric]]

section \<open>What a call does to the entries\<close>

fun call_act :: "lease_ledger \<Rightarrow> lease_env \<Rightarrow> lease_call \<Rightarrow> lease_entry list \<Rightarrow> int \<Rightarrow> lease_entry list" where
  "call_act c env (Acquire owner role) es blocked = snd (acquire_act c env owner role es blocked)"
| "call_act c env (Renew l) es blocked = snd (renew_act c env (ls_token l) es blocked)"
| "call_act c env (Release l) es blocked = snd (release_act (ls_token l) es blocked)"
| "call_act c env (Promote l) es blocked = snd (promote_act c env (ls_token l) es blocked)"

lemma step_entries:
  "lease_step c (env, call) f = f \<or> entries_of (lease_step c (env, call) f) = []
   \<or> (\<exists>blocked. entries_of (lease_step c (env, call) f) = call_act c env call (drop_expired (entries_of f) (wv_now env)) blocked)"
  by (cases call) (simp_all add: lease_acquire_def lease_renew_def lease_release_def lease_promote_def with_ledger_snd)

lemma update_first_length [simp]: "length (update_first p u es) = length es"
  by (induction es) auto

lemma update_first_member:
  "e \<in> set (update_first p u es) \<Longrightarrow> e \<in> set es \<or> (\<exists>x \<in> set es. p x \<and> find p es = Some x \<and> e = u x)"
  by (induction es) (auto split: if_splits)

lemma update_first_keeps: "e \<in> set es \<Longrightarrow> e \<in> set (update_first p u es) \<or> p e \<and> u e \<in> set (update_first p u es)"
  by (induction es) (auto split: if_splits)

lemma update_first_none: "\<forall>e \<in> set es. \<not> p e \<Longrightarrow> update_first p u es = es"
  by (induction es) auto

lemma update_first_count:
  assumes "find p es = Some x"
  shows "length (filter q (update_first p u es)) + (if q x then 1 else 0) = length (filter q es) + (if q (u x) then 1 else 0)"
  using assms by (induction es) (auto split: if_splits)

lemma remove_first_subset: "set (remove_first p es) \<subseteq> set es"
  by (induction es) auto

lemma remove_first_length: "length (remove_first p es) \<le> length es"
  by (induction es) auto

lemma remove_first_count: "length (filter q (remove_first p es)) \<le> length (filter q es)"
  by (induction es) auto

lemma remove_first_keeps: "e \<in> set es \<Longrightarrow> \<not> p e \<Longrightarrow> e \<in> set (remove_first p es)"
  by (induction es) auto

lemma some_oldest:
  assumes "filter (\<lambda>e. le_role e = STANDBY) es \<noteq> []"
  obtains x where "find (oldest_standby es) es = Some x" "x \<in> set es" "le_role x = STANDBY"
proof -
  let ?g = "set (map le_granted_ns (filter (\<lambda>e. le_role e = STANDBY) es))"
  have "Min ?g \<in> ?g" using assms by (intro Min_in) (auto simp: filter_empty_conv)
  then obtain e where "e \<in> set es" "oldest_standby es e" by (auto simp: oldest_standby_def)
  then obtain x where x: "find (oldest_standby es) es = Some x" by (metis find_None_iff not_None_eq)
  then have "x \<in> set es" "oldest_standby es x" by (auto simp: find_Some_iff)
  with x that show thesis by (simp add: oldest_standby_def)
qed

definition ledger_ok :: "lease_ledger \<Rightarrow> lease_entry list \<Rightarrow> bool" where
  "ledger_ok c es \<longleftrightarrow> int (length es) \<le> wl_cap c \<and> length (filter le_preempt es) \<le> 1 \<and> (\<forall>e \<in> set es. le_preempt e \<longrightarrow> le_role e = STANDBY)"

lemma drop_expired_ok: "ledger_ok c es \<Longrightarrow> ledger_ok c (drop_expired es now)"
proof -
  assume a: "ledger_ok c es"
  have "length (filter le_preempt (drop_expired es now)) \<le> length (filter le_preempt es)"
    by (induction es) (auto simp: drop_expired_def)
  with a show ?thesis by (auto simp: ledger_ok_def drop_expired_def intro: order_trans [OF of_nat_mono [OF length_filter_le]])
qed

lemma acquire_ok:
  assumes "ledger_ok c es"
  shows "ledger_ok c (snd (acquire_act c env owner role es blocked))"
proof (cases "\<not> int (length es) < wl_cap c \<and> role = PRIMARY \<and> filter (\<lambda>e. le_role e = STANDBY) es \<noteq> [] \<and> \<not> list_ex le_preempt (filter (\<lambda>e. le_role e = STANDBY) es)")
  case True
  then obtain x where x: "find (oldest_standby es) es = Some x" "x \<in> set es" "le_role x = STANDBY" using some_oldest by blast
  have none: "\<forall>e \<in> set es. \<not> le_preempt e" using True assms by (auto simp: ledger_ok_def list_ex_iff)
  let ?u = "\<lambda>e. e\<lparr>le_preempt := True\<rparr>"
  have "length (filter le_preempt (update_first (oldest_standby es) ?u es)) = 1"
    using update_first_count [OF x(1), of le_preempt ?u] none x(2) by (simp add: filter_empty_conv [THEN iffD2])
  moreover have "le_role e = STANDBY" if "e \<in> set (update_first (oldest_standby es) ?u es)" "le_preempt e" for e
    using update_first_member [OF that(1)] none that(2) x by auto
  ultimately show ?thesis using True assms by (auto simp: acquire_act_def ledger_ok_def)
next
  case False
  then show ?thesis using assms by (auto simp: acquire_act_def ledger_ok_def Let_def)
qed

lemma token_update_ok:
  assumes "ledger_ok c es" "find_token es token = Some x" "\<not> le_preempt x" "\<And>e. le_preempt (u e) = le_preempt e"
  shows "ledger_ok c (update_first (\<lambda>e. le_token e = token) u es)"
proof -
  have x: "find (\<lambda>e. le_token e = token) es = Some x" using assms(2) by (simp add: find_token_def)
  have "length (filter le_preempt (update_first (\<lambda>e. le_token e = token) u es)) = length (filter le_preempt es)"
    using update_first_count [OF x, of le_preempt u] assms(3,4) by simp
  moreover have "le_role e = STANDBY" if "e \<in> set (update_first (\<lambda>e. le_token e = token) u es)" "le_preempt e" for e
    using update_first_member [OF that(1)] x assms(1,3,4) that(2) by (auto simp: ledger_ok_def)
  ultimately show ?thesis using assms(1) by (auto simp: ledger_ok_def)
qed

lemma call_ok: "ledger_ok c es \<Longrightarrow> ledger_ok c (call_act c env call es blocked)"
proof (cases call)
  case (Release l)
  assume "ledger_ok c es"
  moreover let ?es = "remove_first (\<lambda>e. le_token e = ls_token l) es"
  have "int (length ?es) \<le> int (length es)" "length (filter le_preempt ?es) \<le> length (filter le_preempt es)" "set ?es \<subseteq> set es"
    by (simp_all add: remove_first_length remove_first_count remove_first_subset)
  ultimately show ?thesis by (auto simp: Release release_act_def ledger_ok_def subset_iff)
qed (auto simp: acquire_ok renew_act_def promote_act_def Let_def intro!: token_update_ok split: option.splits)

lemma step_ok: "1 \<le> wl_cap c \<Longrightarrow> ledger_ok c (entries_of f) \<Longrightarrow> ledger_ok c (entries_of (lease_step c s f))"
proof -
  assume a: "1 \<le> wl_cap c" "ledger_ok c (entries_of f)"
  obtain env call where s: "s = (env, call)" by (cases s)
  have "ledger_ok c []" using a(1) by (simp add: ledger_ok_def)
  then show ?thesis using step_entries [of c env call f] a(2) call_ok [OF drop_expired_ok [OF a(2)]] by (auto simp: s)
qed

lemma run_ok: "1 \<le> wl_cap c \<Longrightarrow> ledger_ok c (entries_of f) \<Longrightarrow> ledger_ok c (entries_of (fold (lease_step c) steps f))"
  by (induction steps arbitrary: f) (simp_all add: step_ok)

fun call_token :: "lease_call \<Rightarrow> string option" where
  "call_token (Acquire _ _) = None"
| "call_token (Renew l) = Some (ls_token l)"
| "call_token (Release l) = Some (ls_token l)"
| "call_token (Promote l) = Some (ls_token l)"

lemma call_keeps:
  assumes "e \<in> set es" "call_token call \<noteq> Some (le_token e)"
  shows "e \<in> set (call_act c env call es blocked) \<or> e\<lparr>le_preempt := True\<rparr> \<in> set (call_act c env call es blocked)"
proof (cases call)
  case (Acquire owner role)
  show ?thesis using assms(1) update_first_keeps [OF assms(1), of "oldest_standby es" "\<lambda>e. e\<lparr>le_preempt := True\<rparr>"]
    by (auto simp: Acquire acquire_act_def Let_def)
next
  case (Renew l)
  then show ?thesis using assms update_first_keeps [OF assms(1), of "\<lambda>e. le_token e = ls_token l"]
    by (auto simp: renew_act_def split: option.splits)
next
  case (Release l)
  then show ?thesis using assms remove_first_keeps [OF assms(1), of "\<lambda>e. le_token e = ls_token l"] by (auto simp: release_act_def)
next
  case (Promote l)
  then show ?thesis using assms update_first_keeps [OF assms(1), of "\<lambda>e. le_token e = ls_token l"]
    by (auto simp: promote_act_def Let_def split: option.splits)
qed

lemma load_parsed: "es = entries_of f \<Longrightarrow> es \<noteq> [] \<Longrightarrow> \<exists>b. load_ledger c env f = (Inr (es, b), f)"
  by (auto simp: load_ledger_def entries_of_def split: text_file.splits option.splits)

lemma with_ledger_parsed:
  assumes "entries_of f \<noteq> []"
  shows "snd (with_ledger c env act f) = f
    \<or> (\<exists>blocked. entries_of (snd (with_ledger c env act f)) = snd (act (drop_expired (entries_of f) (wv_now env)) blocked))"
proof -
  obtain b where l: "load_ledger c env f = (Inr (entries_of f, b), f)" using load_parsed [OF refl assms] by blast
  obtain r0 es' where a: "act (drop_expired (entries_of f) (wv_now env)) b = (r0, es')" by fastforce
  obtain r1 f2 where s: "store_ledger env es' b f = (r1, f2)" by fastforce
  have "snd (with_ledger c env act f) = f \<or> snd (with_ledger c env act f) = f2"
    using l a s by (auto simp: with_ledger_def split: sum.splits)
  with store_entries [OF s] a show ?thesis by (metis snd_conv)
qed

lemma step_parsed:
  assumes "entries_of f \<noteq> []"
  shows "lease_step c (env, call) f = f
    \<or> (\<exists>blocked. entries_of (lease_step c (env, call) f) = call_act c env call (drop_expired (entries_of f) (wv_now env)) blocked)"
  by (cases call) (simp_all add: lease_acquire_def lease_renew_def lease_release_def lease_promote_def with_ledger_parsed [OF assms])

text \<open>
  C24. The ledger keeps every credential within its connection cap: in every state that calls of any
  processes lead to, at most the allowed number of connections is listed and at most one, a standby, is
  marked for eviction; and a listed lease that has not expired outlives every call that does not name it,
  with the same holder, role and expiry, at most marked.
\<close>

theorem leases_capped:
  assumes "1 \<le> wl_cap c" "f = fold (lease_step c) steps FileMissing"
  shows "ledger_ok c (entries_of f)
    \<and> (\<forall>e \<in> set (entries_of f). \<forall>env call. wv_now env < le_expires_ns e \<and> call_token call \<noteq> Some (le_token e) \<longrightarrow>
         (\<exists>p. e\<lparr>le_preempt := p\<rparr> \<in> set (entries_of (lease_step c (env, call) f))))"
proof -
  have "ledger_ok c (entries_of FileMissing)" using assms(1) by (simp add: ledger_ok_def)
  then have ok: "ledger_ok c (entries_of f)" unfolding assms(2) by (rule run_ok [OF assms(1)])
  have "\<exists>p. e\<lparr>le_preempt := p\<rparr> \<in> set (entries_of (lease_step c (env, call) f))"
    if e: "e \<in> set (entries_of f)" "wv_now env < le_expires_ns e" "call_token call \<noteq> Some (le_token e)" for e env call
  proof -
    have live: "e \<in> set (drop_expired (entries_of f) (wv_now env))" using e by (simp add: drop_expired_def)
    have same: "e\<lparr>le_preempt := le_preempt e\<rparr> = e" by simp
    from e(1) have "entries_of f \<noteq> []" by auto
    from step_parsed [OF this, of c env call] show ?thesis
      using e(1) call_keeps [OF live e(3), of c env] same by metis
  qed
  with ok show ?thesis by blast
qed

definition demo_slots :: lease_ledger where
  "demo_slots = \<lparr>wl_vendor = ''ls'', wl_key_id = ''k'', wl_cap = 1, wl_ttl_ns = 10\<rparr>"

definition demo_lease_env :: "int \<Rightarrow> string \<Rightarrow> lease_env" where
  "demo_lease_env now token = \<lparr>wv_lock_ok = True, wv_now = now, wv_now_corrupt = now, wv_now_store = now, wv_token = token,
     wv_rename_ok = True, wv_write_ok = True\<rparr>"

definition demo_entry :: "bool \<Rightarrow> lease_entry" where
  "demo_entry p = \<lparr>le_owner = ''a'', le_role = STANDBY, le_token = ''t'', le_expires_ns = 10, le_granted_ns = 0, le_preempt = p\<rparr>"

lemma demo_grant: "lease_acquire demo_slots (demo_lease_env 0 ''t'') ''a'' STANDBY FileMissing
    = (Inr (lease_of demo_slots (demo_entry False)), FileText (Some (ledger_json [demo_entry False] 0 0)))"
  by (simp add: lease_acquire_def with_ledger_def load_ledger_def acquire_act_def drop_expired_def store_ledger_def demo_lease_env_def demo_slots_def
      demo_entry_def Let_def)

lemma demo_preempt: "lease_acquire demo_slots (demo_lease_env 1 ''u'') ''b'' PRIMARY (FileText (Some (ledger_json [demo_entry False] 0 0)))
    = (Inl (LeaseUnavailable ''preempt_pending''), FileText (Some (ledger_json [demo_entry True] 0 1)))"
  by (simp add: lease_acquire_def with_ledger_def load_ledger_def acquire_act_def drop_expired_def store_ledger_def demo_lease_env_def demo_slots_def
      demo_entry_def Let_def oldest_standby_def)

theorem leases_capped_witness:
  "ledger_ok demo_slots (entries_of (fold (lease_step demo_slots)
     [(demo_lease_env 0 ''t'', Acquire ''a'' STANDBY), (demo_lease_env 1 ''u'', Acquire ''b'' PRIMARY)] FileMissing))
   \<and> entries_of (fold (lease_step demo_slots)
     [(demo_lease_env 0 ''t'', Acquire ''a'' STANDBY), (demo_lease_env 1 ''u'', Acquire ''b'' PRIMARY)] FileMissing) = [demo_entry True]"
proof
  have "1 \<le> wl_cap demo_slots" by (simp add: demo_slots_def)
  from leases_capped [OF this refl] show "ledger_ok demo_slots (entries_of (fold (lease_step demo_slots)
     [(demo_lease_env 0 ''t'', Acquire ''a'' STANDBY), (demo_lease_env 1 ''u'', Acquire ''b'' PRIMARY)] FileMissing))" by blast
qed (simp add: demo_grant demo_preempt)

section \<open>A primary gets its slot\<close>

definition readable :: "text_file \<Rightarrow> bool" where
  "readable f \<longleftrightarrow> f = FileMissing \<or> (\<exists>es b now. f = FileText (Some (ledger_json es b now)))"

lemma readable_load: "readable f \<Longrightarrow> \<exists>b. load_ledger c env f = (Inr (entries_of f, b), f)"
  by (auto simp: readable_def load_ledger_def)

lemma with_ledger_readable: "readable f \<Longrightarrow> readable (snd (with_ledger c env act f))"
proof -
  assume r: "readable f"
  obtain b where l: "load_ledger c env f = (Inr (entries_of f, b), f)" using readable_load [OF r] by blast
  obtain r0 es' where a: "act (drop_expired (entries_of f) (wv_now env)) b = (r0, es')" by fastforce
  show ?thesis using r l a by (auto simp: with_ledger_def store_ledger_def) (auto simp: readable_def)
qed

lemma step_readable: "readable f \<Longrightarrow> readable (lease_step c s f)"
  by (cases "(c, s, f)" rule: lease_step.cases)
    (simp_all add: lease_acquire_def lease_renew_def lease_release_def lease_promote_def with_ledger_readable)

definition room_left :: "lease_ledger \<Rightarrow> lease_entry list \<Rightarrow> lease_entry list \<Rightarrow> bool" where
  "room_left c marked es \<longleftrightarrow> int (length (filter (\<lambda>e. \<not> le_preempt e) es)) < wl_cap c \<and> (\<forall>e \<in> set es. le_preempt e \<longrightarrow> e \<in> set marked)"

fun is_acquire :: "lease_call \<Rightarrow> bool" where
  "is_acquire (Acquire _ _) = True"
| "is_acquire _ = False"

lemma room_drop: "room_left c marked es \<Longrightarrow> room_left c marked (drop_expired es now)"
proof -
  assume a: "room_left c marked es"
  have "length (filter (\<lambda>e. \<not> le_preempt e) (drop_expired es now)) \<le> length (filter (\<lambda>e. \<not> le_preempt e) es)"
    by (induction es) (auto simp: drop_expired_def)
  with a show ?thesis by (auto simp: room_left_def drop_expired_def)
qed

lemma room_token_update:
  assumes "room_left c marked es" "find_token es token = Some x" "\<not> le_preempt x" "\<And>e. le_preempt (u e) = le_preempt e"
  shows "room_left c marked (update_first (\<lambda>e. le_token e = token) u es)"
proof -
  have x: "find (\<lambda>e. le_token e = token) es = Some x" using assms(2) by (simp add: find_token_def)
  have "length (filter (\<lambda>e. \<not> le_preempt e) (update_first (\<lambda>e. le_token e = token) u es)) = length (filter (\<lambda>e. \<not> le_preempt e) es)"
    using update_first_count [OF x, of "\<lambda>e. \<not> le_preempt e" u] assms(3,4) by simp
  moreover have "e \<in> set marked" if "e \<in> set (update_first (\<lambda>e. le_token e = token) u es)" "le_preempt e" for e
    using update_first_member [OF that(1)] x assms(1,3,4) that(2) by (auto simp: room_left_def)
  ultimately show ?thesis using assms(1) by (auto simp: room_left_def)
qed

lemma room_call: "room_left c marked es \<Longrightarrow> \<not> is_acquire call \<Longrightarrow> room_left c marked (call_act c env call es blocked)"
proof (cases call)
  case (Release l)
  assume "room_left c marked es"
  moreover let ?es = "remove_first (\<lambda>e. le_token e = ls_token l) es"
  have "length (filter (\<lambda>e. \<not> le_preempt e) ?es) \<le> length (filter (\<lambda>e. \<not> le_preempt e) es)" "set ?es \<subseteq> set es"
    by (simp_all add: remove_first_count remove_first_subset)
  ultimately show ?thesis by (auto simp: Release release_act_def room_left_def subset_iff)
qed (auto simp: renew_act_def promote_act_def Let_def intro!: room_token_update split: option.splits)

lemma room_step:
  assumes "1 \<le> wl_cap c" "room_left c marked (entries_of f)" "\<not> is_acquire call"
  shows "room_left c marked (entries_of (lease_step c (env, call) f))"
proof -
  have "room_left c marked []" using assms(1) by (simp add: room_left_def)
  then show ?thesis using step_entries [of c env call f] assms(2) room_call [OF room_drop [OF assms(2)] assms(3)] by metis
qed

lemma preempted_room:
  assumes "lease_acquire c env owner PRIMARY f = (Inl (LeaseUnavailable ''preempt_pending''), f')" "ledger_ok c (entries_of f)"
  shows "room_left c (filter le_preempt (entries_of f')) (entries_of f')"
proof -
  obtain l f1 where l: "load_ledger c env f = (l, f1)" by fastforce
  have "l \<noteq> Inl (LeaseUnavailable ''preempt_pending'')" using l by (auto simp: load_ledger_def split: text_file.splits option.splits)
  then obtain es b where lr: "l = Inr (es, b)" using assms(1) l
    by (cases l) (auto simp: lease_acquire_def with_ledger_def split: if_splits)
  have f: "f1 = f" "entries_of f = es" using load_entries(2) [of c env f es b f1] l lr by simp_all
  let ?es = "drop_expired es (wv_now env)" and ?sb = "filter (\<lambda>e. le_role e = STANDBY) (drop_expired es (wv_now env))"
  have ok: "ledger_ok c ?es" using assms(2) f(2) drop_expired_ok by blast
  obtain r es' where a: "acquire_act c env owner PRIMARY ?es b = (r, es')" by fastforce
  have st: "r = Inl (LeaseUnavailable ''preempt_pending'')" "entries_of f' = es'"
    using assms(1) l lr f a by (auto simp: lease_acquire_def with_ledger_def store_ledger_def split: if_splits)
  have full: "\<not> int (length ?es) < wl_cap c" "?sb \<noteq> []" using a st(1) by (auto simp: acquire_act_def Let_def split: if_splits)
  have "\<exists>e \<in> set es'. le_preempt e"
  proof (cases "list_ex le_preempt ?sb")
    case True
    then show ?thesis using a full by (auto simp: acquire_act_def Let_def list_ex_iff split: if_splits)
  next
    case False
    obtain x where x: "find (oldest_standby ?es) ?es = Some x" "x \<in> set ?es" "le_role x = STANDBY" using some_oldest [OF full(2)] by blast
    have "es' = update_first (oldest_standby ?es) (\<lambda>e. e\<lparr>le_preempt := True\<rparr>) ?es"
      using a full False by (simp add: acquire_act_def Let_def split: if_splits)
    moreover have "length (filter le_preempt (update_first (oldest_standby ?es) (\<lambda>e. e\<lparr>le_preempt := True\<rparr>) ?es)) \<noteq> 0"
      using update_first_count [OF x(1), of le_preempt "\<lambda>e. e\<lparr>le_preempt := True\<rparr>"] False x(2,3)
      by (auto simp: list_ex_iff split: if_splits)
    ultimately show ?thesis by (auto simp: filter_empty_conv)
  qed
  then have "length (filter (\<lambda>e. \<not> le_preempt e) es') < length es'" by (auto intro: length_filter_less)
  moreover have "ledger_ok c es'" using acquire_ok [OF ok, of env owner PRIMARY b] a by simp
  ultimately show ?thesis using st(2) by (auto simp: room_left_def ledger_ok_def)
qed

lemma grant_with_room:
  assumes "readable f" "room_left c marked (entries_of f)" "wv_lock_ok env" "wv_write_ok env"
    and "\<forall>e \<in> set marked. le_expires_ns e \<le> wv_now env"
  shows "\<exists>l f'. lease_acquire c env owner PRIMARY f = (Inr l, f')"
proof -
  obtain b where l: "load_ledger c env f = (Inr (entries_of f, b), f)" using readable_load [OF assms(1)] by blast
  let ?es = "drop_expired (entries_of f) (wv_now env)"
  have "?es = filter (\<lambda>e. \<not> le_preempt e) ?es"
    using assms(2,5) by (intro filter_True [symmetric]) (fastforce simp: drop_expired_def room_left_def)
  then have "length ?es = length (filter (\<lambda>e. \<not> le_preempt e) ?es)" by simp
  with room_drop [OF assms(2), of "wv_now env"] have "int (length ?es) < wl_cap c" by (simp add: room_left_def)
  then show ?thesis using l assms(3,4) by (simp add: lease_acquire_def with_ledger_def acquire_act_def store_ledger_def Let_def)
qed



end
