(* ===== verification/Handover.thy ===== *)
theory Handover
  imports WsLease LagMonitor "HOL-Library.Multiset"
begin

text \<open>
  The connection handover of \<open>src/realtime/connection_handover.py\<close>: a standby connection is opened beside the
  live one and takes over once the live one has caught up. An adapter is a number; the environment of a call
  holds the answers it meets: clock readings, whether the window is open, which awaited tasks finished and how,
  and what the slot ledger answers (\<open>WsLease\<close>, shared with other processes, so answers are unconstrained).
  \<open>h\<close> is Python's hash of a payload triple. A call yields the lease traffic and the adapters it closed.
\<close>

section \<open>State\<close>

record standby =
  sb_adapter :: nat
  sb_started :: rat
  sb_first_event_s :: "int option"
  sb_newest_event_s :: "int option"
  sb_lease :: "lease option"

record handover_cfg =
  hc_max_s :: rat
  hc_cooldown_s :: rat
  hc_max_sessions :: "int option"
  hc_stall_lag_s :: "rat option"
  hc_refresh_cooldown_s :: rat
  hc_ledger :: bool
  hc_renew_s :: rat

record handover =
  ho_requested :: bool
  ho_opening :: bool
  ho_opening_lease :: "lease option"
  ho_standby :: "standby option"
  ho_last_start :: "rat option"
  ho_last_refresh :: "rat option"
  ho_refresh_pending :: bool
  ho_refresh_overlap :: bool
  ho_seen :: "(int, nat) dict"
  ho_standby_owner :: nat
  ho_primary_event_s :: int
  ho_dropped :: nat
  ho_primary_lease :: "lease option"
  ho_tended_at :: "rat option"

datatype recv_state = RecvPending | RecvFrame | RecvFailed

text \<open>
  \<open>he_opened\<close>: the bring-up task is among the finished ones, with the adapter it delivered, if any.
  \<open>he_aclose_opened\<close> is what that task had delivered when it is cancelled on closing.
\<close>

record handover_env =
  he_mono :: rat
  he_mono_tend :: rat
  he_mono_expiry :: rat
  he_wall_sod :: int
  he_window :: "bool option"
  he_opened :: "nat option option"
  he_recv :: recv_state
  he_acquire :: "lease_role \<Rightarrow> lease leased"
  he_renew :: "lease \<Rightarrow> bool leased"
  he_promote :: "lease \<Rightarrow> lease leased"
  he_aclose_opened :: "nat option"

datatype ho_event =
    LeaseAcquired lease
  | LeaseReleased lease
  | LeaseAbandoned lease
  | AdapterClosed nat

definition SEEN_CAP :: nat where "SEEN_CAP = 400000"

definition new_handover :: "rat \<Rightarrow> rat \<Rightarrow> int option \<Rightarrow> rat option \<Rightarrow> rat \<Rightarrow> bool \<Rightarrow> rat \<Rightarrow> lease option \<Rightarrow> rat \<Rightarrow> (handover_cfg \<times> handover) result" where
  "new_handover max_s cooldown_s max_sessions stall_lag_s refresh_cooldown_s ledger lease_ttl_s primary_lease mono_now =
     (if max_s \<le> 0 \<or> cooldown_s < 0 then Inl (ValueError ''max_s must be positive and cooldown_s non-negative'')
      else if (case stall_lag_s of Some l \<Rightarrow> l \<le> 0 | None \<Rightarrow> False) then Inl (ValueError ''stall_lag_s must be positive'')
      else if refresh_cooldown_s < 0 then Inl (ValueError ''refresh_cooldown_s must be non-negative'')
      else if ledger \<and> lease_ttl_s \<le> 0 then Inl (ValueError ''lease_ttl_s must be positive when a lease ledger is used'')
      else Inr (\<lparr>hc_max_s = max_s, hc_cooldown_s = cooldown_s, hc_max_sessions = max_sessions, hc_stall_lag_s = stall_lag_s,
                 hc_refresh_cooldown_s = refresh_cooldown_s, hc_ledger = ledger, hc_renew_s = fl (lease_ttl_s / 3)\<rparr>,
                \<lparr>ho_requested = False, ho_opening = False, ho_opening_lease = None, ho_standby = None, ho_last_start = None, ho_last_refresh = None,
                 ho_refresh_pending = False, ho_refresh_overlap = False, ho_seen = [], ho_standby_owner = 0, ho_primary_event_s = -1, ho_dropped = 0,
                 ho_primary_lease = primary_lease, ho_tended_at = (if ledger then Some mono_now else None)\<rparr>))"

definition active :: "handover \<Rightarrow> bool" where
  "active h \<longleftrightarrow> ho_opening h \<or> ho_standby h \<noteq> None"

section \<open>Leases\<close>

definition release_lease :: "handover_cfg \<Rightarrow> lease option \<Rightarrow> ho_event list" where
  "release_lease c l = (if \<not> hc_ledger c then [] else case l of None \<Rightarrow> [] | Some l \<Rightarrow> [LeaseReleased l])"

text \<open>An unreadable ledger keeps the lease.\<close>

definition renew_kept :: "handover_env \<Rightarrow> lease \<Rightarrow> bool" where
  "renew_kept env l = (case he_renew env l of Inl _ \<Rightarrow> True | Inr kept \<Rightarrow> kept)"

definition acquire_primary :: "handover_env \<Rightarrow> lease option \<times> ho_event list" where
  "acquire_primary env = (case he_acquire env PRIMARY of Inl _ \<Rightarrow> (None, []) | Inr l \<Rightarrow> (Some l, [LeaseAcquired l]))"

definition take_over_primary_lease :: "handover_cfg \<Rightarrow> handover_env \<Rightarrow> lease option \<Rightarrow> handover \<Rightarrow> ho_event list \<times> handover" where
  "take_over_primary_lease c env standby_lease h =
     (if \<not> hc_ledger c then ([], h)
      else let retired = ho_primary_lease h;
               (promoted, log1) = (case standby_lease of
                   None \<Rightarrow> (None, [])
                 | Some l \<Rightarrow> (case he_promote env l of Inr l' \<Rightarrow> (Some l', []) | Inl _ \<Rightarrow> (None, release_lease c (Some l))));
               (primary, log2) = (case promoted of Some l \<Rightarrow> (Some l, []) | None \<Rightarrow> acquire_primary env)
           in (log1 @ log2 @ release_lease c retired, h\<lparr>ho_primary_lease := primary\<rparr>))"

definition drop_standby :: "handover_cfg \<Rightarrow> handover \<Rightarrow> ho_event list \<times> handover" where
  "drop_standby c h = (case ho_standby h of
       None \<Rightarrow> ([], h\<lparr>ho_seen := []\<rparr>)
     | Some sb \<Rightarrow> (AdapterClosed (sb_adapter sb) # release_lease c (sb_lease sb), h\<lparr>ho_standby := None, ho_seen := []\<rparr>))"

definition start_opening :: "handover_cfg \<Rightarrow> handover_env \<Rightarrow> handover \<Rightarrow> bool \<times> ho_event list \<times> handover" where
  "start_opening c env h =
     (if hc_ledger c then
        (case he_acquire env STANDBY of
           Inl _ \<Rightarrow> (False, [], h)
         | Inr l \<Rightarrow> (True, [LeaseAcquired l], h\<lparr>ho_opening_lease := Some l, ho_opening := True\<rparr>))
      else (True, [], h\<lparr>ho_opening := True\<rparr>))"

text \<open>\<open>_tend_leases\<close>: a bring-up whose slot is gone is cancelled and forgets it, a standby is dropped, a primary slot is sought anew.\<close>

definition tend_opening :: "handover_env \<Rightarrow> handover \<Rightarrow> ho_event list \<times> handover" where
  "tend_opening env h = (case ho_opening_lease h of
       Some l \<Rightarrow> if ho_opening h \<and> \<not> renew_kept env l then ([LeaseAbandoned l], h\<lparr>ho_opening_lease := None\<rparr>) else ([], h)
     | None \<Rightarrow> ([], h))"

definition tend_standby :: "handover_cfg \<Rightarrow> handover_env \<Rightarrow> handover \<Rightarrow> ho_event list \<times> handover" where
  "tend_standby c env h = (case Option.bind (ho_standby h) sb_lease of
       Some l \<Rightarrow> if \<not> renew_kept env l then drop_standby c h else ([], h)
     | None \<Rightarrow> ([], h))"

definition tend_primary :: "handover_env \<Rightarrow> handover \<Rightarrow> ho_event list \<times> handover" where
  "tend_primary env h =
     (let (primary, lg) = acquire_primary env in
      case ho_primary_lease h of
        None \<Rightarrow> (lg, h\<lparr>ho_primary_lease := primary\<rparr>)
      | Some l \<Rightarrow> if renew_kept env l then ([], h) else (LeaseAbandoned l # lg, h\<lparr>ho_primary_lease := primary\<rparr>))"

definition tend_leases :: "handover_cfg \<Rightarrow> handover_env \<Rightarrow> handover \<Rightarrow> ho_event list \<times> handover" where
  "tend_leases c env h =
     (if (case ho_tended_at h of Some t \<Rightarrow> fl (he_mono_tend env - t) < hc_renew_s c | None \<Rightarrow> False) then ([], h)
      else let (log1, h1) = tend_opening env (h\<lparr>ho_tended_at := Some (he_mono_tend env)\<rparr>);
               (log2, h2) = tend_standby c env h1;
               (log3, h3) = tend_primary env h2
           in (log1 @ log2 @ log3, h3))"

section \<open>Starting\<close>

definition standby_lag_s :: "handover_env \<Rightarrow> standby \<Rightarrow> rat" where
  "standby_lag_s env sb = (case sb_newest_event_s sb of
       None \<Rightarrow> max 0 (fl (he_mono env - sb_started sb))
     | Some e \<Rightarrow> max 0 (of_int (he_wall_sod env - e)))"

definition maybe_start :: "handover_cfg \<Rightarrow> handover_env \<Rightarrow> bool \<Rightarrow> int \<Rightarrow> handover \<Rightarrow> ho_event list \<times> handover" where
  "maybe_start c env eligible live_connections h =
     (if ho_opening h then ([], h)
      else case (hc_stall_lag_s c, ho_standby h, ho_requested h) of
        (Some stall, Some sb, True) \<Rightarrow>
          if stall \<le> standby_lag_s env sb
             \<and> (case ho_last_refresh h of None \<Rightarrow> True | Some t \<Rightarrow> hc_refresh_cooldown_s c \<le> fl (he_mono env - t))
          then ([], h\<lparr>ho_requested := False, ho_last_refresh := Some (he_mono env), ho_refresh_pending := True\<rparr>)
          else ([], h)
      | _ \<Rightarrow>
          let h1 = h\<lparr>ho_requested := False\<rparr> in
          if \<not> (ho_requested h \<or> he_window env = Some True) \<or> \<not> eligible \<or> active h then ([], h1)
          else if (case ho_last_start h of Some t \<Rightarrow> fl (he_mono env - t) < hc_cooldown_s c | None \<Rightarrow> False) then ([], h1)
          else if (case hc_max_sessions c of Some cap \<Rightarrow> cap \<le> live_connections | None \<Rightarrow> False) then ([], h1\<lparr>ho_last_start := Some (he_mono env)\<rparr>)
          else snd (start_opening c env (h1\<lparr>ho_last_start := Some (he_mono env)\<rparr>)))"

section \<open>Frames\<close>

definition note_event :: "int \<Rightarrow> standby \<Rightarrow> standby" where
  "note_event e sb = sb\<lparr>sb_first_event_s := (case sb_first_event_s sb of None \<Rightarrow> Some e | Some f \<Rightarrow> Some f),
     sb_newest_event_s := (case sb_newest_event_s sb of None \<Rightarrow> Some e | Some n \<Rightarrow> Some (max n e))\<rparr>"

definition payload :: "l0_frame \<Rightarrow> string \<times> string \<times> string" where
  "payload f = (f_stream f, f_symbol f, f_raw f)"

definition evict_seen :: "(int, nat) dict \<Rightarrow> (int, nat) dict" where
  "evict_seen d = (if length d > SEEN_CAP then drop (SEEN_CAP div 4) d else d)"

definition track_event :: "l0_frame \<Rightarrow> bool \<Rightarrow> handover \<Rightarrow> handover" where
  "track_event frame from_standby h = (case event_second_of frame of
       None \<Rightarrow> h
     | Some e \<Rightarrow> (case (from_standby, ho_standby h) of
          (True, Some sb) \<Rightarrow> h\<lparr>ho_standby := Some (note_event (int e) sb)\<rparr>
        | _ \<Rightarrow> h\<lparr>ho_primary_event_s := max (ho_primary_event_s h) (int e)\<rparr>))"

definition admit :: "(string \<times> string \<times> string \<Rightarrow> int) \<Rightarrow> l0_frame \<Rightarrow> bool \<Rightarrow> handover \<Rightarrow> bool \<times> handover" where
  "admit hash frame from_standby h0 =
     (if ho_standby h0 = None \<and> \<not> ho_refresh_overlap h0 then (True, h0)
      else let h = track_event frame from_standby h0;
               key = hash (payload frame);
               seen = evict_seen (ho_seen h);
               token = (if from_standby then ho_standby_owner h else 0)
           in case map_of seen key of
                None \<Rightarrow> (True, h\<lparr>ho_seen := seen @ [(key, token)]\<rparr>)
              | Some owner \<Rightarrow> if owner \<noteq> token then (False, h\<lparr>ho_seen := seen, ho_dropped := ho_dropped h + 1\<rparr>)
                  else (True, h\<lparr>ho_seen := seen\<rparr>))"

section \<open>Advancing\<close>

definition cut_over :: "handover_cfg \<Rightarrow> handover_env \<Rightarrow> standby \<Rightarrow> handover \<Rightarrow> ho_event list \<times> handover" where
  "cut_over c env sb h = take_over_primary_lease c env (sb_lease sb) (h\<lparr>ho_standby := None, ho_seen := [], ho_requested := False\<rparr>)"

definition adopt :: "handover_cfg \<Rightarrow> handover_env \<Rightarrow> handover \<Rightarrow> ho_event list \<times> handover" where
  "adopt c env h = (case (ho_opening h, he_opened env) of
       (True, Some delivered) \<Rightarrow>
         let lease = ho_opening_lease h; h1 = h\<lparr>ho_opening := False, ho_opening_lease := None\<rparr>;
             unleased = (hc_ledger c \<and> lease = None) in
         (case delivered of
            Some a \<Rightarrow>
              if unleased then ([AdapterClosed a], h1\<lparr>ho_seen := [], ho_refresh_overlap := False\<rparr>)
              else ([], h1\<lparr>ho_standby := Some \<lparr>sb_adapter = a, sb_started = he_mono env, sb_first_event_s = None, sb_newest_event_s = None, sb_lease = lease\<rparr>,
                     ho_standby_owner := ho_standby_owner h + 1, ho_seen := (if ho_refresh_overlap h then ho_seen h else []),
                     ho_primary_event_s := -1, ho_dropped := 0, ho_refresh_overlap := False\<rparr>)
          | None \<Rightarrow> (release_lease c lease, h1\<lparr>ho_seen := [], ho_refresh_overlap := False\<rparr>))
     | _ \<Rightarrow> ([], h))"

definition decide_cut_over :: "handover_cfg \<Rightarrow> handover_env \<Rightarrow> handover \<Rightarrow> (nat \<times> string) option \<times> ho_event list \<times> handover" where
  "decide_cut_over c env h = (case ho_standby h of
       None \<Rightarrow> (None, [], h)
     | Some sb \<Rightarrow>
         if he_recv env = RecvFailed then (None, drop_standby c h)
         else if he_window env = Some True then (None, [], h)
         else let caught_up = (case sb_first_event_s sb of Some f \<Rightarrow> ho_primary_event_s h \<ge> f | None \<Rightarrow> False);
                  expired = (hc_max_s c \<le> fl (he_mono_expiry env - sb_started sb)) in
           if \<not> (caught_up \<or> expired) then (None, [], h)
           else if (case sb_lease sb of Some l \<Rightarrow> \<not> renew_kept env l | None \<Rightarrow> False) then (None, drop_standby c h)
           else (Some (sb_adapter sb, if caught_up then ''caught_up'' else ''forced''), cut_over c env sb h))"

definition ho_step :: "handover_cfg \<Rightarrow> handover_env \<Rightarrow> handover \<Rightarrow> (nat \<times> string) option \<times> ho_event list \<times> handover" where
  "ho_step c env h =
     (if ho_refresh_pending h then
        (let h0 = h\<lparr>ho_refresh_pending := False\<rparr>;
             (log1, h1) = (if ho_standby h0 \<noteq> None then (let (l, x) = drop_standby c h0 in (l, x\<lparr>ho_seen := ho_seen h0\<rparr>)) else ([], h0));
             (started, log2, h2) = start_opening c env h1
         in (None, log1 @ log2, h2\<lparr>ho_refresh_overlap := started\<rparr>))
      else
        (let (log1, h1) = adopt c env h;
             (log2, h2) = (if hc_ledger c then tend_leases c env h1 else ([], h1));
             (cut, log3, h3) = decide_cut_over c env h2
         in (cut, log1 @ log2 @ log3, h3)))"

definition on_primary_failure :: "handover_cfg \<Rightarrow> handover_env \<Rightarrow> handover \<Rightarrow> (nat \<times> string) option \<times> ho_event list \<times> handover" where
  "on_primary_failure c env h = (case ho_standby h of
       None \<Rightarrow> (None, [], h)
     | Some sb \<Rightarrow> (Some (sb_adapter sb, ''primary_failed''), cut_over c env sb h))"

definition ho_aclose :: "handover_cfg \<Rightarrow> handover_env \<Rightarrow> handover \<Rightarrow> ho_event list \<times> handover" where
  "ho_aclose c env h =
     (let h0 = h\<lparr>ho_refresh_overlap := False\<rparr>;
          (log1, h1) = (if ho_opening h0
            then ((case he_aclose_opened env of Some a \<Rightarrow> [AdapterClosed a] | None \<Rightarrow> []) @ release_lease c (ho_opening_lease h0),
                  h0\<lparr>ho_opening := False, ho_opening_lease := None\<rparr>)
            else ([], h0));
          (log2, h2) = drop_standby c h1
      in (log1 @ log2, h2))"

definition release_primary_lease :: "handover_cfg \<Rightarrow> handover \<Rightarrow> ho_event list \<times> handover" where
  "release_primary_lease c h = (release_lease c (ho_primary_lease h), h\<lparr>ho_primary_lease := None\<rparr>)"

section \<open>The receive loop\<close>

text \<open>
  The part of \<open>RealtimeStreamer.pump\<close> in \<open>src/realtime/streamer.py\<close> that drives the handover: one turn of the loop, with
  the frames counted on this connection. What the turn receives is \<open>tn_standby\<close> from the standby, if there is one,
  and \<open>tn_primary\<close> from the live connection. A turn that raises ends the pump, which closes the handover.
\<close>

datatype primary_recv = PrimaryIdle | PrimaryFrame l0_frame | PrimaryFailed

record turn =
  tn_env :: handover_env
  tn_standby :: "l0_frame option"
  tn_primary :: primary_recv

record pump =
  pu_frames :: nat
  pu_handover :: handover

type_synonym hashing = "string \<times> string \<times> string \<Rightarrow> int"

definition pump_end :: "handover_cfg \<Rightarrow> handover_env \<Rightarrow> handover \<Rightarrow> ho_event list \<times> pump" where
  "pump_end c env h = (let (lg, h') = ho_aclose c env h in (lg, \<lparr>pu_frames = 0, pu_handover = h'\<rparr>))"

definition turn_start :: "handover_cfg \<Rightarrow> turn \<Rightarrow> pump \<Rightarrow> ho_event list \<times> handover" where
  "turn_start c t p = maybe_start c (tn_env t) (pu_frames p > 0) (if active (pu_handover p) then 2 else 1) (pu_handover p)"

definition turn_standby :: "hashing \<Rightarrow> turn \<Rightarrow> pump \<Rightarrow> pump" where
  "turn_standby hash t p = (case (ho_standby (pu_handover p), tn_standby t) of
       (Some _, Some frame) \<Rightarrow>
         (case admit hash frame True (pu_handover p) of (ok, h) \<Rightarrow> \<lparr>pu_frames = (if ok then pu_frames p + 1 else pu_frames p), pu_handover = h\<rparr>)
     | _ \<Rightarrow> p)"

definition turn_primary :: "hashing \<Rightarrow> handover_cfg \<Rightarrow> turn \<Rightarrow> pump \<Rightarrow> ho_event list \<times> pump" where
  "turn_primary hash c t p = (case tn_primary t of
       PrimaryIdle \<Rightarrow> ([], p)
     | PrimaryFrame frame \<Rightarrow> ([], \<lparr>pu_frames = pu_frames p + 1, pu_handover = snd (admit hash frame False (pu_handover p))\<rparr>)
     | PrimaryFailed \<Rightarrow> (case on_primary_failure c (tn_env t) (pu_handover p) of
           (None, lg, h) \<Rightarrow> (let (lg', p') = pump_end c (tn_env t) h in (lg @ lg', p'))
         | (Some _, lg, h) \<Rightarrow> (lg, p\<lparr>pu_handover := h\<rparr>)))"

definition pump_turn :: "hashing \<Rightarrow> handover_cfg \<Rightarrow> turn \<Rightarrow> pump \<Rightarrow> ho_event list \<times> pump" where
  "pump_turn hash c t p =
     (let (log1, h1) = turn_start c t p;
          p2 = turn_standby hash t (p\<lparr>pu_handover := h1\<rparr>);
          (cut, log3, h3) = ho_step c (tn_env t) (pu_handover p2);
          (log4, p4) = (if cut \<noteq> None then ([], p2\<lparr>pu_handover := h3\<rparr>) else turn_primary hash c t (p2\<lparr>pu_handover := h3\<rparr>))
      in (log1 @ log3 @ log4, p4))"

datatype pump_op = OpRequest | OpTurn turn | OpAbort turn | OpEnd handover_env | OpReleasePrimary

fun pump_apply :: "hashing \<Rightarrow> handover_cfg \<Rightarrow> pump_op \<Rightarrow> pump \<Rightarrow> ho_event list \<times> pump" where
  "pump_apply hash c OpRequest p = ([], p\<lparr>pu_handover := (pu_handover p)\<lparr>ho_requested := True\<rparr>\<rparr>)"
| "pump_apply hash c (OpTurn t) p = pump_turn hash c t p"
| "pump_apply hash c (OpAbort t) p = (let (lg, h) = turn_start c t p; (lg', p') = pump_end c (tn_env t) h in (lg @ lg', p'))"
| "pump_apply hash c (OpEnd env) p = pump_end c env (pu_handover p)"
| "pump_apply hash c OpReleasePrimary p = (let (lg, h) = release_primary_lease c (pu_handover p) in (lg, p\<lparr>pu_handover := h\<rparr>))"

fun pump_run :: "hashing \<Rightarrow> handover_cfg \<Rightarrow> pump_op list \<Rightarrow> pump \<Rightarrow> ho_event list \<times> pump" where
  "pump_run hash c [] p = ([], p)"
| "pump_run hash c (op # ops) p =
     (let (lg, p1) = pump_apply hash c op p; (lg', p2) = pump_run hash c ops p1 in (lg @ lg', p2))"

section \<open>Lease accounts\<close>

definition token_bag :: "lease option \<Rightarrow> string multiset" where
  "token_bag l = (case l of None \<Rightarrow> {#} | Some l \<Rightarrow> {#ls_token l#})"

definition leases_held :: "handover \<Rightarrow> string multiset" where
  "leases_held h = token_bag (ho_primary_lease h) + token_bag (ho_opening_lease h) + token_bag (Option.bind (ho_standby h) sb_lease)"

fun acquired :: "ho_event list \<Rightarrow> string multiset" where
  "acquired [] = {#}"
| "acquired (LeaseAcquired l # es) = {#ls_token l#} + acquired es"
| "acquired (_ # es) = acquired es"

fun given_up :: "ho_event list \<Rightarrow> string multiset" where
  "given_up [] = {#}"
| "given_up (LeaseReleased l # es) = {#ls_token l#} + given_up es"
| "given_up (LeaseAbandoned l # es) = {#ls_token l#} + given_up es"
| "given_up (_ # es) = given_up es"

lemma acquired_append [simp]: "acquired (xs @ ys) = acquired xs + acquired ys"
  by (induction xs rule: acquired.induct) (simp_all add: add.assoc)

lemma given_up_append [simp]: "given_up (xs @ ys) = given_up xs + given_up ys"
  by (induction xs rule: given_up.induct) (simp_all add: add.assoc)

lemma token_bag_simps [simp]: "token_bag None = {#}" "token_bag (Some l) = {#ls_token l#}"
  by (simp_all add: token_bag_def)

definition balanced :: "handover \<Rightarrow> ho_event list \<times> handover \<Rightarrow> bool" where
  "balanced h r \<longleftrightarrow> leases_held h + acquired (fst r) = leases_held (snd r) + given_up (fst r)"

text \<open>Promoting a lease keeps its token, as the ledger's \<open>promote\<close> does.\<close>

definition same_token :: "handover_env \<Rightarrow> bool" where
  "same_token env \<longleftrightarrow> (\<forall>l l'. he_promote env l = Inr l' \<longrightarrow> ls_token l' = ls_token l)"

lemma promote_keeps_token: "fst (lease_promote c env l f) = Inr l' \<Longrightarrow> ls_token l' = ls_token l"
proof -
  have "fst (promote_act c env (ls_token l) es b) = Inr l' \<Longrightarrow> ls_token l' = ls_token l" for es b
    by (auto simp: promote_act_def find_token_def find_Some_iff lease_of_def Let_def split: option.splits if_splits)
  then show "fst (lease_promote c env l f) = Inr l' \<Longrightarrow> ls_token l' = ls_token l"
    by (auto simp: lease_promote_def with_ledger_def split: if_splits prod.splits sum.splits) (metis fst_conv)
qed

definition ho_inv :: "handover_cfg \<Rightarrow> handover \<Rightarrow> bool" where
  "ho_inv c h \<longleftrightarrow> (ho_opening_lease h \<noteq> None \<longrightarrow> ho_opening h) \<and> (ho_refresh_pending h \<longrightarrow> \<not> ho_opening h)
     \<and> (ho_opening h \<longrightarrow> ho_standby h = None)
     \<and> (case ho_standby h of Some sb \<Rightarrow> hc_ledger c \<longleftrightarrow> sb_lease sb \<noteq> None | None \<Rightarrow> True)
     \<and> (\<not> hc_ledger c \<longrightarrow> ho_opening_lease h = None \<and> ho_primary_lease h = None)"

lemmas ho_defs = balanced_def leases_held_def ho_inv_def release_lease_def

text \<open>A call that returns \<open>r\<close> keeps the accounts and the invariant.\<close>

abbreviation ho_keeps :: "handover_cfg \<Rightarrow> handover \<Rightarrow> ho_event list \<times> handover \<Rightarrow> bool" where
  "ho_keeps c h r \<equiv> balanced h r \<and> ho_inv c (snd r)"

lemma balanced_trans: "balanced h (l1, h1) \<Longrightarrow> balanced h1 (l2, h2) \<Longrightarrow> balanced h (l1 @ l2, h2)"
  unfolding balanced_def by (simp add: add.assoc) (metis add.assoc add.commute)

lemma drop_standby_inv: "ho_inv c h \<Longrightarrow> ho_keeps c h (drop_standby c h)"
  by (auto simp: drop_standby_def ho_defs split: option.splits)

lemma cut_over_inv:
  assumes "ho_inv c h" "same_token env" "ho_standby h = Some sb"
  shows "ho_keeps c h (cut_over c env sb h)"
  using assms
  by (auto simp: cut_over_def take_over_primary_lease_def ho_defs acquire_primary_def same_token_def Let_def split: option.splits sum.splits)

lemma start_opening_inv:
  assumes "ho_inv c h" "\<not> ho_opening h" "ho_standby h = None" "\<not> ho_refresh_pending h"
  shows "ho_keeps c h (snd (start_opening c env h))"
  using assms by (auto simp: start_opening_def ho_defs split: sum.splits)

text \<open>The fields the accounts look at.\<close>

definition same_leases :: "handover \<Rightarrow> handover \<Rightarrow> bool" where
  "same_leases h h' \<longleftrightarrow> ho_opening h' = ho_opening h \<and> ho_opening_lease h' = ho_opening_lease h \<and> ho_primary_lease h' = ho_primary_lease h
     \<and> rel_option (\<lambda>a b. sb_lease a = sb_lease b) (ho_standby h) (ho_standby h')"

lemma same_leases_held: "same_leases h h' \<Longrightarrow> leases_held h' = leases_held h"
  by (auto simp: same_leases_def leases_held_def rel_option_iff split: option.splits)

lemma same_leases_inv:
  assumes "same_leases h h'" "ho_inv c h" "ho_refresh_pending h' \<Longrightarrow> \<not> ho_opening h"
  shows "ho_inv c h'" "balanced h ([], h')"
proof -
  show "ho_inv c h'"
    using assms by (cases "ho_standby h"; cases "ho_standby h'") (simp_all add: same_leases_def ho_inv_def)
  show "balanced h ([], h')" using same_leases_held [OF assms(1)] by (simp add: balanced_def)
qed

lemma maybe_start_cases:
  obtains (quiet) h' where "maybe_start c env eligible live h = ([], h')" "same_leases h h'"
      "ho_refresh_pending h' \<Longrightarrow> ho_refresh_pending h \<or> \<not> ho_opening h \<and> ho_standby h \<noteq> None"
    | (start) "eligible" "\<not> active h"
      "maybe_start c env eligible live h = snd (start_opening c env (h\<lparr>ho_requested := False, ho_last_start := Some (he_mono env)\<rparr>))"
proof -
  have same: "same_leases h h" "same_leases h (h\<lparr>ho_requested := b\<rparr>)" "same_leases h (h\<lparr>ho_requested := b, ho_last_start := x\<rparr>)"
    "same_leases h (h\<lparr>ho_requested := b, ho_last_refresh := x, ho_refresh_pending := b'\<rparr>)" for b b' x
    by (simp_all add: same_leases_def option.rel_refl)
  consider "ho_opening h" | stall sb where "\<not> ho_opening h" "hc_stall_lag_s c = Some stall" "ho_standby h = Some sb" "ho_requested h"
    | "\<not> ho_opening h" "hc_stall_lag_s c = None \<or> ho_standby h = None \<or> \<not> ho_requested h"
    by (metis option.exhaust)
  then show thesis
  proof cases
    case 1
    then show thesis by (intro quiet [of h]) (simp_all add: maybe_start_def same)
  next
    case 2
    then have "maybe_start c env eligible live h = ([], h)
        \<or> maybe_start c env eligible live h = ([], h\<lparr>ho_requested := False, ho_last_refresh := Some (he_mono env), ho_refresh_pending := True\<rparr>)"
      by (simp add: maybe_start_def)
    then show thesis
    proof
      assume "maybe_start c env eligible live h = ([], h)"
      then show thesis by (rule quiet) (simp_all add: same)
    next
      assume "maybe_start c env eligible live h = ([], h\<lparr>ho_requested := False, ho_last_refresh := Some (he_mono env), ho_refresh_pending := True\<rparr>)"
      then show thesis by (rule quiet) (simp_all add: same_leases_def 2)
    qed
  next
    case 3
    let ?h1 = "h\<lparr>ho_requested := False\<rparr>"
    let ?h2 = "?h1\<lparr>ho_last_start := Some (he_mono env)\<rparr>"
    have "maybe_start c env eligible live h =
        (if \<not> (ho_requested h \<or> he_window env = Some True) \<or> \<not> eligible \<or> active h then ([], ?h1)
         else if (case ho_last_start h of Some t \<Rightarrow> fl (he_mono env - t) < hc_cooldown_s c | None \<Rightarrow> False) then ([], ?h1)
         else if (case hc_max_sessions c of Some cap \<Rightarrow> cap \<le> live | None \<Rightarrow> False) then ([], ?h2)
         else snd (start_opening c env ?h2))"
      using 3 by (cases "hc_stall_lag_s c"; cases "ho_standby h"; cases "ho_requested h") (simp_all add: maybe_start_def Let_def)
    then consider "maybe_start c env eligible live h = ([], ?h1)" | "maybe_start c env eligible live h = ([], ?h2)"
      | "eligible" "\<not> active h" "maybe_start c env eligible live h = snd (start_opening c env ?h2)"
      by (metis (no_types))
    then show thesis
      by cases (rule quiet, assumption, simp add: same, simp, rule quiet, assumption, simp add: same, simp, rule start)
  qed
qed

lemma maybe_start_inv:
  assumes "ho_inv c h" "ho_refresh_pending h \<Longrightarrow> \<not> eligible"
  shows "ho_keeps c h (maybe_start c env eligible live h)"
proof (cases c env eligible live h rule: maybe_start_cases)
  case (quiet h')
  then show ?thesis using same_leases_inv [OF quiet(2) assms(1)] assms(1) by (simp add: ho_inv_def) blast
next
  case start
  let ?h = "h\<lparr>ho_requested := False, ho_last_start := Some (he_mono env)\<rparr>"
  have "ho_inv c ?h" "\<not> ho_opening ?h" "ho_standby ?h = None" "\<not> ho_refresh_pending ?h"
    using start(1,2) assms by (simp_all add: ho_inv_def active_def) blast
  from start_opening_inv [OF this, of env] have "balanced ?h (maybe_start c env eligible live h) \<and> ho_inv c (snd (maybe_start c env eligible live h))"
    by (simp only: start(3))
  moreover have "leases_held ?h = leases_held h" by (simp add: leases_held_def)
  ultimately show ?thesis by (simp add: balanced_def)
qed

lemma track_event_simps [simp]:
  "ho_opening (track_event f b h) = ho_opening h" "ho_opening_lease (track_event f b h) = ho_opening_lease h"
  "ho_refresh_pending (track_event f b h) = ho_refresh_pending h" "ho_primary_lease (track_event f b h) = ho_primary_lease h"
  "Option.bind (ho_standby (track_event f b h)) sb_lease = Option.bind (ho_standby h) sb_lease"
  "ho_standby (track_event f b h) = None \<longleftrightarrow> ho_standby h = None" "ho_seen (track_event f b h) = ho_seen h"
  "ho_standby_owner (track_event f b h) = ho_standby_owner h" "ho_refresh_overlap (track_event f b h) = ho_refresh_overlap h"
  by (auto simp: track_event_def note_event_def split: option.splits bool.splits)

lemma track_event_same: "same_leases h (track_event f b h)"
  by (auto simp: same_leases_def track_event_def note_event_def option.rel_refl split: option.splits bool.splits)

lemma admit_same: "same_leases h (snd (admit hash f b h))" "ho_refresh_pending (snd (admit hash f b h)) = ho_refresh_pending h"
  using track_event_same [of h f b] by (auto simp: admit_def same_leases_def Let_def option.rel_refl split: option.splits)

lemma admit_inv: "ho_inv c h \<Longrightarrow> ho_inv c (snd (admit hash f b h)) \<and> leases_held (snd (admit hash f b h)) = leases_held h"
  using same_leases_inv(1) [OF admit_same(1)] same_leases_held [OF admit_same(1)] admit_same(2)
  by (metis ho_inv_def)

lemma ho_keeps_trans: "ho_keeps c h (l1, h1) \<Longrightarrow> ho_keeps c h1 (l2, h2) \<Longrightarrow> ho_keeps c h (l1 @ l2, h2)"
  by (auto intro: balanced_trans)

lemma adopt_inv: "ho_inv c h \<Longrightarrow> ho_keeps c h (adopt c env h)"
  by (cases "ho_opening h"; cases "he_opened env"; cases "the (he_opened env)"; cases "ho_opening_lease h"; cases "hc_ledger c")
    (simp_all add: adopt_def ho_defs Let_def)

lemma tend_opening_inv: "ho_inv c h \<Longrightarrow> ho_keeps c h (tend_opening env h)"
  by (auto simp: tend_opening_def ho_defs split: option.splits)

lemma tend_standby_inv: "ho_inv c h \<Longrightarrow> ho_keeps c h (tend_standby c env h)"
  using drop_standby_inv [of c h] by (auto simp: tend_standby_def balanced_def split: option.splits)

lemma tend_primary_inv: "ho_inv c h \<Longrightarrow> hc_ledger c \<Longrightarrow> ho_keeps c h (tend_primary env h)"
  by (cases "ho_primary_lease h"; cases "he_acquire env PRIMARY") (auto simp: tend_primary_def acquire_primary_def ho_defs)

lemma tend_leases_inv:
  assumes "ho_inv c h" "hc_ledger c"
  shows "ho_keeps c h (tend_leases c env h)"
proof -
  let ?h = "h\<lparr>ho_tended_at := Some (he_mono_tend env)\<rparr>"
  obtain l1 h1 where 1: "tend_opening env ?h = (l1, h1)" by fastforce
  obtain l2 h2 where 2: "tend_standby c env h1 = (l2, h2)" by fastforce
  obtain l3 h3 where 3: "tend_primary env h2 = (l3, h3)" by fastforce
  have "ho_inv c ?h" using assms(1) by (simp add: ho_inv_def)
  then have k1: "ho_keeps c ?h (l1, h1)" using tend_opening_inv 1 by metis
  then have k2: "ho_keeps c h1 (l2, h2)" using tend_standby_inv 2 by (metis snd_conv)
  then have "ho_keeps c h2 (l3, h3)" using tend_primary_inv assms(2) 3 by (metis snd_conv)
  then have "ho_keeps c ?h (l1 @ l2 @ l3, h3)" by (rule ho_keeps_trans [OF k1 ho_keeps_trans [OF k2]])
  then have "ho_keeps c h (l1 @ l2 @ l3, h3)" by (simp add: balanced_def leases_held_def)
  moreover have "ho_keeps c h ([], h)" using assms(1) by (simp add: balanced_def)
  ultimately show ?thesis by (simp add: tend_leases_def 1 2 3)
qed

lemma decide_cut_over_inv:
  assumes "ho_inv c h" "same_token env"
  shows "ho_keeps c h (snd (decide_cut_over c env h))"
  using assms drop_standby_inv [OF assms(1)] cut_over_inv [OF assms]
  by (auto simp: decide_cut_over_def balanced_def Let_def split: option.splits)

lemma refresh_inv:
  assumes "ho_inv c h" "ho_refresh_pending h"
  shows "ho_keeps c h (snd (ho_step c env h))"
proof -
  let ?h0 = "h\<lparr>ho_refresh_pending := False\<rparr>"
  obtain l1 h1 where 1: "drop_standby c ?h0 = (l1, h1)" by fastforce
  define h1' where "h1' = (if ho_standby h \<noteq> None then h1\<lparr>ho_seen := ho_seen h\<rparr> else ?h0)"
  define l1' where "l1' = (if ho_standby h \<noteq> None then l1 else [])"
  obtain b l2 h2 where 2: "start_opening c env h1' = (b, l2, h2)" by (metis prod_cases3)
  have i0: "ho_inv c ?h0" using assms(1) by (simp add: ho_inv_def)
  have "ho_keeps c ?h0 (l1, h1)" using drop_standby_inv [OF i0] 1 by simp
  then have k1: "ho_keeps c ?h0 (l1', h1')"
    using i0 by (cases "ho_standby h = None") (simp_all add: h1'_def l1'_def balanced_def leases_held_def ho_inv_def)
  have "\<not> ho_opening h" using assms by (simp add: ho_inv_def)
  then have "\<not> ho_opening h1'" "ho_standby h1' = None" "\<not> ho_refresh_pending h1'"
    using 1 by (auto simp: h1'_def drop_standby_def split: option.splits)
  then have "ho_keeps c h1' (l2, h2)" using start_opening_inv [of c h1' env] k1 2 by simp
  then have "ho_keeps c ?h0 (l1' @ l2, h2)" by (rule ho_keeps_trans [OF k1])
  moreover have "snd (ho_step c env h) = (l1' @ l2, h2\<lparr>ho_refresh_overlap := b\<rparr>)"
    using assms(2) 1 2 by (cases "ho_standby h") (simp_all add: ho_step_def h1'_def l1'_def Let_def)
  ultimately show ?thesis by (simp add: balanced_def leases_held_def ho_inv_def)
qed

lemma ho_step_inv:
  assumes "ho_inv c h" "same_token env"
  shows "ho_keeps c h (snd (ho_step c env h))"
proof (cases "ho_refresh_pending h")
  case True
  then show ?thesis by (rule refresh_inv [OF assms(1)])
next
  case False
  obtain l1 h1 where 1: "adopt c env h = (l1, h1)" by fastforce
  obtain l2 h2 where 2: "(if hc_ledger c then tend_leases c env h1 else ([], h1)) = (l2, h2)" by fastforce
  obtain cut l3 h3 where 3: "decide_cut_over c env h2 = (cut, l3, h3)" by (metis prod_cases3)
  have k1: "ho_keeps c h (l1, h1)" using adopt_inv [OF assms(1), of env] 1 by simp
  then have k2: "ho_keeps c h1 (l2, h2)" using 2 tend_leases_inv [of c h1 env] by (cases "hc_ledger c") (auto simp: balanced_def)
  then have "ho_keeps c h2 (l3, h3)" using decide_cut_over_inv [OF _ assms(2), of c h2] 3 by simp
  then have "ho_keeps c h (l1 @ l2 @ l3, h3)" by (rule ho_keeps_trans [OF k1 ho_keeps_trans [OF k2]])
  then show ?thesis using False 1 2 3 by (simp add: ho_step_def)
qed

lemma ho_aclose_inv: "ho_inv c h \<Longrightarrow> ho_keeps c h (ho_aclose c env h)"
  by (cases "ho_opening h"; cases "ho_standby h"; cases "ho_opening_lease h"; cases "hc_ledger c"; cases "he_aclose_opened env")
    (auto simp: ho_aclose_def drop_standby_def ho_defs)

lemma ho_aclose_closed: "\<not> active (snd (ho_aclose c env h))" "ho_inv c h \<Longrightarrow> ho_opening_lease (snd (ho_aclose c env h)) = None"
  by (cases "ho_opening h"; cases "ho_standby h"; simp add: ho_aclose_def drop_standby_def active_def ho_inv_def)+

lemma on_primary_failure_inv: "ho_inv c h \<Longrightarrow> same_token env \<Longrightarrow> ho_keeps c h (snd (on_primary_failure c env h))"
  using cut_over_inv [of c h env] by (auto simp: on_primary_failure_def balanced_def split: option.splits)

text \<open>No call but \<open>maybe_start\<close> leaves a refresh pending, and a step always serves it.\<close>

lemma pending_simps [simp]:
  "ho_refresh_pending (snd (drop_standby c h)) = ho_refresh_pending h"
  "ho_refresh_pending (snd (cut_over c env sb h)) = ho_refresh_pending h"
  "ho_refresh_pending (snd (adopt c env h)) = ho_refresh_pending h"
  "ho_refresh_pending (snd (tend_opening env h)) = ho_refresh_pending h"
  "ho_refresh_pending (snd (tend_primary env h)) = ho_refresh_pending h"
  "ho_refresh_pending (snd (snd (start_opening c env h))) = ho_refresh_pending h"
  by (auto simp: drop_standby_def cut_over_def take_over_primary_lease_def adopt_def tend_opening_def tend_primary_def start_opening_def Let_def
      split: option.splits bool.splits sum.splits prod.splits)

lemma on_primary_failure_pending: "ho_refresh_pending (snd (snd (on_primary_failure c env h))) = ho_refresh_pending h"
  by (cases "ho_standby h") (simp_all add: on_primary_failure_def)

lemma tend_leases_pending [simp]: "ho_refresh_pending (snd (tend_leases c env h)) = ho_refresh_pending h"
proof -
  have "ho_refresh_pending (snd (tend_standby c env h)) = ho_refresh_pending h" for h
    by (auto simp: tend_standby_def split: option.splits)
  then show ?thesis
    using pending_simps(4,5) [of env] by (simp add: tend_leases_def split_beta Let_def)
qed

lemma ho_step_pending: "\<not> ho_refresh_pending (snd (snd (ho_step c env h)))"
proof (cases "ho_refresh_pending h")
  case True
  then show ?thesis by (simp add: ho_step_def split_beta Let_def)
next
  case False
  moreover have "ho_refresh_pending (snd (snd (decide_cut_over c env h))) = ho_refresh_pending h" for h
    by (auto simp: decide_cut_over_def Let_def split: option.splits)
  ultimately show ?thesis by (simp add: ho_step_def split_beta Let_def)
qed

text \<open>Between the turns of the loop a refresh is pending only after an aborted pump, before the first frame of the next.\<close>

definition pump_inv :: "handover_cfg \<Rightarrow> pump \<Rightarrow> bool" where
  "pump_inv c p \<longleftrightarrow> ho_inv c (pu_handover p) \<and> (ho_refresh_pending (pu_handover p) \<longrightarrow> pu_frames p = 0)"

definition op_ok :: "pump_op \<Rightarrow> bool" where
  "op_ok op = (case op of OpTurn t \<Rightarrow> same_token (tn_env t) | OpAbort t \<Rightarrow> same_token (tn_env t) | _ \<Rightarrow> True)"

abbreviation pump_keeps :: "handover_cfg \<Rightarrow> handover \<Rightarrow> ho_event list \<times> pump \<Rightarrow> bool" where
  "pump_keeps c h r \<equiv> balanced h (fst r, pu_handover (snd r)) \<and> pump_inv c (snd r)"

lemma pump_end_inv: "ho_inv c h \<Longrightarrow> pump_keeps c h (pump_end c env h)"
  using ho_aclose_inv [of c h env] by (simp add: pump_end_def split_beta pump_inv_def)

lemma turn_start_inv: "pump_inv c p \<Longrightarrow> ho_keeps c (pu_handover p) (turn_start c t p)"
  unfolding turn_start_def by (rule maybe_start_inv) (simp_all add: pump_inv_def)

lemma turn_standby_inv:
  assumes "ho_inv c (pu_handover p)"
  shows "ho_inv c (pu_handover (turn_standby hash t p)) \<and> leases_held (pu_handover (turn_standby hash t p)) = leases_held (pu_handover p)"
  using assms admit_inv [of c "pu_handover p" hash "the (tn_standby t)" True]
  by (auto simp: turn_standby_def split_beta split: option.splits)

lemma turn_primary_inv:
  assumes "ho_inv c (pu_handover p)" "\<not> ho_refresh_pending (pu_handover p)" "same_token (tn_env t)"
  shows "pump_keeps c (pu_handover p) (turn_primary hash c t p)"
proof (cases "tn_primary t")
  case PrimaryIdle
  then show ?thesis using assms by (simp add: turn_primary_def balanced_def pump_inv_def)
next
  case (PrimaryFrame f)
  then show ?thesis using assms admit_inv [OF assms(1), of hash f False] admit_same(2) [of hash f False "pu_handover p"]
    by (simp add: turn_primary_def balanced_def pump_inv_def)
next
  case PrimaryFailed
  obtain cut l h where 1: "on_primary_failure c (tn_env t) (pu_handover p) = (cut, l, h)" by (metis prod_cases3)
  have k: "ho_keeps c (pu_handover p) (l, h)" using on_primary_failure_inv [OF assms(1,3)] 1 by simp
  have "\<not> ho_refresh_pending h" using on_primary_failure_pending [of c "tn_env t" "pu_handover p"] 1 assms(2) by simp
  moreover obtain l' p' where 2: "pump_end c (tn_env t) h = (l', p')" by fastforce
  moreover have "pump_keeps c h (l', p')" using pump_end_inv [of c h "tn_env t"] k 2 by simp
  ultimately show ?thesis using PrimaryFailed 1 k balanced_trans [of "pu_handover p" l h l' "pu_handover p'"]
    by (cases cut) (simp_all add: turn_primary_def pump_inv_def)
qed

lemma pump_turn_inv:
  assumes "pump_inv c p" "same_token (tn_env t)"
  shows "pump_keeps c (pu_handover p) (pump_turn hash c t p)"
proof -
  obtain l1 h1 where 1: "turn_start c t p = (l1, h1)" by fastforce
  define p2 where "p2 = turn_standby hash t (p\<lparr>pu_handover := h1\<rparr>)"
  obtain cut l3 h3 where 3: "ho_step c (tn_env t) (pu_handover p2) = (cut, l3, h3)" by (metis prod_cases3)
  obtain l4 p4 where 4: "(if cut \<noteq> None then ([], p2\<lparr>pu_handover := h3\<rparr>) else turn_primary hash c t (p2\<lparr>pu_handover := h3\<rparr>)) = (l4, p4)"
    by fastforce
  have k1: "ho_keeps c (pu_handover p) (l1, h1)" using turn_start_inv [OF assms(1), of t] 1 by simp
  then have i2: "ho_inv c (pu_handover p2)" "leases_held (pu_handover p2) = leases_held h1"
    using turn_standby_inv [of c "p\<lparr>pu_handover := h1\<rparr>" hash t] by (simp_all add: p2_def)
  have "ho_keeps c (pu_handover p2) (l3, h3)" using ho_step_inv [OF i2(1) assms(2)] 3 by simp
  then have k3: "ho_keeps c h1 (l3, h3)" using i2(2) by (simp add: balanced_def)
  have n3: "\<not> ho_refresh_pending h3" using ho_step_pending [of c "tn_env t" "pu_handover p2"] 3 by simp
  have k4: "pump_keeps c h3 (l4, p4)"
    using 4 k3 n3 turn_primary_inv [of c "p2\<lparr>pu_handover := h3\<rparr>" t hash] assms(2)
    by (cases cut) (auto simp: balanced_def pump_inv_def)
  have "balanced (pu_handover p) (l1 @ l3 @ l4, pu_handover p4)"
    using k1 k3 k4 by (auto intro: balanced_trans)
  moreover have "pump_turn hash c t p = (l1 @ l3 @ l4, p4)"
    using 4 by (cases cut) (simp_all add: pump_turn_def 1 3 flip: p2_def)
  ultimately show ?thesis using k4 by simp
qed

lemma pump_apply_inv:
  assumes "pump_inv c p" "op_ok op"
  shows "pump_keeps c (pu_handover p) (pump_apply hash c op p)"
proof (cases op)
  case OpRequest
  then show ?thesis using assms(1) by (simp add: balanced_def leases_held_def pump_inv_def ho_inv_def)
next
  case (OpTurn t)
  then show ?thesis using pump_turn_inv [OF assms(1), of t hash] assms(2) by (simp add: op_ok_def)
next
  case (OpAbort t)
  obtain l1 h1 where 1: "turn_start c t p = (l1, h1)" by fastforce
  obtain l2 p2 where 2: "pump_end c (tn_env t) h1 = (l2, p2)" by fastforce
  have k1: "ho_keeps c (pu_handover p) (l1, h1)" using turn_start_inv [OF assms(1), of t] 1 by simp
  then have "pump_keeps c h1 (l2, p2)" using pump_end_inv [of c h1 "tn_env t"] 2 by simp
  with k1 show ?thesis using balanced_trans [of "pu_handover p" l1 h1 l2] by (simp add: OpAbort 1 2)
next
  case (OpEnd env)
  then show ?thesis using pump_end_inv [of c "pu_handover p" env] assms(1) by (simp add: pump_inv_def)
next
  case OpReleasePrimary
  then show ?thesis using assms(1)
    by (cases "ho_primary_lease (pu_handover p)") (auto simp: release_primary_lease_def ho_defs pump_inv_def)
qed

lemma pump_run_inv: "pump_inv c p \<Longrightarrow> list_all op_ok ops \<Longrightarrow> pump_keeps c (pu_handover p) (pump_run hash c ops p)"
proof (induction ops arbitrary: p)
  case Nil
  then show ?case by (simp add: balanced_def)
next
  case (Cons op ops)
  obtain l1 p1 where 1: "pump_apply hash c op p = (l1, p1)" by fastforce
  obtain l2 p2 where 2: "pump_run hash c ops p1 = (l2, p2)" by fastforce
  have k1: "pump_keeps c (pu_handover p) (l1, p1)" using pump_apply_inv [of c p op hash] Cons.prems 1 by simp
  then have "pump_keeps c (pu_handover p1) (l2, p2)" using Cons.IH [of p1] Cons.prems(2) 2 by simp
  with k1 show ?case using balanced_trans [of "pu_handover p" l1 "pu_handover p1" l2] by (simp add: 1 2)
qed

lemma pump_run_append:
  "pump_run hash c (xs @ ys) p = (let (lg, p1) = pump_run hash c xs p; (lg', p2) = pump_run hash c ys p1 in (lg @ lg', p2))"
  by (induction xs arbitrary: p) (simp_all add: split_beta Let_def)

lemma closing_run:
  assumes "pump_inv c p"
  shows "leases_held (pu_handover (snd (pump_run hash c [OpEnd env, OpReleasePrimary] p))) = {#}"
    "\<not> active (pu_handover (snd (pump_run hash c [OpEnd env, OpReleasePrimary] p)))"
proof -
  have "ho_opening_lease (snd (ho_aclose c env (pu_handover p))) = None" using ho_aclose_closed(2) assms by (simp add: pump_inv_def)
  then show "leases_held (pu_handover (snd (pump_run hash c [OpEnd env, OpReleasePrimary] p))) = {#}"
    using ho_aclose_closed(1) [of c env "pu_handover p"] by (simp add: pump_end_def release_primary_lease_def split_beta leases_held_def active_def)
  show "\<not> active (pu_handover (snd (pump_run hash c [OpEnd env, OpReleasePrimary] p)))"
    using ho_aclose_closed(1) [of c env "pu_handover p"] by (simp add: pump_end_def release_primary_lease_def split_beta active_def)
qed

section \<open>Duplicate suppression\<close>

fun admit_all :: "hashing \<Rightarrow> (l0_frame \<times> bool) list \<Rightarrow> handover \<Rightarrow> bool list \<times> handover" where
  "admit_all hash [] h = ([], h)"
| "admit_all hash ((f, b) # fs) h = (let (ok, h1) = admit hash f b h; (oks, h2) = admit_all hash fs h1 in (ok # oks, h2))"

text \<open>The connection that delivered the payload first.\<close>

definition first_from :: "(l0_frame \<times> bool) list \<Rightarrow> l0_frame \<Rightarrow> bool option" where
  "first_from fs f = map_option snd (find (\<lambda>g. payload (fst g) = payload f) fs)"

lemma first_from_append: "first_from (xs @ ys) f = (case first_from xs f of None \<Rightarrow> first_from ys f | Some b \<Rightarrow> Some b)"
  by (induction xs) (auto simp: first_from_def)

definition seen_of :: "hashing \<Rightarrow> nat \<Rightarrow> (l0_frame \<times> bool) list \<Rightarrow> (int, nat) dict \<Rightarrow> bool" where
  "seen_of hash own fs seen \<longleftrightarrow> length seen \<le> length fs
     \<and> (\<forall>f. (\<forall>g\<in>set fs. hash (payload (fst g)) = hash (payload f) \<longrightarrow> payload (fst g) = payload f)
           \<longrightarrow> map_of seen (hash (payload f)) = map_option (\<lambda>b. if b then own else 0) (first_from fs f))"

lemma admit_seen:
  assumes "ho_standby h \<noteq> None" "length (ho_seen h) \<le> SEEN_CAP"
  shows "fst (admit hash f b h) \<longleftrightarrow> (case map_of (ho_seen h) (hash (payload f)) of None \<Rightarrow> True | Some w \<Rightarrow> w = (if b then ho_standby_owner h else 0))"
    "ho_seen (snd (admit hash f b h)) = (if map_of (ho_seen h) (hash (payload f)) = None
       then ho_seen h @ [(hash (payload f), if b then ho_standby_owner h else 0)] else ho_seen h)"
    "ho_standby (snd (admit hash f b h)) \<noteq> None" "ho_standby_owner (snd (admit hash f b h)) = ho_standby_owner h"
proof -
  have ev: "evict_seen (ho_seen h) = ho_seen h" using assms(2) by (simp add: evict_seen_def)
  show "fst (admit hash f b h) \<longleftrightarrow> (case map_of (ho_seen h) (hash (payload f)) of None \<Rightarrow> True | Some w \<Rightarrow> w = (if b then ho_standby_owner h else 0))"
    "ho_seen (snd (admit hash f b h)) = (if map_of (ho_seen h) (hash (payload f)) = None
       then ho_seen h @ [(hash (payload f), if b then ho_standby_owner h else 0)] else ho_seen h)"
    "ho_standby_owner (snd (admit hash f b h)) = ho_standby_owner h"
    using assms(1) ev by (cases "map_of (ho_seen h) (hash (payload f))"; auto simp: admit_def Let_def)+
  show "ho_standby (snd (admit hash f b h)) \<noteq> None"
    using admit_same(1) [of h hash f b] assms(1) by (auto simp: same_leases_def rel_option_iff split: option.splits)
qed

lemma admit_all_firsts:
  assumes "seen_of hash (ho_standby_owner h) past (ho_seen h)" "ho_standby h \<noteq> None" "ho_standby_owner h \<noteq> 0"
    "length past + length fs \<le> SEEN_CAP" "inj_on hash (payload ` fst ` set (past @ fs))" "i < length fs"
  shows "fst (admit_all hash fs h) ! i \<longleftrightarrow> first_from (past @ fs) (fst (fs ! i)) = Some (snd (fs ! i))"
  using assms
proof (induction fs arbitrary: past h i)
  case (Cons g fs)
  obtain f b where g: "g = (f, b)" by fastforce
  let ?h = "snd (admit hash f b h)" and ?o = "ho_standby_owner h"
  have seen: "length (ho_seen h) \<le> length past" "length (ho_seen h) \<le> SEEN_CAP"
    using Cons.prems(1,4) by (simp_all add: seen_of_def)
  note ad = admit_seen [OF Cons.prems(2) seen(2), of hash f b]
  have inj: "payload (fst x) = payload (fst y)" if "hash (payload (fst x)) = hash (payload (fst y))" "x \<in> set (past @ g # fs)" "y \<in> set (past @ g # fs)" for x y
    using inj_onD [OF Cons.prems(5) that(1)] that(2,3) by blast
  have look: "map_of (ho_seen h) (hash (payload f)) = map_option (\<lambda>b. if b then ?o else 0) (first_from past f)"
    using Cons.prems(1) inj [of _ g] unfolding seen_of_def g by auto
  have first: "first_from (past @ g # fs) f = (case first_from past f of None \<Rightarrow> Some b | Some b' \<Rightarrow> Some b')"
    by (cases "first_from past f") (simp_all add: first_from_append g, simp add: first_from_def)
  have head: "fst (admit hash f b h) \<longleftrightarrow> first_from (past @ g # fs) f = Some b"
    using ad(1) Cons.prems(3) by (auto simp: look first split: option.splits if_splits)
  have "seen_of hash ?o (past @ [g]) (ho_seen ?h)"
  proof -
    have "map_of (ho_seen ?h) (hash (payload f')) = map_option (\<lambda>b. if b then ?o else 0) (first_from (past @ [g]) f')"
      if "\<forall>x\<in>set (past @ [g]). hash (payload (fst x)) = hash (payload f') \<longrightarrow> payload (fst x) = payload f'" for f'
    proof (cases "payload f' = payload f")
      case True
      then have "first_from past f' = first_from past f" "first_from [g] f' = Some b" by (simp_all add: first_from_def g)
      then show ?thesis using ad(2) True look by (cases "first_from past f") (simp_all add: first_from_append map_add_def split: option.splits)
    next
      case False
      then have ne: "hash (payload f') \<noteq> hash (payload f)" using that by (auto simp: g)
      have "map_of (ho_seen h) (hash (payload f')) = map_option (\<lambda>b. if b then ?o else 0) (first_from past f')"
        using Cons.prems(1) that by (simp add: seen_of_def)
      moreover have "first_from [g] f' = None" using False by (auto simp: first_from_def g)
      ultimately show ?thesis using ad(2) ne by (simp add: first_from_append map_add_def split: option.splits)
    qed
    then show ?thesis using ad(2) seen(1) by (simp add: seen_of_def)
  qed
  then have tail: "fst (admit_all hash fs ?h) ! j \<longleftrightarrow> first_from ((past @ [g]) @ fs) (fst (fs ! j)) = Some (snd (fs ! j))" if "j < length fs" for j
    using Cons.IH [of ?h "past @ [g]" j] ad(3,4) Cons.prems that by simp
  show ?case
    using head tail Cons.prems(6) by (cases i) (simp_all add: g split_beta Let_def)
qed simp

section \<open>Properties\<close>

text \<open>
  C26. A handover accounts for every connection slot. Take any sequence of receive-loop turns, swap requests, aborted
  turns, pump endings and primary releases from a new handover. The slot it was given and the slots it acquired are
  exactly those it holds and those it released or gave up as lost. It never has a bring-up and a standby at once, and a
  standby has a slot exactly when there is a ledger. Ending the pump and releasing the primary slot leaves none held.
\<close>

theorem handover_accounts_leases:
  assumes new: "new_handover max_s cooldown_s max_sessions stall_lag_s refresh_cooldown_s ledger ttl primary now = Inr (c, h)"
    and primary: "ledger \<or> primary = None"
    and ops: "list_all op_ok ops"
    and run: "pump_run hash c ops \<lparr>pu_frames = 0, pu_handover = h\<rparr> = (lg, p)"
  shows "token_bag primary + acquired lg = leases_held (pu_handover p) + given_up lg
    \<and> \<not> (ho_opening (pu_handover p) \<and> ho_standby (pu_handover p) \<noteq> None)
    \<and> (case ho_standby (pu_handover p) of Some sb \<Rightarrow> ledger \<longleftrightarrow> sb_lease sb \<noteq> None | None \<Rightarrow> True)
    \<and> (case pump_run hash c (ops @ [OpEnd env, OpReleasePrimary]) \<lparr>pu_frames = 0, pu_handover = h\<rparr> of (lg', p') \<Rightarrow>
         token_bag primary + acquired lg' = given_up lg' \<and> \<not> active (pu_handover p'))"
proof -
  let ?p = "\<lparr>pu_frames = 0, pu_handover = h\<rparr>" and ?fin = "[OpEnd env, OpReleasePrimary]"
  have h: "hc_ledger c = ledger" "leases_held h = token_bag primary" "pump_inv c ?p"
    using new primary by (auto simp: new_handover_def leases_held_def pump_inv_def ho_inv_def split: if_splits option.splits)
  have k: "pump_keeps c h (lg, p)" using pump_run_inv [OF h(3) ops, of hash] run by simp
  have "list_all op_ok (ops @ ?fin)" using ops by (simp add: op_ok_def)
  from pump_run_inv [OF h(3) this, of hash] have "pump_keeps c h (pump_run hash c (ops @ ?fin) ?p)" by simp
  moreover have "snd (pump_run hash c (ops @ ?fin) ?p) = snd (pump_run hash c ?fin p)"
    by (simp only: pump_run_append run split_beta Let_def fst_conv snd_conv)
  ultimately have fin: "token_bag primary + acquired (fst (pump_run hash c (ops @ ?fin) ?p)) = given_up (fst (pump_run hash c (ops @ ?fin) ?p))"
    "\<not> active (pu_handover (snd (pump_run hash c (ops @ ?fin) ?p)))"
    using closing_run [of c p hash env] k h(2) by (simp_all add: balanced_def)
  moreover have "token_bag primary + acquired lg = leases_held (pu_handover p) + given_up lg" using k h(2) by (simp add: balanced_def)
  moreover have "ho_inv c (pu_handover p)" using k by (simp add: pump_inv_def)
  ultimately show ?thesis using h(1) by (cases "ho_standby (pu_handover p)") (simp_all add: ho_inv_def split_beta)
qed

definition demo_slot :: "lease_role \<Rightarrow> lease" where
  "demo_slot r = \<lparr>ls_vendor = ''kis'', ls_key_id = ''k'', ls_owner = ''w'', ls_role = r, ls_token = lease_role_value r, ls_expires_ns = 0\<rparr>"

definition demo_ho_env :: "nat option option \<Rightarrow> handover_env" where
  "demo_ho_env opened = \<lparr>he_mono = 10, he_mono_tend = 10, he_mono_expiry = 10, he_wall_sod = 0, he_window = None, he_opened = opened, he_recv = RecvPending,
     he_acquire = (\<lambda>r. Inr (demo_slot r)), he_renew = (\<lambda>_. Inr True), he_promote = Inr, he_aclose_opened = None\<rparr>"

definition demo_frame :: "string \<Rightarrow> l0_frame" where
  "demo_frame raw = \<lparr>f_vendor = ''kis'', f_stream = ''x'', f_symbol = ''005930'', f_raw = raw, f_recv_mono_ns = 0, f_recv_wall_ns = 0, f_conn_seq = 0, f_conn_id = ''c'',
     f_venue = KRX, f_session = REGULAR_SESSION, f_exchange_event_time = []\<rparr>"

definition demo_turns :: "pump_op list" where
  "demo_turns = [OpTurn \<lparr>tn_env = demo_ho_env None, tn_standby = None, tn_primary = PrimaryFrame (demo_frame ''a'')\<rparr>, OpRequest,
     OpTurn \<lparr>tn_env = demo_ho_env None, tn_standby = None, tn_primary = PrimaryIdle\<rparr>,
     OpTurn \<lparr>tn_env = demo_ho_env (Some (Some 7)), tn_standby = None, tn_primary = PrimaryFailed\<rparr>]"

definition demo_ho :: "handover_cfg \<times> handover" where
  "demo_ho = the (case new_handover 30 0 None None 30 True 3 (Some (demo_slot PRIMARY)) 10 of Inr r \<Rightarrow> Some r | Inl _ \<Rightarrow> None)"

text \<open>The demonstration: a frame, a swap request, the bring-up and its adoption, then the live connection fails and the standby takes over.\<close>

lemma demo_new: "new_handover 30 0 None None 30 True 3 (Some (demo_slot PRIMARY)) 10 = Inr (fst demo_ho, snd demo_ho)"
  by (simp add: demo_ho_def new_handover_def)

theorem handover_accounts_leases_witness:
  "case pump_run (\<lambda>_. 0) (fst demo_ho) demo_turns \<lparr>pu_frames = 0, pu_handover = snd demo_ho\<rparr> of (lg, p) \<Rightarrow>
     token_bag (Some (demo_slot PRIMARY)) + acquired lg = leases_held (pu_handover p) + given_up lg"
proof -
  have "list_all op_ok demo_turns" by (simp add: demo_turns_def op_ok_def same_token_def demo_ho_env_def)
  from handover_accounts_leases [OF demo_new _ this surjective_pairing, of "\<lambda>_. 0" "demo_ho_env None"] show ?thesis
    by (simp add: split_beta)
qed


definition demo_overlap :: handover where
  "demo_overlap = (snd demo_ho)\<lparr>ho_standby := Some \<lparr>sb_adapter = 7, sb_started = 0, sb_first_event_s = None, sb_newest_event_s = None, sb_lease = None\<rparr>,
     ho_standby_owner := 1\<rparr>"


end
