(* ===== verification/Intraday.thy ===== *)
theory Intraday
  imports JsonFiles Membership CollectionWindows PyCalendar LsSharding "HOL-Library.Product_Lexorder"
begin

text \<open>
  Intraday admission: the policy and the admissions file of \<open>src/universe/intraday.py\<close>, the discovery loop of
  \<open>src/cli/collect_intraday_discovery.py\<close>, the day's static rows of \<open>src/orchestration/daemon.py\<close> and the watcher of
  \<open>src/realtime/session.py\<close> that subscribes what was admitted. The processes meet in two files, the membership
  ledger (its decoded lines) and the admissions file. Vendor answers, clock readings and the failure of a write are
  fields of an environment; a failed append leaves the ledger as it was. Snapshots written for research are left out.
\<close>

section \<open>The admission rule\<close>

record intraday_cfg =
  ia_poll_interval_s :: rat
  ia_start_after_open_s :: rat
  ia_admission_cutoff :: time
  ia_post_close_screen_at :: time
  ia_min_abs_change_pct :: rat
  ia_min_trade_value_krw :: int

record kiwoom_row =
  kw_rank :: int
  kw_symbol :: string
  kw_last_price :: int
  kw_change_pct :: rat
  kw_trade_value_krw :: int

record admission_state =
  as_collected :: "string set"
  as_ineligible :: "string set"
  as_capacity_left :: "(string, int) dict"

record admission =
  ad_symbol :: string
  ad_feed :: string
  ad_change_pct :: rat
  ad_trade_value_krw :: int
  ad_direction :: string

record admission_decision =
  dn_admitted :: "admission list"
  dn_rejected :: "(string \<times> string) list"

record dynamic_entry =
  dy_symbol :: string
  dy_feed :: string
  dy_decided_at_ns :: int

record dynamic_plan =
  dp_rev :: int
  dp_entries :: "dynamic_entry list"

definition symbols_for :: "dynamic_plan \<Rightarrow> string \<Rightarrow> string list" where
  "symbols_for p feed = map dy_symbol (filter (\<lambda>e. dy_feed e = feed) (dp_entries p))"

definition qualifies :: "kiwoom_row \<Rightarrow> intraday_cfg \<Rightarrow> bool" where
  "qualifies row cfg \<longleftrightarrow> ia_min_abs_change_pct cfg \<le> \<bar>kw_change_pct row\<bar> \<and> ia_min_trade_value_krw cfg \<le> kw_trade_value_krw row"

definition move_direction :: "kiwoom_row \<Rightarrow> string" where
  "move_direction row = (if 0 < kw_change_pct row then ''up'' else ''down'')"

text \<open>The first loop of \<open>decide_admissions\<close>: seen symbols, rejections and qualifiers, each in order.\<close>

type_synonym scan = "string set \<times> (string \<times> string) list \<times> kiwoom_row list"

definition scan_ranking :: "intraday_cfg \<Rightarrow> admission_state \<Rightarrow> kiwoom_row \<Rightarrow> scan \<Rightarrow> scan" where
  "scan_ranking cfg st row acc = (case acc of (seen, rejected, qualifiers) \<Rightarrow>
     if kw_symbol row \<in> seen \<or> kw_symbol row \<in> as_collected st \<or> \<not> qualifies row cfg then acc
     else if kw_symbol row \<in> as_ineligible st then (insert (kw_symbol row) seen, rejected @ [(kw_symbol row, ''ineligible'')], qualifiers)
     else (insert (kw_symbol row) seen, rejected, qualifiers @ [row]))"

definition first_feed :: "(string, int) dict \<Rightarrow> string option" where
  "first_feed remaining = map_option fst (find (\<lambda>(_, left). 0 < left) remaining)"

fun fill_feeds :: "kiwoom_row list \<Rightarrow> (string, int) dict \<Rightarrow> admission list \<times> (string \<times> string) list" where
  "fill_feeds [] remaining = ([], [])"
| "fill_feeds (row # rows) remaining = (case first_feed remaining of
     None \<Rightarrow> (let (admitted, rejected) = fill_feeds rows remaining in (admitted, (kw_symbol row, ''capacity'') # rejected))
   | Some feed \<Rightarrow>
       let left = (case map_of remaining feed of None \<Rightarrow> 0 | Some n \<Rightarrow> n);
           (admitted, rejected) = fill_feeds rows (AList.update feed (left - 1) remaining)
       in (\<lparr>ad_symbol = kw_symbol row, ad_feed = feed, ad_change_pct = kw_change_pct row,
             ad_trade_value_krw = kw_trade_value_krw row, ad_direction = move_direction row\<rparr> # admitted, rejected))"

definition by_value :: "kiwoom_row \<Rightarrow> int \<times> string" where
  "by_value row = (- kw_trade_value_krw row, kw_symbol row)"

definition decide_admissions :: "kiwoom_row list \<Rightarrow> admission_state \<Rightarrow> intraday_cfg \<Rightarrow> admission_decision" where
  "decide_admissions rows st cfg =
     (case fold (scan_ranking cfg st) rows ({}, [], []) of (_, rejected, qualifiers) \<Rightarrow>
        let (admitted, full) = fill_feeds (sort_key by_value qualifiers) (as_capacity_left st)
        in \<lparr>dn_admitted = admitted, dn_rejected = rejected @ full\<rparr>)"

definition feed_capacities :: "int \<Rightarrow> int \<Rightarrow> string option \<Rightarrow> (string, int) dict" where
  "feed_capacities ls_reserve_symbols kis_slot_symbols kis_slot =
     map (\<lambda>(feed, n). (feed, max 0 n))
       ((''ls:1'', ls_reserve_symbols) # (case kis_slot of None \<Rightarrow> [] | Some slot \<Rightarrow> [(''kis:'' @ slot, kis_slot_symbols)]))"

definition feed_of :: "membership_row \<Rightarrow> string result" where
  "feed_of row = (case m_ls_shard row of
       Some shard \<Rightarrow> Inr (''ls:'' @ show_int shard)
     | None \<Rightarrow> (case m_kis_slot row of
          Some slot \<Rightarrow> Inr (''kis:'' @ slot)
        | None \<Rightarrow> Inl (KrxAlphaError (''dynamic membership row has no feed: '' @ m_symbol row))))"

definition use_capacity :: "membership_row \<Rightarrow> (string, int) dict \<Rightarrow> (string, int) dict result" where
  "use_capacity row left =
     (if m_source row \<noteq> ''dynamic'' then Inr left
      else rbind (feed_of row) (\<lambda>feed. Inr (case map_of left feed of None \<Rightarrow> left | Some n \<Rightarrow> AList.update feed (max 0 (n - 1)) left)))"

definition is_collected :: "membership_row \<Rightarrow> bool" where
  "is_collected row \<longleftrightarrow> m_tier row \<in> {''A'', ''B''} \<and> m_source row \<in> {''static'', ''dynamic''}"

definition state_from_ledger :: "membership_row list \<Rightarrow> string set \<Rightarrow> (string, int) dict \<Rightarrow> admission_state result" where
  "state_from_ledger rows ineligible capacity =
     rbind (effective_tiers rows) (\<lambda>tiers.
     rbind (rfold use_capacity rows capacity) (\<lambda>left.
       Inr \<lparr>as_collected = set (map fst (filter (\<lambda>(_, row). is_collected row) tiers)), as_ineligible = ineligible, as_capacity_left = left\<rparr>))"

section \<open>The admissions file\<close>

text \<open>An \<open>OSError\<close> is caught together with the application's errors, and stands under one constructor with them here.\<close>

definition entry_of :: "json \<Rightarrow> dynamic_entry option" where
  "entry_of j = Option.bind (str_item j ''symbol'') (\<lambda>symbol. Option.bind (str_item j ''feed'') (\<lambda>feed.
     map_option (\<lambda>at_ns. \<lparr>dy_symbol = symbol, dy_feed = feed, dy_decided_at_ns = at_ns\<rparr>) (int_item j ''decided_at_ns'')))"

definition plan_of :: "json \<Rightarrow> dynamic_plan option" where
  "plan_of j = (case (item j ''rev'', item j ''entries'') of
       (Some (JInt n), Some (JList items)) \<Rightarrow>
         if n < 0 then None else map_option (\<lambda>es. \<lparr>dp_rev = n, dp_entries = es\<rparr>) (all_some (map entry_of items))
     | _ \<Rightarrow> None)"

definition read_dynamic_admissions :: "text_file \<Rightarrow> dynamic_plan result" where
  "read_dynamic_admissions f = (case f of
       FileMissing \<Rightarrow> Inr \<lparr>dp_rev = 0, dp_entries = []\<rparr>
     | FileUnreadable \<Rightarrow> Inl (KrxAlphaError ''unreadable dynamic admissions file'')
     | FileText body \<Rightarrow> (case Option.bind body plan_of of
          None \<Rightarrow> Inl (KrxAlphaError ''invalid dynamic admissions file'')
        | Some p \<Rightarrow> if list_ex (\<lambda>e. \<not> is_krx_short_code (JStr (dy_symbol e))) (dp_entries p)
            then Inl (KrxAlphaError ''invalid symbol in dynamic admissions file'') else Inr p))"

definition dyn_entry_json :: "dynamic_entry \<Rightarrow> json" where
  "dyn_entry_json e = JObj [(''decided_at_ns'', JInt (dy_decided_at_ns e)), (''feed'', JStr (dy_feed e)), (''symbol'', JStr (dy_symbol e))]"

definition plan_json :: "dynamic_plan \<Rightarrow> json" where
  "plan_json p = JObj [(''entries'', JList (map dyn_entry_json (dp_entries p))), (''rev'', JInt (dp_rev p))]"

definition write_dynamic_admissions :: "bool \<Rightarrow> dynamic_plan \<Rightarrow> text_file \<Rightarrow> unit result \<times> text_file" where
  "write_dynamic_admissions write_ok p f = (case read_dynamic_admissions f of
       Inl e \<Rightarrow> (Inl e, f)
     | Inr current \<Rightarrow>
         if dp_rev p \<le> dp_rev current then (Inl (KrxAlphaError ''dynamic admissions rev must exceed stored rev''), f)
         else if \<not> write_ok then (Inl (KrxAlphaError ''dynamic admissions file not written''), f)
         else (Inr (), FileText (Some (plan_json p))))"

section \<open>The discovery loop\<close>

record discovery =
  di_admission :: admission_state
  di_reject_once :: "string set"
  di_capacity_once :: "string set"
  di_warning_levels :: "(string, string) dict"
  di_failures :: nat
  di_polls :: nat

text \<open>\<open>dv_checks\<close>: whether there is a status lookup.\<close>

record discovery_cfg =
  dv_cfg :: intraday_cfg
  dv_day :: int
  dv_open_time :: time
  dv_checks :: bool

text \<open>
  What a poll meets: the clock when it starts, the ranking rows (\<open>None\<close> when fetching failed), the status of a
  symbol (\<open>None\<close> when the lookup failed), the decision time, and whether each of the two writes succeeds.
\<close>

record poll_env =
  pv_now :: int
  pv_rows :: "kiwoom_row list option"
  pv_status :: "string \<Rightarrow> jobj option"
  pv_decided :: int
  pv_append_ok :: bool
  pv_ipc_ok :: bool

record intraday_world =
  iw_discovery :: discovery
  iw_lines :: "json option list"
  iw_ipc :: text_file

definition new_discovery :: "admission_state \<Rightarrow> discovery" where
  "new_discovery st = \<lparr>di_admission = st, di_reject_once = {}, di_capacity_once = {}, di_warning_levels = [], di_failures = 0, di_polls = 0\<rparr>"

fun warning_level_value :: "warning_level \<Rightarrow> string" where
  "warning_level_value WL_NONE = ''none''"
| "warning_level_value WL_CAUTION = ''caution''"
| "warning_level_value WL_WARNING = ''warning''"
| "warning_level_value WL_RISK = ''risk''"
| "warning_level_value WL_UNKNOWN = ''unknown''"

definition poll_rows :: "poll_env \<Rightarrow> discovery \<Rightarrow> kiwoom_row list option \<times> discovery" where
  "poll_rows env d = (case pv_rows env of
       None \<Rightarrow> (None, d\<lparr>di_failures := di_failures d + 1\<rparr>)
     | Some rows \<Rightarrow> (Some rows, d\<lparr>di_failures := 0\<rparr>))"

definition check_status :: "poll_env \<Rightarrow> string \<Rightarrow> bool \<times> string" where
  "check_status env symbol = (case pv_status env symbol of
       None \<Rightarrow> (False, ''unknown'')
     | Some status \<Rightarrow> (let v = classify_security_status status in (sv_exclude v, warning_level_value (sv_warning_level v))))"

definition screen_row :: "discovery_cfg \<Rightarrow> poll_env \<Rightarrow> kiwoom_row \<Rightarrow> discovery \<times> kiwoom_row list \<Rightarrow> discovery \<times> kiwoom_row list" where
  "screen_row dc env row acc = (case acc of (d, fresh) \<Rightarrow>
     let symbol = kw_symbol row; st = di_admission d in
     if symbol \<in> as_collected st \<or> symbol \<in> di_reject_once d then acc
     else if \<not> qualifies row (dv_cfg dc) then acc
     else if symbol \<in> as_ineligible st then (d\<lparr>di_reject_once := insert symbol (di_reject_once d)\<rparr>, fresh)
     else if dv_checks dc \<and> map_of (di_warning_levels d) symbol = None then
       (case check_status env symbol of (excluded, level) \<Rightarrow>
          if excluded then (d\<lparr>di_reject_once := insert symbol (di_reject_once d), di_admission := st\<lparr>as_ineligible := insert symbol (as_ineligible st)\<rparr>\<rparr>, fresh)
          else (d\<lparr>di_warning_levels := AList.update symbol level (di_warning_levels d)\<rparr>, fresh @ [row]))
     else (d, fresh @ [row]))"

text \<open>\<open>feed.partition(":")\<close>\<close>

definition feed_fields :: "string \<Rightarrow> (int option \<times> string option) result" where
  "feed_fields feed = (let kind = takeWhile (\<lambda>c. c \<noteq> CHR '':'') feed; index = drop (length kind + 1) feed in
     if kind = ''ls'' then (case int_text index of None \<Rightarrow> Inl (ValueError ''invalid literal for int()'') | Some n \<Rightarrow> Inr (Some n, None))
     else Inr (None, Some index))"

definition admitted_row :: "int \<Rightarrow> (string, string) dict \<Rightarrow> admission \<Rightarrow> membership_row result" where
  "admitted_row decided levels a = rbind (feed_fields (ad_feed a)) (\<lambda>(shard, slot).
     Inr \<lparr>m_symbol = ad_symbol a, m_tier = ''B'', m_source = ''dynamic'', m_decided_at_ns = decided, m_direction = Some (ad_direction a),
          m_warning_level = map_of levels (ad_symbol a), m_ls_shard = shard, m_kis_slot = slot, m_trade_value_krw = Some (ad_trade_value_krw a), m_reason = None\<rparr>)"

definition tier_c :: "string \<Rightarrow> int \<Rightarrow> kiwoom_row \<Rightarrow> membership_row" where
  "tier_c source decided row = \<lparr>m_symbol = kw_symbol row, m_tier = ''C'', m_source = source, m_decided_at_ns = decided,
     m_direction = Some (move_direction row), m_warning_level = None, m_ls_shard = None, m_kis_slot = None,
     m_trade_value_krw = Some (kw_trade_value_krw row), m_reason = None\<rparr>"

definition book_admission :: "admission \<Rightarrow> (string, int) dict \<Rightarrow> (string, int) dict" where
  "book_admission a left = AList.update (ad_feed a) ((case map_of left (ad_feed a) of None \<Rightarrow> 0 | Some n \<Rightarrow> n) - 1) left"

definition book_all :: "admission list \<Rightarrow> admission_state \<Rightarrow> admission_state" where
  "book_all admitted st = st\<lparr>as_collected := as_collected st \<union> set (map ad_symbol admitted),
     as_capacity_left := fold book_admission admitted (as_capacity_left st)\<rparr>"

definition dyn_entry :: "int \<Rightarrow> admission \<Rightarrow> dynamic_entry" where
  "dyn_entry decided a = \<lparr>dy_symbol = ad_symbol a, dy_feed = ad_feed a, dy_decided_at_ns = decided\<rparr>"

text \<open>A failure of reading or writing the admissions file is logged and leaves it.\<close>

definition publish_ipc :: "poll_env \<Rightarrow> admission list \<Rightarrow> intraday_world \<Rightarrow> intraday_world" where
  "publish_ipc env admitted w =
     (let d = iw_discovery w;
          w1 = w\<lparr>iw_discovery := d\<lparr>di_admission := book_all admitted (di_admission d)\<rparr>\<rparr> in
      case read_dynamic_admissions (iw_ipc w) of
        Inl _ \<Rightarrow> w1
      | Inr current \<Rightarrow>
          w1\<lparr>iw_ipc := snd (write_dynamic_admissions (pv_ipc_ok env)
               \<lparr>dp_rev = dp_rev current + 1, dp_entries = dp_entries current @ map (dyn_entry (pv_decided env)) admitted\<rparr> (iw_ipc w))\<rparr>)"

definition try_append :: "poll_env \<Rightarrow> membership_row list \<Rightarrow> json option list \<Rightarrow> unit result \<times> json option list" where
  "try_append env rows lines = (if pv_append_ok env then append_membership lines rows else (Inl (KrxAlphaError ''membership write''), lines))"

definition publish :: "poll_env \<Rightarrow> admission_decision \<Rightarrow> kiwoom_row list \<Rightarrow> intraday_world \<Rightarrow> unit result \<times> intraday_world" where
  "publish env decision capacity_rows w =
     (if dn_admitted decision = [] \<and> capacity_rows = [] then (Inr (), w)
      else case rmap (admitted_row (pv_decided env) (di_warning_levels (iw_discovery w))) (dn_admitted decision) of
        Inl e \<Rightarrow> (Inl e, w)
      | Inr rows \<Rightarrow>
          (case try_append env (rows @ map (tier_c ''intraday_capacity'' (pv_decided env)) capacity_rows) (iw_lines w) of
             (Inl _, lines) \<Rightarrow> (Inr (), w\<lparr>iw_lines := lines\<rparr>)
           | (Inr _, lines) \<Rightarrow>
               (Inr (), if dn_admitted decision = [] then w\<lparr>iw_lines := lines\<rparr> else publish_ipc env (dn_admitted decision) (w\<lparr>iw_lines := lines\<rparr>))))"

definition capacity_rows_of :: "kiwoom_row list \<Rightarrow> string set \<Rightarrow> (string \<times> string) list \<Rightarrow> kiwoom_row list" where
  "capacity_rows_of fresh once rejected =
     (let by_symbol = fold (\<lambda>row. AList.update (kw_symbol row) row) fresh [] in
      List.map_filter (\<lambda>(symbol, reason). if reason = ''capacity'' \<and> symbol \<notin> once then map_of by_symbol symbol else None) rejected)"

definition admission_poll :: "discovery_cfg \<Rightarrow> poll_env \<Rightarrow> intraday_world \<Rightarrow> unit result \<times> intraday_world" where
  "admission_poll dc env w = (case poll_rows env (iw_discovery w) of
       (None, d) \<Rightarrow> (Inr (), w\<lparr>iw_discovery := d\<rparr>)
     | (Some rows, d) \<Rightarrow>
         let (d1, fresh) = fold (screen_row dc env) rows (d, []);
             decision = decide_admissions fresh (di_admission d1) (dv_cfg dc);
             capacity_rows = capacity_rows_of fresh (di_capacity_once d1) (dn_rejected decision);
             d2 = d1\<lparr>di_capacity_once := di_capacity_once d1 \<union> set (map kw_symbol capacity_rows)\<rparr>
         in publish env decision capacity_rows (w\<lparr>iw_discovery := d2\<rparr>))"

definition post_close_poll :: "discovery_cfg \<Rightarrow> poll_env \<Rightarrow> intraday_world \<Rightarrow> unit result \<times> intraday_world" where
  "post_close_poll dc env w = (case poll_rows env (iw_discovery w) of
       (None, d) \<Rightarrow> (Inr (), w\<lparr>iw_discovery := d\<rparr>)
     | (Some rows, d) \<Rightarrow>
         (let w1 = w\<lparr>iw_discovery := d\<rparr> in
          case rbind (read_membership (iw_lines w)) effective_tiers of
            Inl e \<Rightarrow> (Inl e, w1)
          | Inr ledger \<Rightarrow>
              let screen = map (tier_c ''post_close_screen'' (pv_decided env)) (filter (\<lambda>row. qualifies row (dv_cfg dc) \<and> map_of ledger (kw_symbol row) = None) rows) in
              (Inr (), w1\<lparr>iw_lines := snd (try_append env screen (iw_lines w))\<rparr>)))"

text \<open>
  \<open>run\<close>: polls at the scheduled times up to the cutoff, then the screen. \<open>envs i\<close> is what the poll number \<open>i\<close>
  meets once it was waited for, the last one that of the screen. The settings keep the interval positive.
\<close>

function admission_loop :: "discovery_cfg \<Rightarrow> (nat \<Rightarrow> poll_env) \<Rightarrow> int \<Rightarrow> timedelta \<Rightarrow> int \<Rightarrow> nat \<Rightarrow> intraday_world \<Rightarrow> (unit result \<times> intraday_world) \<times> nat" where
  "admission_loop dc envs cutoff interval scheduled i w =
     (if cutoff < scheduled \<or> interval \<le> 0 \<or> cutoff < pv_now (envs i) then ((Inr (), w), i)
      else let d = iw_discovery w in
        case admission_poll dc (envs i) (w\<lparr>iw_discovery := d\<lparr>di_polls := di_polls d + 1\<rparr>\<rparr>) of
          (Inl e, w') \<Rightarrow> ((Inl e, w'), i)
        | (Inr _, w') \<Rightarrow> admission_loop dc envs cutoff interval (scheduled + interval) (Suc i) w')"
  by pat_completeness auto
termination
  by (relation "measure (\<lambda>(dc, envs, cutoff, interval, scheduled, i, w). nat (cutoff - scheduled + 1))") auto

declare admission_loop.simps [simp del]

definition discovery_run :: "discovery_cfg \<Rightarrow> (nat \<Rightarrow> poll_env) \<Rightarrow> intraday_world \<Rightarrow> unit result \<times> intraday_world" where
  "discovery_run dc envs w =
     (let cutoff = combine (dv_day dc) (ia_admission_cutoff (dv_cfg dc));
          first = combine (dv_day dc) (dv_open_time dc) + td_seconds (ia_start_after_open_s (dv_cfg dc)) in
      case admission_loop dc envs cutoff (td_seconds (ia_poll_interval_s (dv_cfg dc))) first 0 w of
        ((Inl e, w'), _) \<Rightarrow> (Inl e, w')
      | ((Inr _, w'), i) \<Rightarrow> post_close_poll dc (envs i) w')"

section \<open>The other writers of the ledger\<close>

text \<open>The static rows of the day, written once; any failure is logged.\<close>

definition static_row :: "int \<Rightarrow> (string \<Rightarrow> string option) \<Rightarrow> (string \<Rightarrow> string option) \<Rightarrow> (string \<Rightarrow> int option) \<Rightarrow> string \<Rightarrow> int option \<Rightarrow> string option \<Rightarrow> string \<Rightarrow> membership_row" where
  "static_row decided direction warning krw tier shard reason symbol = \<lparr>m_symbol = symbol, m_tier = tier, m_source = ''static'', m_decided_at_ns = decided,
     m_direction = direction symbol, m_warning_level = warning symbol, m_ls_shard = shard, m_kis_slot = None, m_trade_value_krw = krw symbol, m_reason = reason\<rparr>"

text \<open>\<open>policy_dropped\<close>: the rows of the drop file, each with its symbol, direction, trade value and reason.\<close>

definition static_membership_rows ::
  "int \<Rightarrow> (string \<Rightarrow> string option) \<Rightarrow> (string \<Rightarrow> string option) \<Rightarrow> (string \<Rightarrow> int option) \<Rightarrow> ls_shard list \<Rightarrow> string list
     \<Rightarrow> (string \<times> string option \<times> int option \<times> string option) list \<Rightarrow> membership_row list" where
  "static_membership_rows decided direction warning krw shards overflow policy_dropped =
     concat (map (\<lambda>shard. map (static_row decided direction warning krw (if ls_index shard = 0 then ''A'' else ''B'') (Some (int (ls_index shard))) None) (ls_symbols shard)) shards)
     @ map (static_row decided direction warning krw ''C'' None (Some ''overflow'')) overflow
     @ map (\<lambda>(symbol, dir, value, reason). static_row decided (\<lambda>_. dir) (\<lambda>_. None) (\<lambda>_. value) ''C'' None reason symbol) policy_dropped"

definition record_static_membership :: "bool \<Rightarrow> membership_row list \<Rightarrow> json option list \<Rightarrow> json option list" where
  "record_static_membership write_ok rows lines = (case read_membership lines of
       Inl _ \<Rightarrow> lines
     | Inr present \<Rightarrow> if list_ex (\<lambda>row. m_source row = ''static'') present then lines
         else if write_ok then snd (append_membership lines rows) else lines)"

section \<open>The watcher of a feed\<close>

text \<open>
  An adapter is its identity and the pairs subscribed on it. \<open>subscribe\<close> is \<open>subscribe_live\<close>: the
  acknowledgements of the pairs sent, or \<open>None\<close> when it raises. A turn is one round of \<open>run\<close>, which
  survives any failure and yields the pairs sent and the acknowledgement rows for the ledger.
\<close>

record dynamic_feed =
  df_feed :: string
  df_streams :: "string list"
  df_ls_shard :: "int option"
  df_kis_slot :: "string option"

record watcher =
  wt_static :: "(string \<times> string) list"
  wt_accepted :: "(string \<times> string) list"
  wt_rejected :: "(string \<times> string) set"
  wt_bound :: "nat option"
  wt_rev :: "int option"

definition watcher_pairs :: "watcher \<Rightarrow> (string \<times> string) list" where
  "watcher_pairs wt = fromkeys (wt_static wt @ wt_accepted wt)"

definition ack_row :: "dynamic_feed \<Rightarrow> int \<Rightarrow> vendor_ack \<Rightarrow> membership_row" where
  "ack_row feed decided ack = \<lparr>m_symbol = ack_symbol ack, m_tier = ''B'', m_source = ''ack'', m_decided_at_ns = decided, m_direction = None, m_warning_level = None,
     m_ls_shard = df_ls_shard feed, m_kis_slot = df_kis_slot feed, m_trade_value_krw = None,
     m_reason = Some ((if ack_accepted ack then ''accepted:'' else ''rejected:'') @ ack_code ack)\<rparr>"

definition note_ack :: "vendor_ack \<Rightarrow> watcher \<Rightarrow> watcher" where
  "note_ack ack wt =
     (if ack_accepted ack then wt\<lparr>wt_accepted := wt_accepted wt @ [(ack_symbol ack, ack_stream ack)]\<rparr>
      else if ack_code ack \<noteq> ''timeout'' then wt\<lparr>wt_rejected := insert (ack_symbol ack, ack_stream ack) (wt_rejected wt)\<rparr>
      else wt)"

definition wanted_pairs :: "dynamic_feed \<Rightarrow> dynamic_plan \<Rightarrow> (string \<times> string) list" where
  "wanted_pairs feed plan = concat (map (\<lambda>symbol. map (Pair symbol) (df_streams feed)) (symbols_for plan (df_feed feed)))"

definition bind_adapter :: "nat \<Rightarrow> watcher \<Rightarrow> watcher" where
  "bind_adapter a wt = (if wt_bound wt \<noteq> Some a then wt\<lparr>wt_bound := Some a, wt_rev := None\<rparr> else wt)"

definition new_pairs :: "dynamic_feed \<Rightarrow> dynamic_plan \<Rightarrow> (string \<times> string) list \<Rightarrow> watcher \<Rightarrow> (string \<times> string) list" where
  "new_pairs feed plan on_adapter wt = filter (\<lambda>pair. pair \<notin> set on_adapter \<and> pair \<notin> wt_rejected wt) (fromkeys (wanted_pairs feed plan))"

definition watcher_turn :: "dynamic_feed \<Rightarrow> int \<Rightarrow> (nat \<times> (string \<times> string) list) option \<Rightarrow> ((string \<times> string) list \<Rightarrow> vendor_ack list option)
    \<Rightarrow> text_file \<Rightarrow> watcher \<Rightarrow> (string \<times> string) list \<times> membership_row list \<times> watcher" where
  "watcher_turn feed decided adapter subscribe ipc wt = (case adapter of
       None \<Rightarrow> ([], [], wt)
     | Some (a, on_adapter) \<Rightarrow>
         let wt1 = bind_adapter a wt in
         (case read_dynamic_admissions ipc of
            Inl _ \<Rightarrow> ([], [], wt1\<lparr>wt_rev := None\<rparr>)
          | Inr plan \<Rightarrow>
              if wt_rev wt1 = Some (dp_rev plan) then ([], [], wt1)
              else let wt2 = wt1\<lparr>wt_rev := Some (dp_rev plan)\<rparr>; new = new_pairs feed plan on_adapter wt2 in
                if new = [] then ([], [], wt2)
                else (case subscribe new of
                        None \<Rightarrow> (new, [], wt2\<lparr>wt_rev := None\<rparr>)
                      | Some acks \<Rightarrow> (new, map (ack_row feed decided) acks, fold note_ack acks wt2))))"

section \<open>What a decision admits\<close>

definition free_slots :: "(string, int) dict \<Rightarrow> nat" where
  "free_slots left = nat (dict_sum (max 0) left)"

definition on_feed :: "string \<Rightarrow> admission list \<Rightarrow> nat" where
  "on_feed f as = length (filter (\<lambda>a. ad_feed a = f) as)"

lemma on_feed_simps [simp]: "on_feed f [] = 0" "on_feed f (a # as) = (if ad_feed a = f then 1 else 0) + on_feed f as"
  by (simp_all add: on_feed_def)

lemma first_feed_None: "first_feed left = None \<longleftrightarrow> dict_all (\<lambda>n. n \<le> 0) left"
  by (induction left) (auto simp: first_feed_def dict_all_def find_None_iff not_less)

lemma first_feed_Some: "wf_dict left \<Longrightarrow> first_feed left = Some f \<Longrightarrow> \<exists>n. map_of left f = Some n \<and> 0 < n"
  by (auto simp: first_feed_def find_Some_iff) (metis map_of_eq_Some_iff nth_mem)

lemma free_slots_zero: "dict_all (\<lambda>n. n \<le> 0) left \<Longrightarrow> free_slots left = 0"
  by (induction left) (simp_all add: free_slots_def max_def)

lemma free_slots_use:
  assumes "wf_dict left" "map_of left f = Some n" "0 < n"
  shows "free_slots left = Suc (free_slots (AList.update f (n - 1) left))"
proof -
  have "dict_sum (max 0) (AList.update f (n - 1) left) = dict_sum (max 0) left - 1"
    using assms by (simp add: dict_sum_update)
  moreover have "0 \<le> dict_sum (max 0) (AList.update f (n - 1) left)" by (rule dict_sum_nonneg) simp
  ultimately show ?thesis by (simp add: free_slots_def)
qed

text \<open>Filling feeds admits the first rows, as many as there are free slots, and no feed gets more than its own.\<close>

lemma fill_feeds_spec:
  assumes "wf_dict left" "fill_feeds rows left = (admitted, rejected)"
  shows "map ad_symbol admitted = map kw_symbol (take (free_slots left) rows)
    \<and> rejected = map (\<lambda>row. (kw_symbol row, ''capacity'')) (drop (free_slots left) rows)
    \<and> (\<forall>f. 0 < on_feed f admitted \<longrightarrow> (\<exists>n. map_of left f = Some n \<and> int (on_feed f admitted) \<le> n))"
  using assms
proof (induction rows arbitrary: left admitted rejected)
  case Nil
  then show ?case by simp
next
  case (Cons row rows)
  show ?case
  proof (cases "first_feed left")
    case None
    then have z: "free_slots left = 0" by (simp add: first_feed_None free_slots_zero)
    obtain as rs where r: "fill_feeds rows left = (as, rs)" by fastforce
    then show ?thesis using Cons.IH [OF Cons.prems(1) r] Cons.prems(2) None z by auto
  next
    case (Some f)
    then obtain n where n: "map_of left f = Some n" "0 < n" using first_feed_Some Cons.prems(1) by blast
    obtain as rs where r: "fill_feeds rows (AList.update f (n - 1) left) = (as, rs)" by fastforce
    have ad: "admitted = \<lparr>ad_symbol = kw_symbol row, ad_feed = f, ad_change_pct = kw_change_pct row,
        ad_trade_value_krw = kw_trade_value_krw row, ad_direction = move_direction row\<rparr> # as" "rejected = rs"
      using Cons.prems(2) Some n r by simp_all
    have "wf_dict (AList.update f (n - 1) left)" using Cons.prems(1) by simp
    note ih = Cons.IH [OF this r]
    have feeds: "\<exists>k. map_of left g = Some k \<and> int (on_feed g admitted) \<le> k" if "0 < on_feed g admitted" for g
    proof (cases "g = f")
      case True
      have "0 < on_feed f as \<longrightarrow> (\<exists>k. map_of (AList.update f (n - 1) left) f = Some k \<and> int (on_feed f as) \<le> k)" using ih by blast
      then have "0 < on_feed f as \<longrightarrow> int (on_feed f as) \<le> n - 1" by simp
      then show ?thesis using True n ad by (cases "on_feed f as") auto
    next
      case False
      then show ?thesis using that ih ad by (auto split: if_splits)
    qed
    show ?thesis using ih feeds ad free_slots_use [OF Cons.prems(1) n] by simp
  qed
qed

text \<open>The first loop keeps the first qualifying row of every symbol that is neither collected nor ineligible.\<close>

definition candidate :: "intraday_cfg \<Rightarrow> admission_state \<Rightarrow> kiwoom_row \<Rightarrow> bool" where
  "candidate cfg st row \<longleftrightarrow> kw_symbol row \<notin> as_collected st \<and> kw_symbol row \<notin> as_ineligible st \<and> qualifies row cfg"

lemma scan_spec:
  assumes "fold (scan_ranking cfg st) rows ({}, [], []) = (seen, rejected, qualifiers)"
  shows "set qualifiers \<subseteq> {row \<in> set rows. candidate cfg st row} \<and> distinct (map kw_symbol qualifiers)
    \<and> kw_symbol ` {row \<in> set rows. candidate cfg st row} \<subseteq> kw_symbol ` set qualifiers
    \<and> list_all (\<lambda>(symbol, reason). reason = ''ineligible'' \<and> symbol \<in> as_ineligible st) rejected
    \<and> seen = kw_symbol ` set qualifiers \<union> fst ` set rejected"
  using assms
proof (induction rows arbitrary: seen rejected qualifiers rule: rev_induct)
  case Nil
  then show ?case by simp
next
  case (snoc row rows)
  obtain seen' rej' q' where r: "fold (scan_ranking cfg st) rows ({}, [], []) = (seen', rej', q')" by (metis prod_cases3)
  note ih = snoc.IH [OF r]
  have step: "scan_ranking cfg st row (seen', rej', q') = (seen, rejected, qualifiers)" using snoc.prems r by simp
  show ?case
  proof (cases "kw_symbol row \<in> seen' \<or> kw_symbol row \<in> as_collected st \<or> \<not> qualifies row cfg")
    case True
    then have eq: "seen = seen'" "rejected = rej'" "qualifiers = q'" using step by (simp_all add: scan_ranking_def)
    have "kw_symbol row \<in> kw_symbol ` set q'" if "candidate cfg st row"
      using that True ih by (auto simp: candidate_def list_all_iff)
    then show ?thesis unfolding eq using ih by auto
  next
    case False
    show ?thesis
    proof (cases "kw_symbol row \<in> as_ineligible st")
      case True
      then have eq: "seen = insert (kw_symbol row) seen'" "rejected = rej' @ [(kw_symbol row, ''ineligible'')]" "qualifiers = q'"
        using step False by (simp_all add: scan_ranking_def)
      show ?thesis unfolding eq using ih True by (auto simp: candidate_def)
    next
      case inel: False
      then have eq: "seen = insert (kw_symbol row) seen'" "rejected = rej'" "qualifiers = q' @ [row]"
        using step False by (simp_all add: scan_ranking_def)
      show ?thesis unfolding eq using ih inel False by (auto simp: candidate_def)
    qed
  qed
qed

lemma decide_spec:
  assumes "wf_dict (as_capacity_left st)"
  obtains qualifiers where
    "set qualifiers \<subseteq> {row \<in> set rows. candidate cfg st row}" "distinct (map kw_symbol qualifiers)"
    "kw_symbol ` {row \<in> set rows. candidate cfg st row} \<subseteq> kw_symbol ` set qualifiers"
    "map ad_symbol (dn_admitted (decide_admissions rows st cfg)) = map kw_symbol (take (free_slots (as_capacity_left st)) (sort_key by_value qualifiers))"
    "\<And>f. 0 < on_feed f (dn_admitted (decide_admissions rows st cfg)) \<Longrightarrow>
       \<exists>n. map_of (as_capacity_left st) f = Some n \<and> int (on_feed f (dn_admitted (decide_admissions rows st cfg))) \<le> n"
proof -
  obtain seen rejected qualifiers where r: "fold (scan_ranking cfg st) rows ({}, [], []) = (seen, rejected, qualifiers)" by (metis prod_cases3)
  obtain as full where f: "fill_feeds (sort_key by_value qualifiers) (as_capacity_left st) = (as, full)" by fastforce
  have "dn_admitted (decide_admissions rows st cfg) = as" by (simp add: decide_admissions_def r f)
  then show ?thesis using that [of qualifiers] scan_spec [OF r] fill_feeds_spec [OF assms f] by simp
qed

section \<open>Feeds\<close>

text \<open>A feed whose row in the ledger names it again.\<close>

definition feed_valid :: "string \<Rightarrow> bool" where
  "feed_valid f \<longleftrightarrow> (\<exists>shard slot. feed_fields f = Inr (shard, slot)
     \<and> (case shard of Some n \<Rightarrow> f = ''ls:'' @ show_int n | None \<Rightarrow> (case slot of Some x \<Rightarrow> f = ''kis:'' @ x | None \<Rightarrow> False)))"

definition cap_ok :: "(string, int) dict \<Rightarrow> bool" where
  "cap_ok cap \<longleftrightarrow> wf_dict cap \<and> dict_all (\<lambda>n. 0 \<le> n) cap \<and> (\<forall>f \<in> set (dict_keys cap). feed_valid f)"

lemma feed_valid_kis: "feed_valid (''kis:'' @ slot)"
  by (simp add: feed_valid_def feed_fields_def)

lemma feed_valid_ls: "feed_valid ''ls:1''"
proof -
  have "int_text ''1'' = Some 1" by code_simp
  moreover have "show_int 1 = ''1''" by code_simp
  ultimately show ?thesis by (simp add: feed_valid_def feed_fields_def)
qed

lemma feed_capacities_ok: "cap_ok (feed_capacities ls kis slot)"
  using feed_valid_kis feed_valid_ls by (cases slot) (auto simp: cap_ok_def feed_capacities_def)

lemma admitted_row_feed:
  assumes "feed_valid (ad_feed a)"
  shows "\<exists>r. admitted_row decided levels a = Inr r \<and> m_symbol r = ad_symbol a \<and> m_tier r = ''B'' \<and> m_source r = ''dynamic'' \<and> feed_of r = Inr (ad_feed a)"
proof -
  obtain shard slot where f: "feed_fields (ad_feed a) = Inr (shard, slot)"
    "case shard of Some n \<Rightarrow> ad_feed a = ''ls:'' @ show_int n | None \<Rightarrow> (case slot of Some x \<Rightarrow> ad_feed a = ''kis:'' @ x | None \<Rightarrow> False)"
    using assms by (auto simp: feed_valid_def)
  obtain r where r: "admitted_row decided levels a = Inr r" "m_ls_shard r = shard" "m_kis_slot r = slot" "m_symbol r = ad_symbol a" "m_tier r = ''B''" "m_source r = ''dynamic''"
    by (simp add: admitted_row_def f(1))
  then show ?thesis using f(2) by (auto simp: feed_of_def split: option.splits)
qed

lemma admitted_rows:
  assumes "\<forall>a \<in> set as. feed_valid (ad_feed a)"
  shows "\<exists>rs. rmap (admitted_row decided levels) as = Inr rs \<and> map m_symbol rs = map ad_symbol as \<and> map feed_of rs = map (Inr \<circ> ad_feed) as
    \<and> list_all (\<lambda>r. m_tier r = ''B'' \<and> m_source r = ''dynamic'') rs"
  using assms
proof (induction as)
  case (Cons a as)
  obtain r where "admitted_row decided levels a = Inr r" "m_symbol r = ad_symbol a" "m_tier r = ''B''" "m_source r = ''dynamic''" "feed_of r = Inr (ad_feed a)"
    using admitted_row_feed [of a decided levels] Cons.prems by auto
  then show ?case using Cons by auto
qed simp

section \<open>The ledger's account of the feeds\<close>

definition dyn_rows :: "membership_row list \<Rightarrow> membership_row list" where
  "dyn_rows rows = filter (\<lambda>r. m_source r = ''dynamic'') rows"

definition feed_rows :: "string \<Rightarrow> membership_row list \<Rightarrow> int" where
  "feed_rows f rows = int (length (filter (\<lambda>r. feed_of r = Inr f) (dyn_rows rows)))"

definition ledger_inv :: "(string, int) dict \<Rightarrow> membership_row list \<Rightarrow> bool" where
  "ledger_inv cap rows \<longleftrightarrow> (\<forall>r \<in> set rows. m_source r \<noteq> ACK_SOURCE \<and> m_tier r \<in> {''A'', ''B''} \<longrightarrow> m_source r \<in> {''static'', ''dynamic''})
     \<and> distinct (map m_symbol (dyn_rows rows))
     \<and> (\<forall>r \<in> set (dyn_rows rows). m_tier r = ''B'' \<and> (\<exists>f. feed_of r = Inr f \<and> f \<in> set (dict_keys cap)))
     \<and> (\<forall>f n. map_of cap f = Some n \<longrightarrow> feed_rows f rows \<le> n)"

definition state_inv :: "(string, int) dict \<Rightarrow> membership_row list \<Rightarrow> admission_state \<Rightarrow> bool" where
  "state_inv cap rows st \<longleftrightarrow> dict_keys (as_capacity_left st) = dict_keys cap
     \<and> (\<forall>f n. map_of cap f = Some n \<longrightarrow> map_of (as_capacity_left st) f = Some (n - feed_rows f rows))
     \<and> m_symbol ` set (dyn_rows rows) \<subseteq> as_collected st"

lemma dyn_rows_append [simp]: "dyn_rows (xs @ ys) = dyn_rows xs @ dyn_rows ys"
  by (simp add: dyn_rows_def)

lemma feed_rows_append [simp]: "feed_rows f (xs @ ys) = feed_rows f xs + feed_rows f ys"
  by (simp add: feed_rows_def)

lemma dyn_rows_neutral: "list_all (\<lambda>r. m_source r \<noteq> ''dynamic'') rows \<Longrightarrow> dyn_rows rows = [] \<and> feed_rows f rows = 0"
  by (auto simp: dyn_rows_def feed_rows_def list_all_iff filter_empty_conv)

text \<open>Rows that are no admissions and claim no tier of their own.\<close>

definition neutral :: "membership_row \<Rightarrow> bool" where
  "neutral r \<longleftrightarrow> m_source r \<noteq> ''dynamic'' \<and> (m_source r = ACK_SOURCE \<or> m_source r = ''static'' \<or> m_tier r = ''C'')"

lemma neutral_inv:
  assumes "list_all neutral new"
  shows "ledger_inv cap (rows @ new) \<longleftrightarrow> ledger_inv cap rows" "state_inv cap (rows @ new) st \<longleftrightarrow> state_inv cap rows st" "dyn_rows (rows @ new) = dyn_rows rows"
proof -
  have "list_all (\<lambda>r. m_source r \<noteq> ''dynamic'') new" using assms by (auto simp: list_all_iff neutral_def)
  note n = dyn_rows_neutral [OF this]
  then show "state_inv cap (rows @ new) st \<longleftrightarrow> state_inv cap rows st" "dyn_rows (rows @ new) = dyn_rows rows" by (simp_all add: state_inv_def)
  show "ledger_inv cap (rows @ new) \<longleftrightarrow> ledger_inv cap rows"
    using n assms by (auto simp: ledger_inv_def list_all_iff neutral_def)
qed

lemma neutral_rows [simp]: "neutral (tier_c ''intraday_capacity'' t row)" "neutral (tier_c ''post_close_screen'' t row)" "neutral (ack_row feed t ack)"
  by (simp_all add: neutral_def tier_c_def ack_row_def ACK_SOURCE_def)

lemma static_rows_neutral: "list_all neutral (static_membership_rows t dir warn krw shards overflow dropped)"
  by (auto simp: static_membership_rows_def static_row_def neutral_def list_all_iff)

lemma book_lookup:
  "map_of (fold book_admission as left) f = (if on_feed f as = 0 then map_of left f else Some ((case map_of left f of None \<Rightarrow> 0 | Some n \<Rightarrow> n) - int (on_feed f as)))"
  by (induction as arbitrary: left) (auto simp: book_admission_def split: option.splits)

lemma book_keys: "\<forall>a \<in> set as. ad_feed a \<in> set (dict_keys left) \<Longrightarrow> dict_keys (fold book_admission as left) = dict_keys left"
proof (induction as arbitrary: left)
  case (Cons a as)
  obtain n where "map_of left (ad_feed a) = Some n" using Cons.prems by (auto dest: weak_map_of_SomeI)
  then have "dict_keys (book_admission a left) = dict_keys left" by (simp add: book_admission_def update_keys_at)
  then show ?case using Cons.IH [of "book_admission a left"] Cons.prems by (metis fold_simps(2) list.set_intros(2))
qed simp

lemma use_capacity_all:
  assumes "\<forall>r \<in> set (dyn_rows rows). \<exists>f. feed_of r = Inr f" "dict_all (\<lambda>n. 0 \<le> n) cap"
  shows "\<exists>left. rfold use_capacity rows cap = Inr left \<and> dict_keys left = dict_keys cap
    \<and> (\<forall>f n. map_of cap f = Some n \<longrightarrow> map_of left f = Some (max 0 (n - feed_rows f rows)))"
  using assms(1)
proof (induction rows rule: rev_induct)
  case Nil
  then show ?case using assms(2) by (auto simp: feed_rows_def dyn_rows_def dest: dict_all_lookup)
next
  case (snoc r rows)
  then obtain left where l: "rfold use_capacity rows cap = Inr left" "dict_keys left = dict_keys cap"
    "\<forall>f n. map_of cap f = Some n \<longrightarrow> map_of left f = Some (max 0 (n - feed_rows f rows))" by auto
  have step: "rfold use_capacity (rows @ [r]) cap = use_capacity r left"
    using l(1) by (cases "use_capacity r left") (simp_all add: rfold_append)
  show ?case
  proof (cases "m_source r = ''dynamic''")
    case False
    then have "use_capacity r left = Inr left" "feed_rows f [r] = 0" for f by (simp_all add: use_capacity_def dyn_rows_neutral)
    then show ?thesis using l step by simp
  next
    case True
    then obtain f where f: "feed_of r = Inr f" using snoc.prems by (auto simp: dyn_rows_def)
    have fr: "feed_rows g [r] = (if g = f then 1 else 0)" for g using True f by (simp add: feed_rows_def dyn_rows_def)
    show ?thesis
    proof (cases "map_of left f")
      case None
      then have u: "use_capacity r left = Inr left" using True f by (simp add: use_capacity_def)
      have "map_of cap f = None" using l(3) None by (cases "map_of cap f") auto
      then show ?thesis using l step u fr by auto
    next
      case (Some n)
      then have u: "use_capacity r left = Inr (AList.update f (max 0 (n - 1)) left)" using True f by (simp add: use_capacity_def)
      have "dict_keys (AList.update f (max 0 (n - 1)) left) = dict_keys cap" using l(2) update_keys_at [OF Some] by simp
      moreover have "map_of (AList.update f (max 0 (n - 1)) left) g = Some (max 0 (k - feed_rows g (rows @ [r])))" if "map_of cap g = Some k" for g k
        using l(3) that Some fr by (cases "g = f") auto
      ultimately show ?thesis using step u by auto
    qed
  qed
qed

lemma restart_inv:
  assumes "list_all wf_row rows" "ledger_inv cap rows" "cap_ok cap"
  shows "\<exists>st. state_from_ledger rows ineligible cap = Inr st \<and> state_inv cap rows st"
proof -
  obtain tiers where t: "effective_tiers rows = Inr tiers" "\<forall>symbol. map_of tiers symbol = latest_highest (decisions_for symbol rows)"
    using effective_spec [OF assms(1)] by blast
  have feeds: "\<forall>r \<in> set (dyn_rows rows). \<exists>f. feed_of r = Inr f" using assms(2) by (auto simp: ledger_inv_def)
  obtain left where l: "rfold use_capacity rows cap = Inr left" "dict_keys left = dict_keys cap"
    "\<forall>f n. map_of cap f = Some n \<longrightarrow> map_of left f = Some (max 0 (n - feed_rows f rows))"
    using use_capacity_all [OF feeds] assms(3) unfolding cap_ok_def by blast
  have room: "max 0 (n - feed_rows f rows) = n - feed_rows f rows" if "map_of cap f = Some n" for f n
    using assms(2) that by (auto simp: ledger_inv_def)
  have "m_symbol r \<in> set (map fst (filter (\<lambda>(_, row). is_collected row) tiers))" if r: "r \<in> set (dyn_rows rows)" for r
  proof -
    let ?ds = "decisions_for (m_symbol r) rows"
    have rB: "m_tier r = ''B''" and in_ds: "r \<in> set ?ds"
      using r assms(2) by (auto simp: ledger_inv_def dyn_rows_def decisions_for_def ACK_SOURCE_def)
    have "Max (set (map rank ?ds)) \<in> set (map rank ?ds)" using in_ds by (intro Max_in) auto
    then have ne: "filter (\<lambda>e. rank e = Max (set (map rank ?ds))) ?ds \<noteq> []" by (auto simp: filter_empty_conv)
    define e where "e = last (filter (\<lambda>e. rank e = Max (set (map rank ?ds))) ?ds)"
    have e: "e \<in> set ?ds" "rank e = Max (set (map rank ?ds))" using last_in_set [OF ne] by (simp_all add: e_def)
    have m: "map_of tiers (m_symbol r) = Some e" using t(2) in_ds by (auto simp: latest_highest_def e_def)
    have "rank r \<le> rank e" unfolding e(2) using in_ds by (intro Max_ge) auto
    then have "1 \<le> rank e" using rB by (simp add: rank_def TIER_RANK_OF_def)
    then have "m_tier e \<in> {''A'', ''B''}" by (auto simp: rank_def TIER_RANK_OF_def split: if_splits)
    then have "is_collected e" using e(1) assms(2) by (auto simp: is_collected_def ledger_inv_def decisions_for_def)
    then show ?thesis using map_of_SomeD [OF m] by force
  qed
  then show ?thesis using t(1) l room by (auto simp: state_from_ledger_def state_inv_def)
qed

section \<open>The admissions file\<close>

lemma plan_of_json: "0 \<le> dp_rev p \<Longrightarrow> plan_of (plan_json p) = Some p"
proof -
  assume "0 \<le> dp_rev p"
  have "entry_of (dyn_entry_json e) = Some e" for e by (simp add: entry_of_def dyn_entry_json_def str_item_def int_item_def item_def)
  then have "all_some (map entry_of (map dyn_entry_json (dp_entries p))) = Some (dp_entries p)"
    by (simp add: comp_def all_some_Some [of "dp_entries p"])
  then show ?thesis using \<open>0 \<le> dp_rev p\<close> by (simp add: plan_of_def plan_json_def item_def)
qed

lemma read_rev_nonneg: "read_dynamic_admissions f = Inr p \<Longrightarrow> 0 \<le> dp_rev p"
proof -
  assume r: "read_dynamic_admissions f = Inr p"
  have "plan_of j = Some p \<Longrightarrow> 0 \<le> dp_rev p" for j
    unfolding plan_of_def by (cases "item j ''rev''"; cases "the (item j ''rev'')"; cases "item j ''entries''"; cases "the (item j ''entries'')") (auto split: if_splits)
  then show ?thesis using r by (cases f) (auto simp: read_dynamic_admissions_def bind_eq_Some_conv split: option.splits if_splits)
qed

definition named :: "dynamic_entry \<Rightarrow> membership_row \<Rightarrow> bool" where
  "named e r \<longleftrightarrow> dy_symbol e = m_symbol r \<and> feed_of r = Inr (dy_feed e)"

text \<open>Every entry of the file is an admission of the ledger; in step with it, the entries are all of them.\<close>

definition ipc_inv :: "membership_row list \<Rightarrow> text_file \<Rightarrow> bool" where
  "ipc_inv rows ipc \<longleftrightarrow> (\<forall>p. read_dynamic_admissions ipc = Inr p \<longrightarrow> (\<forall>e \<in> set (dp_entries p). \<exists>r \<in> set (dyn_rows rows). named e r))"

definition ipc_exact :: "membership_row list \<Rightarrow> text_file \<Rightarrow> bool" where
  "ipc_exact rows ipc \<longleftrightarrow> (\<exists>p. read_dynamic_admissions ipc = Inr p \<and> list_all2 named (dp_entries p) (dyn_rows rows)
     \<and> list_all (\<lambda>r. is_krx_short_code (JStr (m_symbol r))) (dyn_rows rows))"

lemma write_read:
  assumes "read_dynamic_admissions ipc = Inr current"
    "p = \<lparr>dp_rev = dp_rev current + 1, dp_entries = dp_entries current @ es\<rparr>"
  shows "read_dynamic_admissions (snd (write_dynamic_admissions ok p ipc)) =
    (if \<not> ok then Inr current
     else if list_ex (\<lambda>e. \<not> is_krx_short_code (JStr (dy_symbol e))) (dp_entries p) then Inl (KrxAlphaError ''invalid symbol in dynamic admissions file'') else Inr p)"
  using assms plan_of_json [of p] read_rev_nonneg [OF assms(1)] by (simp add: write_dynamic_admissions_def read_dynamic_admissions_def)

section \<open>The shared world\<close>

definition world_inv :: "(string, int) dict \<Rightarrow> bool \<Rightarrow> intraday_world \<Rightarrow> bool" where
  "world_inv cap exact w \<longleftrightarrow> (\<exists>rows. read_membership (iw_lines w) = Inr rows \<and> ledger_inv cap rows
     \<and> state_inv cap rows (di_admission (iw_discovery w)) \<and> ipc_inv rows (iw_ipc w) \<and> (exact \<longrightarrow> ipc_exact rows (iw_ipc w)))"

lemma append_outcome:
  assumes "read_membership lines = Inr rows"
  obtains (failed) e where "try_append env new lines = (Inl e, lines)"
    | (written) lines' where "try_append env new lines = (Inr (), lines')" "read_membership lines' = Inr (rows @ new)"
proof (cases "pv_append_ok env")
  case True
  obtain r lines' where a: "append_membership lines new = (r, lines')" by fastforce
  show thesis
  proof (cases r)
    case (Inl e)
    then have "lines' = lines" using a by (auto simp: append_membership_def split: if_splits sum.splits)
    then show thesis using failed True a Inl by (simp add: try_append_def)
  next
    case (Inr u)
    then show thesis using written append_then_read [OF _ assms] True a by (simp add: try_append_def)
  qed
next
  case False
  then show thesis using failed by (simp add: try_append_def)
qed

lemma screen_row_keeps:
  "screen_row dc env row (d, fresh) = (d', fresh') \<Longrightarrow> as_collected (di_admission d') = as_collected (di_admission d)
     \<and> as_capacity_left (di_admission d') = as_capacity_left (di_admission d) \<and> set fresh' \<subseteq> insert row (set fresh)"
  by (auto simp: screen_row_def Let_def split: if_splits prod.splits)

lemma screen_fold_keeps:
  "fold (screen_row dc env) rows (d, fresh) = (d', fresh') \<Longrightarrow> as_collected (di_admission d') = as_collected (di_admission d)
     \<and> as_capacity_left (di_admission d') = as_capacity_left (di_admission d) \<and> set fresh' \<subseteq> set fresh \<union> set rows"
proof (induction rows arbitrary: d fresh)
  case (Cons row rows)
  obtain d1 f1 where s: "screen_row dc env row (d, fresh) = (d1, f1)" by fastforce
  then show ?case using Cons.IH [of d1 f1] Cons.prems screen_row_keeps [OF s] by auto
qed simp

lemma state_inv_cong:
  "as_collected st' = as_collected st \<Longrightarrow> as_capacity_left st' = as_capacity_left st \<Longrightarrow> state_inv cap rows st' \<longleftrightarrow> state_inv cap rows st"
  by (simp add: state_inv_def)

lemma new_dyn_rows:
  assumes "map m_symbol rs = map ad_symbol as" "map feed_of rs = map (Inr \<circ> ad_feed) as" "list_all (\<lambda>r. m_tier r = ''B'' \<and> m_source r = ''dynamic'') rs"
  shows "dyn_rows rs = rs" "feed_rows f rs = int (on_feed f as)" "list_all2 named (map (dyn_entry t) as) rs"
proof -
  show d: "dyn_rows rs = rs" using assms(3) by (simp add: dyn_rows_def list_all_iff)
  have "length (filter (\<lambda>r. feed_of r = Inr f) rs) = length (filter (\<lambda>x. x = Inr f) (map feed_of rs))" by (simp add: filter_map comp_def)
  also have "\<dots> = on_feed f as" unfolding assms(2) by (simp add: on_feed_def filter_map comp_def)
  finally show "feed_rows f rs = int (on_feed f as)" using d by (simp add: feed_rows_def)
  have "length rs = length as" "\<And>i. i < length as \<Longrightarrow> m_symbol (rs ! i) = ad_symbol (as ! i) \<and> feed_of (rs ! i) = Inr (ad_feed (as ! i))"
    using assms(1,2) by (metis length_map, metis comp_apply length_map nth_map)
  then show "list_all2 named (map (dyn_entry t) as) rs" by (simp add: list_all2_conv_all_nth named_def dyn_entry_def)
qed

lemma decide_admitted:
  assumes "cap_ok cap" "state_inv cap rows st" "a \<in> set (dn_admitted (decide_admissions fresh st cfg))"
  shows "ad_feed a \<in> set (dict_keys cap)" "feed_valid (ad_feed a)" "ad_symbol a \<in> kw_symbol ` set fresh"
proof -
  let ?as = "dn_admitted (decide_admissions fresh st cfg)"
  have wf: "wf_dict (as_capacity_left st)" using assms(1,2) by (simp add: cap_ok_def state_inv_def)
  obtain qs where q: "set qs \<subseteq> {row \<in> set fresh. candidate cfg st row}"
    "map ad_symbol ?as = map kw_symbol (take (free_slots (as_capacity_left st)) (sort_key by_value qs))"
    and fd: "\<And>f. 0 < on_feed f ?as \<Longrightarrow> \<exists>n. map_of (as_capacity_left st) f = Some n"
    by (rule decide_spec [OF wf, of fresh cfg]) blast
  have "0 < on_feed (ad_feed a) ?as" using assms(3) by (auto simp: on_feed_def filter_empty_conv)
  then obtain k where "map_of (as_capacity_left st) (ad_feed a) = Some k" using fd by blast
  from map_of_key [OF this] show keyed: "ad_feed a \<in> set (dict_keys cap)" using assms(2) unfolding state_inv_def by metis
  then show "feed_valid (ad_feed a)" using assms(1) unfolding cap_ok_def by blast
  have "ad_symbol a \<in> set (map ad_symbol ?as)" using assms(3) by simp
  then have "ad_symbol a \<in> kw_symbol ` set qs" unfolding q(2) using set_take_subset [of _ "sort_key by_value qs"] by auto
  then show "ad_symbol a \<in> kw_symbol ` set fresh" using q(1) by auto
qed

text \<open>Writing the rows of a decision keeps the ledger's account, and booking it keeps the state's.\<close>

lemma decision_inv:
  assumes "cap_ok cap" "ledger_inv cap rows" "state_inv cap rows st"
    and as: "as = dn_admitted (decide_admissions fresh st cfg)"
    and rs: "map m_symbol rs = map ad_symbol as" "map feed_of rs = map (Inr \<circ> ad_feed) as" "list_all (\<lambda>r. m_tier r = ''B'' \<and> m_source r = ''dynamic'') rs"
  shows "ledger_inv cap (rows @ rs)" "state_inv cap (rows @ rs) (book_all as st)"
proof -
  have wf: "wf_dict (as_capacity_left st)" using assms(1,3) by (simp add: cap_ok_def state_inv_def)
  obtain qs where q: "set qs \<subseteq> {row \<in> set fresh. candidate cfg st row}" "distinct (map kw_symbol qs)"
    "map ad_symbol as = map kw_symbol (take (free_slots (as_capacity_left st)) (sort_key by_value qs))"
    and fd: "\<And>f. 0 < on_feed f as \<Longrightarrow> \<exists>n. map_of (as_capacity_left st) f = Some n \<and> int (on_feed f as) \<le> n"
    by (rule decide_spec [OF wf, of fresh cfg]) (simp add: as)
  note new = new_dyn_rows [OF rs]
  have "distinct (map kw_symbol (sort_key by_value qs))" using q(2) by (simp add: distinct_map)
  then have dist: "distinct (map ad_symbol as)" unfolding q(3) take_map [symmetric] by (rule distinct_take)
  have "set (map ad_symbol as) \<subseteq> kw_symbol ` set qs" unfolding q(3) using set_take_subset [of _ "sort_key by_value qs"] by auto
  moreover have "kw_symbol ` set qs \<inter> as_collected st = {}" using q(1) by (auto simp: candidate_def)
  ultimately have "set (map ad_symbol as) \<inter> as_collected st = {}" by blast
  then have fresh: "set (map ad_symbol as) \<inter> m_symbol ` set (dyn_rows rows) = {}" using assms(3) unfolding state_inv_def by blast
  have used: "int (on_feed f as) \<le> n - feed_rows f rows" if "map_of cap f = Some n" for f n
  proof (cases "on_feed f as = 0")
    case True
    then show ?thesis using assms(2) that by (simp add: ledger_inv_def)
  next
    case False
    then obtain k where "map_of (as_capacity_left st) f = Some k" "int (on_feed f as) \<le> k" using fd [of f] by auto
    then show ?thesis using assms(3) that by (auto simp: state_inv_def)
  qed
  have keyed: "ad_feed a \<in> set (dict_keys cap)" if "a \<in> set as" for a using decide_admitted(1) [OF assms(1,3)] that by (simp add: as)
  have feeds: "\<exists>f. feed_of r = Inr f \<and> f \<in> set (dict_keys cap)" if "r \<in> set rs" for r
  proof -
    have "feed_of r \<in> set (map (Inr \<circ> ad_feed) as)" using that rs(2) by (metis imageI list.set_map)
    then show ?thesis using keyed by auto
  qed
  have syms: "map m_symbol (dyn_rows (rows @ rs)) = map m_symbol (dyn_rows rows) @ map ad_symbol as" using new(1) rs(1) by simp
  have "distinct (map m_symbol (dyn_rows rows))" using assms(2) by (simp add: ledger_inv_def)
  then have "distinct (map m_symbol (dyn_rows (rows @ rs)))" unfolding syms distinct_append using dist fresh by auto
  moreover have "\<forall>r \<in> set (dyn_rows (rows @ rs)). m_tier r = ''B'' \<and> (\<exists>f. feed_of r = Inr f \<and> f \<in> set (dict_keys cap))"
    using assms(2) new(1) feeds rs(3) by (simp add: ledger_inv_def list_all_iff ball_Un)
  moreover have "feed_rows f (rows @ rs) \<le> n" if "map_of cap f = Some n" for f n using used [OF that] new(2) by simp
  moreover have "\<forall>r \<in> set (rows @ rs). m_source r \<noteq> ACK_SOURCE \<and> m_tier r \<in> {''A'', ''B''} \<longrightarrow> m_source r \<in> {''static'', ''dynamic''}"
    using assms(2) rs(3) by (simp add: ledger_inv_def list_all_iff ball_Un)
  ultimately show "ledger_inv cap (rows @ rs)" unfolding ledger_inv_def by blast
  have "map_of (fold book_admission as (as_capacity_left st)) f = Some (n - feed_rows f (rows @ rs))" if "map_of cap f = Some n" for f n
    using assms(3) that new(2) by (simp add: book_lookup state_inv_def)
  moreover have "dict_keys (fold book_admission as (as_capacity_left st)) = dict_keys cap"
    using book_keys [of as "as_capacity_left st"] keyed assms(3) unfolding state_inv_def by metis
  moreover have "m_symbol ` set (dyn_rows (rows @ rs)) \<subseteq> as_collected st \<union> set (map ad_symbol as)"
    unfolding set_map [symmetric] syms set_append using assms(3) by (auto simp: state_inv_def)
  ultimately show "state_inv cap (rows @ rs) (book_all as st)" by (simp add: state_inv_def book_all_def)
qed

lemma publish_ipc_files:
  "iw_lines (publish_ipc env as w) = iw_lines w" "di_admission (iw_discovery (publish_ipc env as w)) = book_all as (di_admission (iw_discovery w))"
  by (simp_all add: publish_ipc_def Let_def split: sum.split)

lemma publish_ipc_file: "iw_ipc (publish_ipc env as w) = (case read_dynamic_admissions (iw_ipc w) of Inl _ \<Rightarrow> iw_ipc w
    | Inr current \<Rightarrow> snd (write_dynamic_admissions (pv_ipc_ok env)
        \<lparr>dp_rev = dp_rev current + 1, dp_entries = dp_entries current @ map (dyn_entry (pv_decided env)) as\<rparr> (iw_ipc w)))"
  by (simp add: publish_ipc_def Let_def split: sum.split)

lemma list_all2_related: "list_all2 P xs ys \<Longrightarrow> x \<in> set xs \<Longrightarrow> \<exists>y \<in> set ys. P x y"
  by (induction rule: list_all2_induct) auto

lemma named_codes: "list_all2 named es rs \<Longrightarrow> list_all (\<lambda>r. P (m_symbol r)) rs \<Longrightarrow> list_all (\<lambda>e. P (dy_symbol e)) es"
  by (induction rule: list_all2_induct) (simp_all add: named_def)

lemma publish_ipc_inv:
  assumes "ipc_inv rows (iw_ipc w)" "exact \<Longrightarrow> ipc_exact rows (iw_ipc w)"
    and new: "dyn_rows rs = rs" "list_all2 named (map (dyn_entry (pv_decided env)) as) rs" "list_all (\<lambda>r. is_krx_short_code (JStr (m_symbol r))) rs"
  shows "ipc_inv (rows @ rs) (iw_ipc (publish_ipc env as w))" "exact \<and> pv_ipc_ok env \<Longrightarrow> ipc_exact (rows @ rs) (iw_ipc (publish_ipc env as w))"
proof -
  let ?es = "map (dyn_entry (pv_decided env)) as"
  show "ipc_inv (rows @ rs) (iw_ipc (publish_ipc env as w))"
  proof (cases "read_dynamic_admissions (iw_ipc w)")
    case (Inl e)
    then show ?thesis by (simp add: publish_ipc_file ipc_inv_def)
  next
    case (Inr current)
    let ?p = "\<lparr>dp_rev = dp_rev current + 1, dp_entries = dp_entries current @ ?es\<rparr>"
    have old: "\<exists>r \<in> set (dyn_rows (rows @ rs)). named e r" if "e \<in> set (dp_entries current)" for e
    proof -
      have "\<forall>e \<in> set (dp_entries current). \<exists>r \<in> set (dyn_rows rows). named e r" using assms(1) Inr by (simp add: ipc_inv_def)
      from bspec [OF this that] obtain r where "r \<in> set (dyn_rows rows)" "named e r" by (rule bexE)
      then show ?thesis by (intro bexI [of _ r]) simp_all
    qed
    have "\<exists>r \<in> set (dyn_rows (rows @ rs)). named e r" if mem: "e \<in> set ?es" for e
    proof -
      obtain r where "r \<in> set rs" "named e r" using list_all2_related [OF new(2) mem] by blast
      then show ?thesis using new(1) by (intro bexI [of _ r]) simp_all
    qed
    with old have "\<exists>r \<in> set (dyn_rows (rows @ rs)). named e r" if "e \<in> set (dp_entries current @ ?es)" for e using that unfolding set_append by blast
    then show ?thesis using old Inr write_read [OF Inr, of ?p ?es "pv_ipc_ok env"]
      by (simp add: publish_ipc_file ipc_inv_def split: if_splits)
  qed
  assume x: "exact \<and> pv_ipc_ok env"
  then obtain current where c: "read_dynamic_admissions (iw_ipc w) = Inr current" "list_all2 named (dp_entries current) (dyn_rows rows)"
    "list_all (\<lambda>r. is_krx_short_code (JStr (m_symbol r))) (dyn_rows rows)" using assms(2) by (auto simp: ipc_exact_def)
  let ?p = "\<lparr>dp_rev = dp_rev current + 1, dp_entries = dp_entries current @ ?es\<rparr>"
  have l2: "list_all2 named (dp_entries ?p) (dyn_rows (rows @ rs))" using c(2) new(1,2) by (simp add: list_all2_appendI)
  have l: "list_all (\<lambda>r. is_krx_short_code (JStr (m_symbol r))) (dyn_rows (rows @ rs))" using c(3) new(1,3) by simp
  have "\<not> list_ex (\<lambda>e. \<not> is_krx_short_code (JStr (dy_symbol e))) (dp_entries ?p)"
    using named_codes [OF l2, of "\<lambda>x. is_krx_short_code (JStr x)"] l by (simp add: list_ex_iff list_all_iff)
  then show "ipc_exact (rows @ rs) (iw_ipc (publish_ipc env as w))"
    using x c(1) l2 l write_read [OF c(1), of ?p ?es True] by (simp add: publish_ipc_file ipc_exact_def)
qed

lemma ipc_inv_cong: "dyn_rows rows' = dyn_rows rows \<Longrightarrow> ipc_inv rows' ipc = ipc_inv rows ipc \<and> ipc_exact rows' ipc = ipc_exact rows ipc"
  by (simp add: ipc_inv_def ipc_exact_def)

lemma publish_inv:
  assumes "cap_ok cap" "world_inv cap exact w"
    and dec: "decision = decide_admissions fresh (di_admission (iw_discovery w)) cfg"
    and codes: "list_all (\<lambda>row. is_krx_short_code (JStr (kw_symbol row))) fresh"
  shows "fst (publish env decision full w) = Inr () \<and> world_inv cap (exact \<and> pv_ipc_ok env) (snd (publish env decision full w))"
proof (cases "dn_admitted decision = [] \<and> full = []")
  case True
  then show ?thesis using assms(2) by (auto simp: publish_def world_inv_def)
next
  case False
  let ?st = "di_admission (iw_discovery w)" and ?as = "dn_admitted decision" and ?full = "map (tier_c ''intraday_capacity'' (pv_decided env)) full"
  obtain rows where r: "read_membership (iw_lines w) = Inr rows" "ledger_inv cap rows" "state_inv cap rows ?st" "ipc_inv rows (iw_ipc w)"
    "exact \<Longrightarrow> ipc_exact rows (iw_ipc w)" using assms(2) by (auto simp: world_inv_def)
  note ad = decide_admitted [OF assms(1) r(3), of _ fresh cfg, folded dec]
  have "\<forall>a \<in> set ?as. feed_valid (ad_feed a)" using ad(2) by blast
  from admitted_rows [OF this] obtain rs where rs: "rmap (admitted_row (pv_decided env) (di_warning_levels (iw_discovery w))) ?as = Inr rs"
    "map m_symbol rs = map ad_symbol ?as" "map feed_of rs = map (Inr \<circ> ad_feed) ?as" "list_all (\<lambda>r. m_tier r = ''B'' \<and> m_source r = ''dynamic'') rs" by blast
  note new = new_dyn_rows(1) [OF rs(2-4)] new_dyn_rows(3) [OF rs(2-4), of "pv_decided env"]
  have sc: "list_all (\<lambda>r. is_krx_short_code (JStr (m_symbol r))) rs"
  proof -
    have "set (map m_symbol rs) \<subseteq> kw_symbol ` set fresh" unfolding rs(2) using ad(3) by auto
    then show ?thesis using codes by (auto simp: list_all_iff)
  qed
  have neu: "list_all neutral ?full" by (simp add: list_all_iff)
  note inv = decision_inv [OF assms(1) r(2,3) dec [THEN arg_cong, of dn_admitted] rs(2-4)]
  show ?thesis
  proof (rule append_outcome [OF r(1), of env "rs @ ?full"])
    fix e assume "try_append env (rs @ ?full) (iw_lines w) = (Inl e, iw_lines w)"
    then have "publish env decision full w = (Inr (), w)" using False rs(1) by (auto simp: publish_def)
    then show ?thesis using assms(2) by (auto simp: world_inv_def)
  next
    fix lines' assume t: "try_append env (rs @ ?full) (iw_lines w) = (Inr (), lines')" "read_membership lines' = Inr (rows @ rs @ ?full)"
    let ?w = "w\<lparr>iw_lines := lines'\<rparr>"
    have p: "publish env decision full w = (Inr (), if ?as = [] then ?w else publish_ipc env ?as ?w)" using False rs(1) t(1) by (auto simp: publish_def)
    have n: "ledger_inv cap (rows @ rs @ ?full)" "state_inv cap (rows @ rs @ ?full) st \<longleftrightarrow> state_inv cap (rows @ rs) st" "dyn_rows (rows @ rs @ ?full) = dyn_rows (rows @ rs)" for st
      using neutral_inv(1,2) [OF neu, of cap "rows @ rs"] neutral_inv(3) [OF neu, of "rows @ rs"] inv(1) by simp_all
    note files = publish_ipc_inv [of rows ?w exact rs env ?as, simplified, OF r(4,5) new sc]
    show ?thesis
    proof (cases "?as = []")
      case True
      then have "rs = []" using rs(1) by simp
      then show ?thesis using p True t(2) n r ipc_inv_cong [OF n(3)] by (auto simp: world_inv_def)
    next
      case ne: False
      have "world_inv cap (exact \<and> pv_ipc_ok env) (publish_ipc env ?as ?w)"
        unfolding world_inv_def using t(2) n inv(2) files ipc_inv_cong [OF n(3)] by (auto simp: publish_ipc_files)
      then show ?thesis using p ne by simp
    qed
  qed
qed

section \<open>Runs of the day\<close>

datatype intraday_event =
    EvPoll poll_env
  | EvPostClose poll_env
  | EvRestart "string set"
  | EvStatic bool "membership_row list"
  | EvAcks poll_env dynamic_feed int "vendor_ack list"

text \<open>A restart rebuilds the state from the ledger; the file names what is ineligible by then.\<close>

fun intraday_step :: "discovery_cfg \<Rightarrow> (string, int) dict \<Rightarrow> intraday_event \<Rightarrow> intraday_world \<Rightarrow> intraday_world" where
  "intraday_step dc cap (EvPoll env) w = snd (admission_poll dc env w)"
| "intraday_step dc cap (EvPostClose env) w = snd (post_close_poll dc env w)"
| "intraday_step dc cap (EvRestart ineligible) w =
     (case rbind (read_membership (iw_lines w)) (\<lambda>rows. state_from_ledger rows ineligible cap) of
        Inl _ \<Rightarrow> w
      | Inr st \<Rightarrow> w\<lparr>iw_discovery := new_discovery st\<rparr>)"
| "intraday_step dc cap (EvStatic write_ok rows) w = w\<lparr>iw_lines := record_static_membership write_ok rows (iw_lines w)\<rparr>"
| "intraday_step dc cap (EvAcks env feed decided acks) w = w\<lparr>iw_lines := snd (try_append env (map (ack_row feed decided) acks) (iw_lines w))\<rparr>"

definition codes_ok :: "poll_env \<Rightarrow> bool" where
  "codes_ok env \<longleftrightarrow> (case pv_rows env of None \<Rightarrow> True | Some rows \<Rightarrow> list_all (\<lambda>row. is_krx_short_code (JStr (kw_symbol row))) rows)"

text \<open>Ranked symbols are checked by the parser of the ranking; the daemon writes static rows only.\<close>

fun event_ok :: "intraday_event \<Rightarrow> bool" where
  "event_ok (EvPoll env) = codes_ok env"
| "event_ok (EvStatic _ rows) = list_all (\<lambda>r. m_source r = ''static'') rows"
| "event_ok _ = True"

fun ipc_fine :: "intraday_event \<Rightarrow> bool" where
  "ipc_fine (EvPoll env) = pv_ipc_ok env"
| "ipc_fine _ = True"

definition day_start :: "string set \<Rightarrow> (string, int) dict \<Rightarrow> intraday_world" where
  "day_start ineligible cap = \<lparr>iw_discovery = new_discovery \<lparr>as_collected = {}, as_ineligible = ineligible, as_capacity_left = cap\<rparr>, iw_lines = [], iw_ipc = FileMissing\<rparr>"

lemma day_start_state: "state_from_ledger [] ineligible cap = Inr (di_admission (iw_discovery (day_start ineligible cap)))"
  by (simp add: state_from_ledger_def effective_tiers_def day_start_def new_discovery_def)

lemma day_start_inv: "cap_ok cap \<Longrightarrow> world_inv cap True (day_start ineligible cap)"
  by (auto simp: world_inv_def day_start_def read_membership_def ledger_inv_def state_inv_def new_discovery_def ipc_inv_def ipc_exact_def
      read_dynamic_admissions_def dyn_rows_def feed_rows_def cap_ok_def dest: dict_all_lookup)

lemma world_inv_state:
  "world_inv cap exact w \<Longrightarrow> as_collected (di_admission d) = as_collected (di_admission (iw_discovery w))
     \<Longrightarrow> as_capacity_left (di_admission d) = as_capacity_left (di_admission (iw_discovery w)) \<Longrightarrow> world_inv cap exact (w\<lparr>iw_discovery := d\<rparr>)"
  by (auto simp: world_inv_def state_inv_def)

lemma world_inv_weaken: "world_inv cap exact w \<Longrightarrow> (exact' \<Longrightarrow> exact) \<Longrightarrow> world_inv cap exact' w"
  unfolding world_inv_def by blast

lemma admission_poll_cases:
  obtains (quiet) "admission_poll dc env w = (Inr (), w\<lparr>iw_discovery := (iw_discovery w)\<lparr>di_failures := di_failures (iw_discovery w) + 1\<rparr>\<rparr>)"
    | (polled) rows fresh full w1 where "pv_rows env = Some rows" "set fresh \<subseteq> set rows"
      "admission_poll dc env w = publish env (decide_admissions fresh (di_admission (iw_discovery w1)) (dv_cfg dc)) full w1"
      "iw_ipc w1 = iw_ipc w" "iw_lines w1 = iw_lines w" "as_collected (di_admission (iw_discovery w1)) = as_collected (di_admission (iw_discovery w))"
      "as_capacity_left (di_admission (iw_discovery w1)) = as_capacity_left (di_admission (iw_discovery w))"
proof (cases "pv_rows env")
  case None
  then show thesis using quiet by (simp add: admission_poll_def poll_rows_def)
next
  case (Some rows)
  obtain d1 fresh where s: "fold (screen_row dc env) rows (iw_discovery w\<lparr>di_failures := 0\<rparr>, []) = (d1, fresh)" by fastforce
  note k = screen_fold_keeps [OF s]
  define full where "full = capacity_rows_of fresh (di_capacity_once d1) (dn_rejected (decide_admissions fresh (di_admission d1) (dv_cfg dc)))"
  define w1 where "w1 = w\<lparr>iw_discovery := d1\<lparr>di_capacity_once := di_capacity_once d1 \<union> set (map kw_symbol full)\<rparr>\<rparr>"
  have "admission_poll dc env w = publish env (decide_admissions fresh (di_admission (iw_discovery w1)) (dv_cfg dc)) full w1"
    by (simp add: admission_poll_def poll_rows_def Some s w1_def full_def Let_def)
  then show thesis using k Some by (intro polled [where rows = rows and fresh = fresh and full = full and ?w1.0 = w1]) (simp_all add: w1_def)
qed

lemma admission_poll_inv:
  assumes "cap_ok cap" "world_inv cap exact w" "codes_ok env"
  shows "fst (admission_poll dc env w) = Inr () \<and> world_inv cap (exact \<and> pv_ipc_ok env) (snd (admission_poll dc env w))"
proof (cases dc env w rule: admission_poll_cases)
  case quiet
  have "world_inv cap (exact \<and> pv_ipc_ok env) w" by (rule world_inv_weaken [OF assms(2)]) simp
  then show ?thesis using quiet world_inv_state by simp
next
  case (polled rows fresh full w1)
  have "world_inv cap exact w1" using assms(2) polled(4-7) by (simp add: world_inv_def state_inv_def)
  moreover have "list_all (\<lambda>row. is_krx_short_code (JStr (kw_symbol row))) fresh" using assms(3) polled(1,2) by (auto simp: codes_ok_def list_all_iff)
  ultimately show ?thesis using publish_inv [OF assms(1)] polled(3) by simp
qed

lemma neutral_append_inv:
  assumes "world_inv cap exact w" "list_all neutral new" "iw_ipc w' = iw_ipc w" "iw_lines w' = snd (try_append env new (iw_lines w))"
    "di_admission (iw_discovery w') = di_admission (iw_discovery w)"
  shows "world_inv cap exact w'"
proof -
  obtain rows where r: "read_membership (iw_lines w) = Inr rows" "ledger_inv cap rows" "state_inv cap rows (di_admission (iw_discovery w))" "ipc_inv rows (iw_ipc w)"
    "exact \<Longrightarrow> ipc_exact rows (iw_ipc w)" using assms(1) by (auto simp: world_inv_def)
  show ?thesis
  proof (rule append_outcome [OF r(1), of env new])
    fix e assume "try_append env new (iw_lines w) = (Inl e, iw_lines w)"
    then show ?thesis using assms r by (auto simp: world_inv_def)
  next
    fix lines' assume "try_append env new (iw_lines w) = (Inr (), lines')" "read_membership lines' = Inr (rows @ new)"
    then show ?thesis using assms r neutral_inv [OF assms(2)] ipc_inv_cong [OF neutral_inv(3) [OF assms(2)]]
      unfolding world_inv_def by (intro exI [of _ "rows @ new"]) simp
  qed
qed

lemma post_close_inv:
  assumes "world_inv cap exact w"
  shows "fst (post_close_poll dc env w) = Inr () \<and> world_inv cap exact (snd (post_close_poll dc env w))"
proof (cases "pv_rows env")
  case None
  then show ?thesis using world_inv_state [OF assms] by (simp add: post_close_poll_def poll_rows_def)
next
  case (Some rows)
  obtain ledger where l: "rbind (read_membership (iw_lines w)) effective_tiers = Inr ledger"
    using assms effective_spec [OF read_rows_valid] by (fastforce simp: world_inv_def)
  let ?w = "snd (post_close_poll dc env w)"
  define new where "new = map (tier_c ''post_close_screen'' (pv_decided env)) (filter (\<lambda>row. qualifies row (dv_cfg dc) \<and> map_of ledger (kw_symbol row) = None) rows)"
  have "list_all neutral new" by (simp add: new_def list_all_iff)
  moreover have "fst (post_close_poll dc env w) = Inr ()" "iw_ipc ?w = iw_ipc w" "iw_lines ?w = snd (try_append env new (iw_lines w))"
    "di_admission (iw_discovery ?w) = di_admission (iw_discovery w)"
    by (simp_all add: post_close_poll_def poll_rows_def Some l Let_def new_def)
  ultimately show ?thesis using neutral_append_inv [OF assms] by simp
qed

lemma static_inv:
  assumes "world_inv cap exact w" "list_all (\<lambda>r. m_source r = ''static'') rows"
  shows "world_inv cap exact (w\<lparr>iw_lines := record_static_membership ok rows (iw_lines w)\<rparr>)"
proof -
  define env where "env = (undefined :: poll_env)\<lparr>pv_append_ok := True\<rparr>"
  have neu: "list_all neutral rows" using assms(2) by (auto simp: list_all_iff neutral_def)
  have "record_static_membership ok rows (iw_lines w) = iw_lines w \<or> record_static_membership ok rows (iw_lines w) = snd (try_append env rows (iw_lines w))"
    by (cases "read_membership (iw_lines w)") (simp_all add: record_static_membership_def try_append_def env_def)
  then show ?thesis
  proof
    assume "record_static_membership ok rows (iw_lines w) = iw_lines w"
    then show ?thesis using assms(1) by (simp add: world_inv_def)
  next
    assume "record_static_membership ok rows (iw_lines w) = snd (try_append env rows (iw_lines w))"
    then show ?thesis by (intro neutral_append_inv [OF assms(1) neu, where env = env]) simp_all
  qed
qed

lemma restart_world:
  assumes "cap_ok cap" "world_inv cap exact w"
  shows "world_inv cap exact (intraday_step dc cap (EvRestart ineligible) w)"
proof -
  obtain rows where r: "read_membership (iw_lines w) = Inr rows" "ledger_inv cap rows" using assms(2) by (auto simp: world_inv_def)
  obtain st where "state_from_ledger rows ineligible cap = Inr st" "state_inv cap rows st" using restart_inv [OF read_rows_valid [OF r(1)] r(2) assms(1)] by blast
  then show ?thesis using assms(2) r by (auto simp: world_inv_def new_discovery_def)
qed

lemma intraday_step_inv:
  assumes "cap_ok cap" "world_inv cap exact w" "event_ok ev"
  shows "world_inv cap (exact \<and> ipc_fine ev) (intraday_step dc cap ev w)"
proof (cases ev)
  case (EvPoll env)
  then show ?thesis using admission_poll_inv [OF assms(1,2)] assms(3) by simp
next
  case (EvPostClose env)
  then show ?thesis using post_close_inv [OF assms(2)] by simp
next
  case (EvRestart ineligible)
  then show ?thesis using restart_world [OF assms(1,2)] by simp
next
  case (EvStatic ok rows)
  then show ?thesis using static_inv [OF assms(2)] assms(3) by simp
next
  case (EvAcks env feed decided acks)
  have "list_all neutral (map (ack_row feed decided) acks)" by (simp add: list_all_iff)
  from neutral_append_inv [OF assms(2) this, where env = env] show ?thesis using EvAcks by simp
qed

lemma intraday_run_inv:
  "cap_ok cap \<Longrightarrow> world_inv cap exact w \<Longrightarrow> list_all event_ok evs \<Longrightarrow> world_inv cap (exact \<and> list_all ipc_fine evs) (fold (intraday_step dc cap) evs w)"
proof (induction evs arbitrary: w exact)
  case (Cons ev evs)
  then show ?case using Cons.IH [OF Cons.prems(1) intraday_step_inv [OF Cons.prems(1,2)]] by (simp add: conj_assoc)
qed simp

section \<open>Lost admissions\<close>

definition plan_symbols :: "text_file \<Rightarrow> string set" where
  "plan_symbols ipc = (case read_dynamic_admissions ipc of Inl _ \<Rightarrow> {} | Inr p \<Rightarrow> dy_symbol ` set (dp_entries p))"

lemma publish_ipc_symbols: "plan_symbols (iw_ipc (publish_ipc env as w)) \<subseteq> plan_symbols (iw_ipc w) \<union> set (map ad_symbol as)"
proof (cases "read_dynamic_admissions (iw_ipc w)")
  case (Inr current)
  then show ?thesis
    using write_read [OF Inr refl, where ok = "pv_ipc_ok env" and es = "map (dyn_entry (pv_decided env)) as"]
    by (auto simp: publish_ipc_file plan_symbols_def dyn_entry_def split: sum.splits if_splits)
qed (simp add: publish_ipc_file plan_symbols_def)

lemma publish_cases:
  "iw_ipc (snd (publish env dec full w)) = iw_ipc w \<or> (\<exists>lines. snd (publish env dec full w) = publish_ipc env (dn_admitted dec) (w\<lparr>iw_lines := lines\<rparr>))"
proof (cases "rmap (admitted_row (pv_decided env) (di_warning_levels (iw_discovery w))) (dn_admitted dec)")
  case (Inr rows)
  obtain r lines where "try_append env (rows @ map (tier_c ''intraday_capacity'' (pv_decided env)) full) (iw_lines w) = (r, lines)" by fastforce
  then show ?thesis using Inr by (cases r) (auto simp: publish_def)
qed (simp add: publish_def)

lemma publish_symbols: "plan_symbols (iw_ipc (snd (publish env dec full w))) \<subseteq> plan_symbols (iw_ipc w) \<union> set (map ad_symbol (dn_admitted dec))"
proof -
  have "plan_symbols (iw_ipc (publish_ipc env (dn_admitted dec) (w\<lparr>iw_lines := lines\<rparr>))) \<subseteq> plan_symbols (iw_ipc w) \<union> set (map ad_symbol (dn_admitted dec))" for lines
    using publish_ipc_symbols [of env "dn_admitted dec" "w\<lparr>iw_lines := lines\<rparr>"] by simp
  then show ?thesis using publish_cases [of env dec full w] by (metis Un_upper1)
qed

lemma decide_fresh:
  assumes "wf_dict (as_capacity_left st)"
  shows "set (map ad_symbol (dn_admitted (decide_admissions fresh st cfg))) \<inter> as_collected st = {}"
proof -
  obtain qs where q: "set qs \<subseteq> {row \<in> set fresh. candidate cfg st row}"
    "map ad_symbol (dn_admitted (decide_admissions fresh st cfg)) = map kw_symbol (take (free_slots (as_capacity_left st)) (sort_key by_value qs))"
    by (rule decide_spec [OF assms, of fresh cfg]) blast
  have "set (map ad_symbol (dn_admitted (decide_admissions fresh st cfg))) \<subseteq> kw_symbol ` set qs"
    unfolding q(2) using set_take_subset [of _ "sort_key by_value qs"] by auto
  moreover have "kw_symbol ` set qs \<inter> as_collected st = {}" using q(1) by (auto simp: candidate_def)
  ultimately show ?thesis by blast
qed

lemma poll_symbols:
  assumes "wf_dict (as_capacity_left (di_admission (iw_discovery w)))" "s \<in> as_collected (di_admission (iw_discovery w))" "s \<notin> plan_symbols (iw_ipc w)"
  shows "s \<notin> plan_symbols (iw_ipc (snd (admission_poll dc env w)))"
proof (cases dc env w rule: admission_poll_cases)
  case quiet
  then show ?thesis using assms(3) by simp
next
  case (polled rows fresh full w1)
  have "s \<notin> set (map ad_symbol (dn_admitted (decide_admissions fresh (di_admission (iw_discovery w1)) (dv_cfg dc))))"
    using decide_fresh [of "di_admission (iw_discovery w1)" fresh "dv_cfg dc"] assms(1,2) polled(6,7) by auto
  then show ?thesis using publish_symbols [of env "decide_admissions fresh (di_admission (iw_discovery w1)) (dv_cfg dc)" full w1] assms(3) polled(3,4) by auto
qed

text \<open>The ledger only grows.\<close>

lemma append_grows: "read_membership lines = Inr rows \<Longrightarrow> \<exists>new. read_membership (snd (try_append env xs lines)) = Inr (rows @ new)"
  by (rule append_outcome [of lines rows env xs]) auto

lemma publish_lines: "iw_lines (snd (publish env dec full w)) = iw_lines w \<or> (\<exists>xs. iw_lines (snd (publish env dec full w)) = snd (try_append env xs (iw_lines w)))"
proof (cases "rmap (admitted_row (pv_decided env) (di_warning_levels (iw_discovery w))) (dn_admitted dec)")
  case (Inr rows)
  let ?xs = "rows @ map (tier_c ''intraday_capacity'' (pv_decided env)) full"
  obtain r lines where "try_append env ?xs (iw_lines w) = (r, lines)" by fastforce
  then have "iw_lines (snd (publish env dec full w)) = iw_lines w \<or> iw_lines (snd (publish env dec full w)) = snd (try_append env ?xs (iw_lines w))"
    using Inr by (cases r) (auto simp: publish_def publish_ipc_files)
  then show ?thesis by blast
qed (simp add: publish_def)

lemma step_grows:
  assumes "read_membership (iw_lines w) = Inr rows"
  shows "\<exists>new. read_membership (iw_lines (intraday_step dc cap ev w)) = Inr (rows @ new)"
proof (cases ev)
  case (EvPoll env)
  show ?thesis
  proof (cases dc env w rule: admission_poll_cases)
    case quiet
    then show ?thesis using EvPoll assms by simp
  next
    case (polled rs fresh full w1)
    then show ?thesis using publish_lines [of env _ full w1] append_grows [OF assms, of env] assms EvPoll by (metis append_Nil2 intraday_step.simps(1))
  qed
next
  case (EvPostClose env)
  have "iw_lines (snd (post_close_poll dc env w)) = iw_lines w \<or> (\<exists>xs. iw_lines (snd (post_close_poll dc env w)) = snd (try_append env xs (iw_lines w)))"
    by (auto simp: post_close_poll_def poll_rows_def Let_def split: option.splits sum.splits)
  then show ?thesis using append_grows [OF assms, of env] assms EvPostClose by (metis append_Nil2 intraday_step.simps(2))
next
  case (EvRestart ineligible)
  then show ?thesis using assms by (cases "state_from_ledger rows ineligible cap") simp_all
next
  case (EvStatic ok xs)
  have "append_membership (iw_lines w) xs = try_append ((undefined :: poll_env)\<lparr>pv_append_ok := True\<rparr>) xs (iw_lines w)" by (simp add: try_append_def)
  then have "\<exists>new. read_membership (snd (append_membership (iw_lines w) xs)) = Inr (rows @ new)" using append_grows [OF assms] by metis
  then show ?thesis using assms EvStatic by (simp add: record_static_membership_def)
next
  case (EvAcks env feed decided acks)
  then show ?thesis using append_grows [OF assms] by simp
qed

lemma step_symbols:
  assumes "cap_ok cap" "world_inv cap exact w" "read_membership (iw_lines w) = Inr rows" "s \<in> m_symbol ` set (dyn_rows rows)" "s \<notin> plan_symbols (iw_ipc w)"
  shows "s \<notin> plan_symbols (iw_ipc (intraday_step dc cap ev w))"
proof (cases ev)
  case (EvPoll env)
  have "state_inv cap rows (di_admission (iw_discovery w))" using assms(2,3) by (auto simp: world_inv_def)
  then have "wf_dict (as_capacity_left (di_admission (iw_discovery w)))" "s \<in> as_collected (di_admission (iw_discovery w))"
    using assms(1,4) by (auto simp: state_inv_def cap_ok_def)
  then show ?thesis using poll_symbols [of w s] assms(5) EvPoll by simp
next
  case (EvPostClose env)
  have "iw_ipc (snd (post_close_poll dc env w)) = iw_ipc w" by (simp add: post_close_poll_def poll_rows_def Let_def split: option.split sum.split)
  then show ?thesis using assms(5) EvPostClose by simp
next
  case (EvRestart ineligible)
  then show ?thesis using assms(5) by (simp split: sum.split)
qed (use assms(5) in simp_all)

lemma lost_run:
  assumes "cap_ok cap"
  shows "world_inv cap exact w \<Longrightarrow> list_all event_ok evs \<Longrightarrow> read_membership (iw_lines w) = Inr rows \<Longrightarrow> s \<in> m_symbol ` set (dyn_rows rows)
    \<Longrightarrow> s \<notin> plan_symbols (iw_ipc w) \<Longrightarrow> s \<notin> plan_symbols (iw_ipc (fold (intraday_step dc cap) evs w))"
proof (induction evs arbitrary: w exact rows)
  case (Cons ev evs)
  obtain new where r: "read_membership (iw_lines (intraday_step dc cap ev w)) = Inr (rows @ new)" using step_grows [OF Cons.prems(3)] by blast
  have "world_inv cap (exact \<and> ipc_fine ev) (intraday_step dc cap ev w)" using intraday_step_inv [OF assms Cons.prems(1)] Cons.prems(2) by simp
  moreover have "s \<notin> plan_symbols (iw_ipc (intraday_step dc cap ev w))" by (rule step_symbols [OF assms Cons.prems(1,3,4,5)])
  ultimately show ?case using Cons.IH [OF _ _ r] Cons.prems(2,4) by auto
qed simp

section \<open>Properties\<close>


definition demo_poll :: "bool \<Rightarrow> poll_env" where
  "demo_poll ipc_ok = \<lparr>pv_now = 0, pv_rows = Some [\<lparr>kw_rank = 1, kw_symbol = ''005930'', kw_last_price = 1, kw_change_pct = 6, kw_trade_value_krw = 9\<rparr>,
     \<lparr>kw_rank = 2, kw_symbol = ''000660'', kw_last_price = 1, kw_change_pct = -6, kw_trade_value_krw = 8\<rparr>],
     pv_status = (\<lambda>_. None), pv_decided = 1, pv_append_ok = True, pv_ipc_ok = ipc_ok\<rparr>"

definition demo_intraday :: discovery_cfg where
  "demo_intraday = \<lparr>dv_cfg = \<lparr>ia_poll_interval_s = 60, ia_start_after_open_s = 30, ia_admission_cutoff = 0, ia_post_close_screen_at = 1, ia_min_abs_change_pct = 5, ia_min_trade_value_krw = 5\<rparr>,
     dv_day = 0, dv_open_time = 0, dv_checks = True\<rparr>"

definition demo_world :: "bool \<Rightarrow> intraday_world" where
  "demo_world ipc_ok = fold (intraday_step demo_intraday (feed_capacities 1 0 None)) [EvPoll (demo_poll ipc_ok)] (day_start {} (feed_capacities 1 0 None))"

text \<open>Two rows qualify and one slot is free: the larger is admitted.\<close>

lemma demo_world_rows: "(case read_membership (iw_lines (demo_world ok)) of Inr rows \<Rightarrow> map m_symbol (dyn_rows rows) = [''005930''] | Inl _ \<Rightarrow> False)"
  by (cases ok) code_simp+

lemma demo_world_plan: "''005930'' \<in> plan_symbols (iw_ipc (demo_world True))" "''005930'' \<notin> plan_symbols (iw_ipc (demo_world False))"
  by code_simp+


text \<open>
  C35. An admission whose entry in the admissions file could not be written is lost for the day: its slot stays taken in
  the ledger, but whatever happens later, restarts included, no admissions file names the symbol, so no feed subscribes it.
\<close>

theorem unwritten_admission_is_lost:
  assumes cap: "cap = feed_capacities reserve kis_symbols kis_slot" and evs: "list_all event_ok evs" "list_all event_ok later"
    and w: "w = fold (intraday_step dc cap) evs (day_start ineligible cap)"
    and lost: "read_membership (iw_lines w) = Inr rows" "r \<in> set (dyn_rows rows)" "m_symbol r \<notin> plan_symbols (iw_ipc w)"
  shows "m_symbol r \<notin> plan_symbols (iw_ipc (fold (intraday_step dc cap) later w))"
proof -
  have c: "cap_ok cap" unfolding cap by (rule feed_capacities_ok)
  have "world_inv cap (list_all ipc_fine evs) w" using intraday_run_inv [OF c day_start_inv [OF c] evs(1)] unfolding w by simp
  from lost_run [OF c this evs(2) lost(1) _ lost(3)] show ?thesis using lost(2) by blast
qed

theorem unwritten_admission_is_lost_witness:
  "\<exists>rows r. read_membership (iw_lines (demo_world False)) = Inr rows \<and> r \<in> set (dyn_rows rows) \<and> m_symbol r = ''005930''
     \<and> ''005930'' \<notin> plan_symbols (iw_ipc (fold (intraday_step demo_intraday (feed_capacities 1 0 None)) [EvRestart {}, EvPoll (demo_poll True)] (demo_world False)))"
proof -
  obtain rows where rows: "read_membership (iw_lines (demo_world False)) = Inr rows" "map m_symbol (dyn_rows rows) = [''005930'']"
    using demo_world_rows [of False] by (cases "read_membership (iw_lines (demo_world False))") auto
  then obtain r where r: "r \<in> set (dyn_rows rows)" "m_symbol r = ''005930''" by auto
  have "list_all event_ok [EvPoll (demo_poll False)]" "list_all event_ok [EvRestart {}, EvPoll (demo_poll True)]"
    by (simp_all add: codes_ok_def demo_poll_def is_krx_short_code_def) code_simp+
  from unwritten_admission_is_lost [OF refl this demo_world_def rows(1) r(1)] show ?thesis using rows(1) r demo_world_plan(2) by auto
qed

lemma wanted_member: "(x, stream) \<in> set (wanted_pairs feed plan) \<longleftrightarrow> x \<in> set (symbols_for plan (df_feed feed)) \<and> stream \<in> set (df_streams feed)"
  by (auto simp: wanted_pairs_def)

lemma watcher_sends:
  assumes "read_dynamic_admissions ipc = Inr plan" "wt_bound wt = Some a \<Longrightarrow> wt_rev wt \<noteq> Some (dp_rev plan)" "pair \<in> set (wanted_pairs feed plan)"
  shows "pair \<in> set on_adapter \<union> wt_rejected wt \<union> set (fst (watcher_turn feed decided (Some (a, on_adapter)) subscribe ipc wt))"
proof -
  define wt2 where "wt2 = (bind_adapter a wt)\<lparr>wt_rev := Some (dp_rev plan)\<rparr>"
  have "wt_rev (bind_adapter a wt) \<noteq> Some (dp_rev plan)" using assms(2) by (auto simp: bind_adapter_def)
  then have "fst (watcher_turn feed decided (Some (a, on_adapter)) subscribe ipc wt) = new_pairs feed plan on_adapter wt2"
    using assms(1) by (cases "subscribe (new_pairs feed plan on_adapter wt2)") (simp_all add: watcher_turn_def Let_def flip: wt2_def)
  moreover have "wt_rejected wt2 = wt_rejected wt" by (simp add: wt2_def bind_adapter_def)
  ultimately show ?thesis using assms(3) by (auto simp: new_pairs_def)
qed

text \<open>
  C34. What is admitted gets subscribed. After a day's events in which no write of the admissions file failed, take any
  admission of the ledger and a watcher of its feed that has not yet handled this state of the file on its adapter. In
  its next turn it sends the symbol on every stream of the feed, but for pairs the adapter holds or the vendor rejected.
\<close>

theorem admissions_reach_feed:
  assumes cap: "cap = feed_capacities reserve kis_symbols kis_slot" and evs: "list_all event_ok evs" "list_all ipc_fine evs"
    and w: "w = fold (intraday_step dc cap) evs (day_start ineligible cap)"
    and r: "read_membership (iw_lines w) = Inr rows" "r \<in> set (dyn_rows rows)" "feed_of r = Inr (df_feed feed)" "stream \<in> set (df_streams feed)"
    and wt: "\<forall>p. read_dynamic_admissions (iw_ipc w) = Inr p \<longrightarrow> wt_bound wt \<noteq> Some a \<or> wt_rev wt \<noteq> Some (dp_rev p)"
  shows "(m_symbol r, stream) \<in> set on_adapter \<union> wt_rejected wt \<union> set (fst (watcher_turn feed decided (Some (a, on_adapter)) subscribe (iw_ipc w) wt))"
proof -
  have c: "cap_ok cap" unfolding cap by (rule feed_capacities_ok)
  have "world_inv cap True w" using intraday_run_inv [OF c day_start_inv [OF c] evs(1)] evs(2) unfolding w by simp
  then obtain p where p: "read_dynamic_admissions (iw_ipc w) = Inr p" "list_all2 named (dp_entries p) (dyn_rows rows)"
    using r(1) by (auto simp: world_inv_def ipc_exact_def)
  obtain e where "e \<in> set (dp_entries p)" "named e r" using list_all2_related [of "\<lambda>r e. named e r" "dyn_rows rows" "dp_entries p" r] p(2) r(2) by (auto simp: list_all2_conv_all_nth)
  then have "m_symbol r \<in> set (symbols_for p (df_feed feed))" using r(3) by (force simp: symbols_for_def named_def)
  then have "(m_symbol r, stream) \<in> set (wanted_pairs feed p)" using r(4) by (simp add: wanted_member)
  from watcher_sends [OF p(1) _ this] show ?thesis using wt p(1) by blast
qed

definition demo_feed :: dynamic_feed where
  "demo_feed = \<lparr>df_feed = ''ls:1'', df_streams = [''S3_''], df_ls_shard = Some 1, df_kis_slot = None\<rparr>"

definition demo_watcher :: watcher where
  "demo_watcher = \<lparr>wt_static = [], wt_accepted = [], wt_rejected = {}, wt_bound = None, wt_rev = None\<rparr>"

lemma demo_world_feed: "(case read_membership (iw_lines (demo_world ok)) of Inr rows \<Rightarrow> list_all (\<lambda>r. feed_of r = Inr ''ls:1'') (dyn_rows rows) | Inl _ \<Rightarrow> False)"
  by (cases ok) code_simp+

theorem admissions_reach_feed_witness:
  "(''005930'', ''S3_'') \<in> set (fst (watcher_turn demo_feed 2 (Some (7, [])) (\<lambda>_. None) (iw_ipc (demo_world True)) demo_watcher))"
proof -
  obtain rows where rows: "read_membership (iw_lines (demo_world True)) = Inr rows" "map m_symbol (dyn_rows rows) = [''005930'']"
    using demo_world_rows [of True] by (cases "read_membership (iw_lines (demo_world True))") auto
  then obtain r where r: "r \<in> set (dyn_rows rows)" "m_symbol r = ''005930''" by auto
  then have f: "feed_of r = Inr (df_feed demo_feed)" using demo_world_feed [of True] rows(1) by (simp add: demo_feed_def list_all_iff)
  have "list_all event_ok [EvPoll (demo_poll True)]" "list_all ipc_fine [EvPoll (demo_poll True)]"
    by (simp_all add: codes_ok_def demo_poll_def is_krx_short_code_def) code_simp
  from admissions_reach_feed [OF refl this demo_world_def rows(1) r(1) f, of "''S3_''" demo_watcher 7 "[]" 2 "\<lambda>_. None"] show ?thesis
    using r(2) by (simp add: demo_feed_def demo_watcher_def)
qed

end
