(* ===== verification/Spec2Isabelle.thy ===== *)
theory Spec2Isabelle
  imports Demo_Session MarketPhase DeployGate Pacing ShardWatchdog LsSharding KisSharding LagMonitor Retention TradingCalendar Membership Lifecycle Oms_Amounts HostTokens ImageGc Candidates WsLease Handover Intraday
begin

text \<open>
  krx-alpha collects Korean market data around the clock and sends orders to one broker (KIS). This development models
  the parts of it whose mistakes cost money or data, and proves what each promises. Paths below are relative to the
  repository; every theory opens with what it holds.

  \<^bold>\<open>Conventions.\<close> A Python object is a record of its fields, an enumeration a datatype, a
  \<open>dict\<close> an association list in insertion order (\<open>Prelude\<close>), a text a list of bytes. An
  operation that may raise returns \<open>exn + 'a\<close> (\<open>Errors\<close>), and one that changes state returns
  the state it leaves behind also when it raises. Integers are unbounded as in Python, floats are rationals rounded
  after every operation by \<open>fl\<close> (\<open>Prelude\<close>, \<open>Floats\<close>). A
  \<open>datetime\<close> keeps its fields and offset (\<open>PyTime\<close>, \<open>IsoTime\<close>,
  \<open>PyCalendar\<close>). What a call meets outside the program, such as clock readings, vendor answers, lock and
  write failures, is an environment record or a function of the attempt number; what a theorem assumes of it is a
  hypothesis of the theorem. Third-party code appears as a parameter: SHA-256, Python's \<open>hash\<close>, and the
  column engine polars (a locale in \<open>MarketPhase\<close> with its documented row semantics).

  \<^bold>\<open>Order execution\<close> (\<open>src/execution\<close>, \<open>src/brokers/kis\<close>).
  \<open>Contracts\<close>, \<open>Ticks\<close>, \<open>Ledger\<close>, \<open>Risk\<close>, \<open>Journal\<close>,
  \<open>Gateways\<close>, \<open>Oms\<close>, \<open>Recovery\<close> and \<open>Service\<close> model the modules of
  the same name, operation by operation; \<open>Kis_Http\<close> and \<open>Kis_Trading\<close> model
  \<open>http.py\<close> and \<open>trading.py\<close>, \<open>Pacing\<close> models \<open>rate.py\<close>. A session
  is an \<open>oms\<close> record; \<open>oms_reach\<close> (\<open>Oms_Safety\<close>) is the inductive relation of
  the states its calls lead to. What a gateway promises is the locale \<open>gateway_laws\<close>, interpreted for the
  paper and the live gateway. Proved: no overselling, every fill booked once, orders only move forward, nothing is
  sent past the gate or the rate limit, an order is posted again only after an answer that shows the attempt before
  was not executed, waiting ends, and the journal replays to the session, so that a restarted session is safe
  (\<open>Oms_Props\<close>, \<open>Oms_Safety\<close>, \<open>Oms_Recovery\<close>). \<open>Oms_Amounts\<close> shows
  the one way the replay breaks: an amount the broker corrects at an unchanged quantity. \<open>Demo_Session\<close>
  is the concrete session the witnesses use.

  \<^bold>\<open>Time and the daemon\<close> (\<open>src/core\<close>, \<open>src/orchestration\<close>).
  \<open>SessionAnchors\<close>, \<open>Calendar\<close>, \<open>CollectionWindows\<close>,
  \<open>TradingCalendar\<close> (with \<open>marketdata/toss_calendar.py\<close>), \<open>DeployGate\<close>,
  \<open>Supervisor\<close>, \<open>ShardWatchdog\<close>, \<open>Lifecycle\<close>. Proved: shifted days, state order
  and wake-ups, silence limits only while collecting, a settled trading-day verdict and paced retries, no deploy
  during collection, restart budgets per window and per day.

  \<^bold>\<open>Collection\<close> (\<open>src/realtime\<close>, \<open>src/universe\<close>,
  \<open>src/cli\<close>). \<open>RealtimeContracts\<close>, \<open>LagMonitor\<close>, \<open>LsSharding\<close>,
  \<open>KisSharding\<close>, \<open>WsLease\<close> (\<open>ws_lease.py\<close>), \<open>Handover\<close>
  (\<open>connection_handover.py\<close> and the receive loop of \<open>streamer.py\<close>),
  \<open>Membership\<close>, \<open>Candidates\<close> (\<open>ipc.py\<close>, \<open>aftermarket.py\<close>,
  \<open>premarket.py\<close>) and \<open>Intraday\<close> (\<open>intraday.py\<close>,
  \<open>cli/collect_intraday_discovery.py\<close>, the static rows of the daemon and the watcher of
  \<open>session.py\<close>). Files shared between processes are values of \<open>JsonFiles\<close> or lists of
  decoded lines, and runs are lists of calls or events of any of the processes. Proved: shards place symbols within
  caps and keep connections apart, the slot ledger keeps the cap and lets a primary in, a handover accounts for every
  slot and records a frame once, pools reach the collector as selected, intraday admission never overfills a feed and
  reaches it when the admissions file was written (and is lost for the day when it was not).

  \<^bold>\<open>Storage and host\<close> (\<open>src/storage\<close>, \<open>deploy\<close>). \<open>Layout\<close>,
  \<open>MarketPhase\<close>, \<open>Retention\<close>, \<open>HostTokens\<close>
  (\<open>host_broker_contract.py\<close>), \<open>ImageGc\<close> (\<open>vps_image_gc.py\<close>). Proved: paths
  round trip, the phase column equals the scalar classifier for windows on whole seconds, pruning deletes only what is
  archived, no process issues a token while the stored one is usable and issues are spaced, image collection untags
  exactly the superseded images.

  \<^bold>\<open>Interfaces.\<close> Three locales carry the contracts that components rely on:
  \<open>gateway_laws\<close>, the semantics of polars, and a pacer that books slots. Each is interpreted on the
  model's own definitions in the theory that provides them.

  \<^bold>\<open>Bounds and fuel.\<close> No operation of the model runs out of fuel silently. Retry loops recurse on
  the attempts the code allows (four posts, the pages of a listing). Polling loops take their clock readings as a
  function of the round: waiting for an order and acquiring a pacing slot are proved to return when the clock
  advances, and the discovery loop terminates by the distance to its cutoff. The duplicate memory of a handover is
  bounded as in the code, and the statement about it carries that bound.

  \<^bold>\<open>Not modelled.\<close> Modules that are vendor I/O around a few lines of logic: the websocket
  adapters, the REST readers for ticks, candles, rankings, program trades and minute bars, remote storage, and alert
  delivery. Data frame pipelines whose meaning is that of polars: bar stores and validation, snapshots, normalisation,
  the audits and repairs of the raw journal, quality reports, the universe policy. Settings and path tables of
  \<open>core/config.py\<close> and \<open>core/paths.py\<close> beyond the fields used. The daemon's main loop beyond
  the operations above: it is a sequence of supervised side effects over those operations. The asynchronous twins of
  the token store and the pacer of the host contract. Developer tools under \<open>tools\<close> and shell scripts
  under \<open>deploy/host\<close>. Logging, file modes, and crashes of the machine between two writes of one call are
  left out throughout.
\<close>

section \<open>Order sessions\<close>





text \<open>
  C7. Orders only move forward: from one reachable state of a live session to a later one every
  order is still registered under its identifier, with the same intent and creation time, no
  smaller fill, a status the state machine leads to, and not changed at all once it is final.
\<close>

theorem session_orders_advance:
  assumes "oms_reach E R cfg m m'" "c_gw cfg = live_gateway mode" "wf_oms m"
  shows "orders_evolve (m_orders m) (m_orders m')"
  using live_gw.reach_keeps [OF assms] by (simp add: keeps_def)

theorem session_orders_advance_witness:
  "\<forall>env. orders_evolve (m_orders demo_start) (m_orders (snd (submit demo_cfg env demo_intent demo_start)))"
  using session_orders_advance [OF demo_step demo_cfg_gateway demo_start_wf(1)] by blast

text \<open>
  No money appears or vanishes: cash plus the cost of the positions minus the realised result
  is the same in every state a live session reaches.
\<close>

theorem session_keeps_book_value:
  assumes "oms_reach E R cfg m m'" "c_gw cfg = live_gateway mode" "wf_oms m"
  shows "book_value (m_ledger m') = book_value (m_ledger m)"
  using live_gw.reach_keeps [OF assms] by (simp add: keeps_def)

theorem session_keeps_book_value_witness:
  "\<forall>env. book_value (m_ledger (snd (submit demo_cfg env demo_intent demo_start))) = 490000"
proof
  fix env
  show "book_value (m_ledger (snd (submit demo_cfg env demo_intent demo_start))) = 490000"
    using session_keeps_book_value [OF demo_step demo_cfg_gateway demo_start_wf(1), of env demo_intent]
    by (simp add: book_value_def demo_start_def new_oms_def demo_ledger_def new_ledger_def)
qed

text \<open>
  C6. A submission that reaches the live gateway carries an intent that the risk gate admits
  at the quote it read and in the state of the manager: no kill switch, no block, no unknown order
  on the same side, a tradable tick-aligned price in the band, and every limit of the settings.
\<close>

theorem submit_sends_only_admissible:
  assumes "c_gw cfg = live_gateway mode" "m_submit_times (snd (submit cfg env intent m)) \<noteq> m_submit_times m"
  shows "\<exists>qt ref orderable. se_quote env = Inr qt \<and> reference_price intent qt = Inr ref
    \<and> admissible intent qt (c_limits cfg) (risk_context_of cfg env intent ref orderable m)"
proof -
  have "gated cfg env intent m"
    using live_gw.submit_has_effect [OF assms(1) refl, of env intent m] assms(2) by (auto simp: submit_effect_def)
  then obtain qt ref where qt: "se_quote env = Inr qt" "risk_gate cfg env intent qt (m\<lparr>m_seq := Suc (m_seq m)\<rparr>) = Inr ref"
    by (auto simp: gated_def)
  have "risk_context_of cfg env intent ref x (m\<lparr>m_seq := Suc (m_seq m)\<rparr>) = risk_context_of cfg env intent ref x m" for x
    by (simp add: risk_context_of_def open_qty_def open_orders_def)
  with risk_gate_admissible [OF qt(2)] qt(1) show ?thesis by auto
qed

theorem submit_sends_only_admissible_witness:
  "m_submit_times (snd (submit demo_cfg demo_submit demo_intent demo_start)) = [demo_ts]
   \<and> (\<exists>ref orderable. reference_price demo_intent demo_quote = Inr ref
        \<and> admissible demo_intent demo_quote (c_limits demo_cfg) (risk_context_of demo_cfg demo_submit demo_intent ref orderable demo_start))"
proof -
  have sent: "m_submit_times (snd (submit demo_cfg demo_submit demo_intent demo_start)) = [demo_ts]" by (rule demo_sends)
  then have "m_submit_times (snd (submit demo_cfg demo_submit demo_intent demo_start)) \<noteq> m_submit_times demo_start"
    by (simp add: demo_start_def new_oms_def)
  from submit_sends_only_admissible [OF demo_cfg_gateway this] sent show ?thesis by (auto simp: demo_submit_def)
qed

text \<open>
  C8. In a live session whose clock does not run backwards within a submission, no window of
  sixty seconds ever holds more submissions than the configured rate.
\<close>

theorem session_rate_limited:
  assumes "oms_reach clock_forward R cfg m m'" "c_gw cfg = live_gateway mode" "wf_oms m" "rate_ok cfg m"
  shows "int (sent_in_window x m') \<le> max 0 (max_orders_per_minute (c_limits cfg))"
  using live_gw.reach_rate [OF assms] by (simp add: rate_ok_def)

theorem session_rate_limited_witness:
  "\<forall>x. int (sent_in_window x (snd (submit demo_cfg demo_submit demo_intent demo_start))) \<le> 10"
proof
  fix x
  have "clock_forward demo_submit" by (simp add: clock_forward_def demo_submit_def)
  then have "oms_reach clock_forward (\<lambda>_. True) demo_cfg demo_start (snd (submit demo_cfg demo_submit demo_intent demo_start))"
    by (intro r_into_rtranclp step_submit)
  from session_rate_limited [OF this demo_cfg_gateway demo_start_wf(1,3), of x]
  show "int (sent_in_window x (snd (submit demo_cfg demo_submit demo_intent demo_start))) \<le> 10"
    by (simp add: demo_cfg_def live_cfg_def limits_of_def demo_settings_def)
qed

section \<open>Restarts\<close>






section \<open>Waiting for an order\<close>



end
